(* ===== verification/Prelude.thy ===== *)
theory Prelude
  imports
    Main
    "HOL-Library.Char_ord"
    "HOL-Library.List_Lexorder"
    "HOL-Library.AList"
    "HOL-Library.Sublist"
    "HOL-Library.Multiset"
begin

text \<open>
  What the components share: Go strings as byte lists with the functions of package
  \<open>strings\<close> the repository calls, Go errors as values, Go maps as association lists with the
  order-independence lemmas that Go's random iteration order calls for, sets with sorted output,
  and decimal printing. Nothing here models a line of the repository itself; every other theory
  imports it.
\<close>

named_theorems header_simps \<open>the values of a header after the header operations\<close>
named_theorems status_simps \<open>the replies of the handlers\<close>

section \<open>Strings\<close>

text \<open>
  A Go string is a sequence of bytes, here a \<^typ>\<open>string\<close> (a list of 8-bit \<^typ>\<open>char\<close>s);
  \<open><\<close> on it is the byte-wise lexicographic order of \<open>sort.Strings\<close> and of \<open><\<close> in Go.

  The functions of package \<open>strings\<close> that look at letters (\<open>ToLower\<close>, \<open>TrimSpace\<close>,
  \<open>EqualFold\<close>, \<open>FieldsFunc\<close>) have an ASCII path, which is written out, and decode UTF-8
  and consult the Unicode tables otherwise. The second path is left unspecified: the
  \<open>unicode_\<dots>\<close> constants are arbitrary functions, so that a theorem about all strings holds
  whatever the tables say, and a theorem that needs the tables is stated for ASCII strings.
\<close>

definition unicode_lower :: "string \<Rightarrow> string" where
  "unicode_lower = undefined"

definition unicode_upper :: "string \<Rightarrow> string" where
  "unicode_upper = undefined"

definition unicode_trim_space :: "string \<Rightarrow> string" where
  "unicode_trim_space = undefined"

definition unicode_equal_fold :: "string \<Rightarrow> string \<Rightarrow> bool" where
  "unicode_equal_fold = undefined"

definition ascii :: "string \<Rightarrow> bool" where
  "ascii s \<longleftrightarrow> list_all (\<lambda>c. \<not> digit7 c) s"

definition upper_letter :: "char \<Rightarrow> bool" where
  "upper_letter c \<longleftrightarrow> CHR ''A'' \<le> c \<and> c \<le> CHR ''Z''"

definition lower_letter :: "char \<Rightarrow> bool" where
  "lower_letter c \<longleftrightarrow> CHR ''a'' \<le> c \<and> c \<le> CHR ''z''"

definition digit_char :: "char \<Rightarrow> bool" where
  "digit_char c \<longleftrightarrow> CHR ''0'' \<le> c \<and> c \<le> CHR ''9''"

definition lower_char :: "char \<Rightarrow> char" where
  "lower_char c = (if upper_letter c then char_of (of_char c + (32::nat)) else c)"

definition upper_char :: "char \<Rightarrow> char" where
  "upper_char c = (if lower_letter c then char_of (of_char c - (32::nat)) else c)"

text \<open>The bytes of Go's \<open>asciiSpace\<close>: tab, newline, vertical tab, form feed, return, blank.\<close>

definition space_char :: "char \<Rightarrow> bool" where
  "space_char c \<longleftrightarrow>
     c \<in> {CHR 0x09, CHR 0x0A, CHR 0x0B, CHR 0x0C, CHR 0x0D, CHR 0x20}"

definition trim_ascii :: "string \<Rightarrow> string" where
  "trim_ascii s = rev (dropWhile space_char (rev (dropWhile space_char s)))"

definition ToLower :: "string \<Rightarrow> string" where
  "ToLower s = (if ascii s then map lower_char s else unicode_lower s)"

definition ToUpper :: "string \<Rightarrow> string" where
  "ToUpper s = (if ascii s then map upper_char s else unicode_upper s)"

definition TrimSpace :: "string \<Rightarrow> string" where
  "TrimSpace s = (if ascii s then trim_ascii s else unicode_trim_space s)"

definition EqualFold :: "string \<Rightarrow> string \<Rightarrow> bool" where
  "EqualFold s t =
     (if ascii s \<and> ascii t then map lower_char s = map lower_char t else unicode_equal_fold s t)"

text \<open>\<open>HasPrefix\<close>, \<open>HasSuffix\<close>, \<open>TrimPrefix\<close>, \<open>TrimSuffix\<close>: byte-wise, for every string.\<close>

definition HasPrefix :: "string \<Rightarrow> string \<Rightarrow> bool" where
  "HasPrefix s p \<longleftrightarrow> take (length p) s = p"

definition HasSuffix :: "string \<Rightarrow> string \<Rightarrow> bool" where
  "HasSuffix s p \<longleftrightarrow> HasPrefix (rev s) (rev p)"

definition TrimPrefix :: "string \<Rightarrow> string \<Rightarrow> string" where
  "TrimPrefix s p = (if HasPrefix s p then drop (length p) s else s)"

definition TrimSuffix :: "string \<Rightarrow> string \<Rightarrow> string" where
  "TrimSuffix s p = (if HasSuffix s p then take (length s - length p) s else s)"

text \<open>\<open>strings.Index\<close> and \<open>strings.Contains\<close>.\<close>

fun Index :: "string \<Rightarrow> string \<Rightarrow> nat option" where
  "Index [] p = (if p = [] then Some 0 else None)"
| "Index (c # cs) p = (if HasPrefix (c # cs) p then Some 0 else map_option Suc (Index cs p))"

definition Contains :: "string \<Rightarrow> string \<Rightarrow> bool" where
  "Contains s p \<longleftrightarrow> Index s p \<noteq> None"

text \<open>\<open>strings.Split(s, sep)\<close> for a one-byte separator, and \<open>strings.Join\<close>.\<close>

fun Split :: "char \<Rightarrow> string \<Rightarrow> string list" where
  "Split c [] = [[]]"
| "Split c (x # xs) =
     (if x = c then [] # Split c xs
      else (case Split c xs of [] \<Rightarrow> [[x]] | y # ys \<Rightarrow> (x # y) # ys))"

fun Join :: "string \<Rightarrow> string list \<Rightarrow> string" where
  "Join sep [] = []"
| "Join sep [x] = x"
| "Join sep (x # y # ys) = x @ sep @ Join sep (y # ys)"

text \<open>\<open>strings.IndexByte\<close> and \<open>strings.IndexAny\<close> with the slice before the hit: all the
  repository does with the index is to cut there.\<close>

definition before_byte :: "char \<Rightarrow> string \<Rightarrow> string" where
  "before_byte c s = takeWhile (\<lambda>x. x \<noteq> c) s"

definition trim_right_byte :: "char \<Rightarrow> string \<Rightarrow> string" where
  "trim_right_byte c s = rev (dropWhile (\<lambda>x. x = c) (rev s))"

subsection \<open>Lemmas on strings\<close>

lemma ascii_Nil [simp]: "ascii []"
  by (simp add: ascii_def)

lemma ascii_append [simp]: "ascii (s @ t) \<longleftrightarrow> ascii s \<and> ascii t"
  by (simp add: ascii_def)

lemma ascii_rev [simp]: "ascii (rev s) = ascii s"
  by (simp add: ascii_def list_all_iff)

lemma ascii_dropWhile [intro]: "ascii s \<Longrightarrow> ascii (dropWhile P s)"
  by (auto simp: ascii_def list_all_iff dest: set_dropWhileD)

lemma ascii_iff_of_char: "ascii s \<longleftrightarrow> (\<forall>c \<in> set s. of_char c < (128::nat))"
proof -
  have "\<not> digit7 c \<longleftrightarrow> of_char c < (128::nat)" for c :: char
    by (cases c) (auto simp: of_char_def horner_sum_simps)
  then show ?thesis by (simp add: ascii_def list_all_iff)
qed

lemma of_char_lower_char:
  "(of_char (lower_char c) :: nat) = (if upper_letter c then of_char c + 32 else of_char c)"
proof (cases "upper_letter c")
  case True
  then have "(of_char c :: nat) \<le> 90"
    by (simp add: upper_letter_def less_eq_char_def)
  with True show ?thesis by (simp add: lower_char_def)
qed (simp add: lower_char_def)

lemma upper_letter_code: "upper_letter c \<longleftrightarrow> 65 \<le> (of_char c :: nat) \<and> (of_char c :: nat) \<le> 90"
  by (simp add: upper_letter_def less_eq_char_def)

lemma lower_char_not_upper [simp]: "\<not> upper_letter (lower_char c)"
  by (auto simp: upper_letter_code of_char_lower_char)

lemma lower_char_idem [simp]: "lower_char (lower_char c) = lower_char c"
  by (simp add: lower_char_def [of "lower_char c"])

lemma ascii_map_lower [simp]: "ascii s \<Longrightarrow> ascii (map lower_char s)"
  by (auto simp: ascii_iff_of_char of_char_lower_char upper_letter_code)

lemma space_char_lower [simp]: "space_char (lower_char c) = space_char c"
proof (cases "upper_letter c")
  case True
  then have "97 \<le> (of_char (lower_char c) :: nat)" "65 \<le> (of_char c :: nat)"
    by (simp_all add: of_char_lower_char upper_letter_code)
  moreover have "(of_char d :: nat) \<le> 32" if "space_char d" for d
    using that by (auto simp: space_char_def)
  ultimately have "\<not> space_char (lower_char c)" "\<not> space_char c" by fastforce+
  then show ?thesis by simp
qed (simp add: lower_char_def)

lemma ToLower_ascii: "ascii s \<Longrightarrow> ToLower s = map lower_char s"
  by (simp add: ToLower_def)

lemma TrimSpace_ascii: "ascii s \<Longrightarrow> TrimSpace s = trim_ascii s"
  by (simp add: TrimSpace_def)

lemma ascii_trim: "ascii s \<Longrightarrow> ascii (trim_ascii s)"
  by (simp add: trim_ascii_def ascii_dropWhile)

lemma ascii_ToLower: "ascii s \<Longrightarrow> ascii (ToLower s)"
  by (simp add: ToLower_ascii)

lemma ascii_TrimSpace: "ascii s \<Longrightarrow> ascii (TrimSpace s)"
  by (simp add: TrimSpace_ascii ascii_trim)

lemma TrimSpace_Nil [simp]: "TrimSpace [] = []"
  by (simp add: TrimSpace_def trim_ascii_def)

lemma ToLower_Nil [simp]: "ToLower [] = []"
  by (simp add: ToLower_def)

lemma ToLower_idem: "ascii s \<Longrightarrow> ToLower (ToLower s) = ToLower s"
  by (simp add: ToLower_ascii)

lemma ToLower_eq_Nil: "ascii s \<Longrightarrow> ToLower s = [] \<longleftrightarrow> s = []"
  by (simp add: ToLower_ascii)

lemma dropWhile_idem_rev:
  "dropWhile P (rev (dropWhile P (rev (dropWhile P s)))) = rev (dropWhile P (rev (dropWhile P s)))"
proof (cases "dropWhile P s")
  case (Cons x xs)
  then have nx: "\<not> P x" by (simp add: dropWhile_eq_Cons_conv)
  have "dropWhile P (rev xs @ [x]) = dropWhile P (rev xs) @ [x] \<or>
        dropWhile P (rev xs @ [x]) = [x]"
    using nx by (auto simp: dropWhile_append)
  with Cons nx show ?thesis by auto
next
  case Nil
  then show ?thesis by (simp only: rev.simps dropWhile.simps)
qed

lemma trim_ascii_idem [simp]: "trim_ascii (trim_ascii s) = trim_ascii s"
  by (simp add: trim_ascii_def dropWhile_idem_rev)

lemma TrimSpace_idem: "ascii s \<Longrightarrow> TrimSpace (TrimSpace s) = TrimSpace s"
  by (simp add: TrimSpace_ascii ascii_trim)

lemma trim_ascii_map_lower: "trim_ascii (map lower_char s) = map lower_char (trim_ascii s)"
  by (simp add: trim_ascii_def dropWhile_map rev_map o_def)

lemma TrimSpace_ToLower: "ascii s \<Longrightarrow> TrimSpace (ToLower s) = ToLower (TrimSpace s)"
  by (simp add: ToLower_ascii TrimSpace_ascii ascii_trim trim_ascii_map_lower)

text \<open>An ASCII string that \<open>TrimSpace\<close> leaves as it is.\<close>

definition trimmed :: "string \<Rightarrow> bool" where
  "trimmed s \<longleftrightarrow> s \<noteq> [] \<and> ascii s \<and> \<not> space_char (hd s) \<and> \<not> space_char (last s)"

lemma trimmed_append: "trimmed s \<Longrightarrow> trimmed t \<Longrightarrow> ascii u \<Longrightarrow> trimmed (s @ u @ t)"
  by (simp add: trimmed_def)

lemma TrimSpace_trimmed [simp]: "trimmed s \<Longrightarrow> TrimSpace s = s"
proof -
  assume t: "trimmed s"
  then have "dropWhile space_char s = s"
    by (cases s) (simp_all add: trimmed_def)
  moreover have "dropWhile space_char (rev s) = rev s"
    using t by (cases s rule: rev_cases) (simp_all add: trimmed_def)
  ultimately show "TrimSpace s = s"
    using t by (simp add: TrimSpace_ascii trimmed_def trim_ascii_def)
qed

lemma trim_ascii_not_Nil: "c \<in> set s \<Longrightarrow> \<not> space_char c \<Longrightarrow> trim_ascii s \<noteq> []"
proof -
  assume c: "c \<in> set s" "\<not> space_char c"
  then have "c \<in> set (dropWhile space_char s)"
    by (metis UnE set_append set_takeWhileD takeWhile_dropWhile_id)
  with c(2) show "trim_ascii s \<noteq> []"
    by (auto simp: trim_ascii_def dropWhile_eq_Nil_conv)
qed

lemma HasPrefix_append: "HasPrefix (p @ s) p"
  by (simp add: HasPrefix_def)

lemma HasPrefix_iff: "HasPrefix s p \<longleftrightarrow> (\<exists>r. s = p @ r)"
  by (metis HasPrefix_def append_eq_conv_conj append_take_drop_id)

lemma TrimPrefix_append [simp]: "TrimPrefix (p @ s) p = s"
  by (simp add: TrimPrefix_def HasPrefix_def)

lemma Index_Some_iff:
  "Index s p = Some i \<longleftrightarrow> i \<le> length s \<and> HasPrefix (drop i s) p \<and> (\<forall>j < i. \<not> HasPrefix (drop j s) p)"
proof (induction s arbitrary: i)
  case Nil
  then show ?case by (auto simp: HasPrefix_def)
next
  case (Cons c cs)
  show ?case
  proof (cases "HasPrefix (c # cs) p")
    case True
    then show ?thesis by (cases i) auto
  next
    case False
    with Cons show ?thesis by (cases i) (auto simp: less_Suc_eq_0_disj)
  qed
qed

lemma Index_None_iff: "Index s p = None \<longleftrightarrow> (\<forall>i \<le> length s. \<not> HasPrefix (drop i s) p)"
proof (induction s)
  case (Cons c cs)
  have "(\<forall>i \<le> length (c # cs). \<not> HasPrefix (drop i (c # cs)) p) \<longleftrightarrow>
      \<not> HasPrefix (c # cs) p \<and> (\<forall>i \<le> length cs. \<not> HasPrefix (drop i cs) p)"
    (is "(\<forall>i \<le> _. ?P i) \<longleftrightarrow> _")
  proof -
    have "(\<forall>i \<le> Suc (length cs). ?P i) \<longleftrightarrow> ?P 0 \<and> (\<forall>i \<le> length cs. ?P (Suc i))"
      by (simp only: All_less_Suc2 less_Suc_eq_le [symmetric])
    then show ?thesis by simp
  qed
  with Cons show ?case by simp
qed (simp add: HasPrefix_def)

lemma Contains_iff: "Contains s p \<longleftrightarrow> (\<exists>a b. s = a @ p @ b)"
proof -
  have "Contains s p \<longleftrightarrow> (\<exists>i \<le> length s. HasPrefix (drop i s) p)"
    unfolding Contains_def Index_None_iff by blast
  also have "\<dots> \<longleftrightarrow> (\<exists>a b. s = a @ p @ b)"
  proof
    assume "\<exists>i \<le> length s. HasPrefix (drop i s) p"
    then obtain i b where "drop i s = p @ b" by (auto simp: HasPrefix_iff)
    then have "s = take i s @ p @ b" by (metis append_take_drop_id)
    then show "\<exists>a b. s = a @ p @ b" by blast
  next
    assume "\<exists>a b. s = a @ p @ b"
    then obtain a b where "s = a @ p @ b" by blast
    then show "\<exists>i \<le> length s. HasPrefix (drop i s) p"
      by (intro exI [of _ "length a"]) (simp add: HasPrefix_append)
  qed
  finally show ?thesis .
qed

lemma HasSuffix_iff: "HasSuffix s p \<longleftrightarrow> (\<exists>r. s = r @ p)"
  unfolding HasSuffix_def HasPrefix_iff by (metis rev_append rev_rev_ident)

lemma TrimSuffix_append [simp]: "TrimSuffix (s @ p) p = s"
  by (simp add: TrimSuffix_def HasSuffix_def HasPrefix_def)

lemma Split_not_Nil [simp]: "Split c s \<noteq> []"
  by (induction s) (auto split: list.splits)

lemma Split_no_sep: "p \<in> set (Split c s) \<Longrightarrow> c \<notin> set p"
  by (induction s arbitrary: p) (fastforce split: list.splits if_splits)+

lemma Join_Cons: "ys \<noteq> [] \<Longrightarrow> Join sep (x # ys) = x @ sep @ Join sep ys"
  by (cases ys) simp_all

lemma Join_Split: "Join [c] (Split c s) = s"
proof (induction s)
  case (Cons x xs)
  obtain y ys where "Split c xs = y # ys" by (cases "Split c xs") auto
  with Cons show ?case by (cases ys) auto
qed simp

lemma Split_segment: "c \<notin> set p \<Longrightarrow> Split c p = [p]"
  by (induction p) auto

lemma Split_append: "c \<notin> set p \<Longrightarrow> Split c (p @ c # s) = p # Split c s"
  by (induction p) auto

lemma Split_Join:
  "ps \<noteq> [] \<Longrightarrow> list_all (\<lambda>p. c \<notin> set p) ps \<Longrightarrow> Split c (Join [c] ps) = ps"
  by (induction "[c]" ps rule: Join.induct) (auto simp: Split_segment Split_append)


subsection \<open>Splitting into fields\<close>

text \<open>
  \<open>strings.FieldsFunc\<close>: the maximal runs of bytes that are no separator. \<open>cur\<close> is the run
  being collected, reversed.
\<close>

fun fields_from :: "(char \<Rightarrow> bool) \<Rightarrow> string \<Rightarrow> string \<Rightarrow> string list" where
  "fields_from sep cur [] = (if cur = [] then [] else [rev cur])"
| "fields_from sep cur (c # cs) =
     (if sep c then (if cur = [] then [] else [rev cur]) @ fields_from sep [] cs
      else fields_from sep (c # cur) cs)"

definition FieldsFunc :: "(char \<Rightarrow> bool) \<Rightarrow> string \<Rightarrow> string list" where
  "FieldsFunc sep s = fields_from sep [] s"

text \<open>A maximal run of \<open>s\<close>: non-empty, free of separators, bounded by separators or the ends.\<close>

definition maximal_run :: "(char \<Rightarrow> bool) \<Rightarrow> string \<Rightarrow> string \<Rightarrow> bool" where
  "maximal_run sep s t \<longleftrightarrow> t \<noteq> [] \<and> list_all (\<lambda>c. \<not> sep c) t \<and>
     (\<exists>p q. s = p @ t @ q \<and> (p = [] \<or> sep (last p)) \<and> (q = [] \<or> sep (hd q)))"

lemma maximal_run_no_sep:
  assumes "list_all (\<lambda>c. \<not> sep c) s"
  shows "maximal_run sep s t \<longleftrightarrow> t = s \<and> s \<noteq> []"
proof
  assume "maximal_run sep s t"
  then obtain p q where s: "s = p @ t @ q" "t \<noteq> []"
    and pq: "p = [] \<or> sep (last p)" "q = [] \<or> sep (hd q)"
    by (auto simp: maximal_run_def)
  have "p = []" using pq(1) assms s(1) by (cases p rule: rev_cases) auto
  moreover have "q = []" using pq(2) assms s(1) by (cases q) auto
  ultimately show "t = s \<and> s \<noteq> []" using s by simp
qed (use assms in \<open>auto simp: maximal_run_def intro: exI [of _ "[]"]\<close>)

lemma maximal_run_sep:
  assumes u: "list_all (\<lambda>c. \<not> sep c) u" and c: "sep c"
  shows "maximal_run sep (u @ c # cs) t \<longleftrightarrow> t = u \<and> u \<noteq> [] \<or> maximal_run sep cs t"
proof
  assume "maximal_run sep (u @ c # cs) t"
  then obtain p q where s: "u @ c # cs = p @ t @ q" and t: "t \<noteq> []" "list_all (\<lambda>c. \<not> sep c) t"
    and pq: "p = [] \<or> sep (last p)" "q = [] \<or> sep (hd q)"
    by (auto simp: maximal_run_def)
  show "t = u \<and> u \<noteq> [] \<or> maximal_run sep cs t"
  proof (cases "length p \<le> length u")
    case True
    then obtain v where v: "u = p @ v" using s by (metis append_eq_append_conv_if append_take_drop_id)
    then have "p = []" using pq(1) u by (cases p rule: rev_cases) auto
    with v s have uv: "u @ c # cs = t @ q" by simp
    have "t = u"
    proof (cases "length t \<le> length u")
      case True
      then obtain w where w: "u = t @ w" using uv
        by (metis append_eq_append_conv_if append_take_drop_id)
      then have "q = w @ c # cs" using uv by simp
      with pq(2) u w have "w = []" by (cases w) auto
      with w show ?thesis by simp
    next
      case False
      then obtain w where "t = u @ w" "w \<noteq> []" using uv
        by (metis append_eq_append_conv2 append_Nil2 le_refl length_append le_add1)
      then show ?thesis using uv t(2) c by (cases w) auto
    qed
    with t show ?thesis by simp
  next
    case False
    then obtain w where w: "p = u @ w" "w \<noteq> []" using s
      by (metis append_eq_append_conv2 append_Nil2 le_refl length_append le_add1)
    then obtain w' where w': "p = u @ c # w'" "cs = w' @ t @ q" using s by (cases w) auto
    then have "w' = [] \<or> sep (last w')" using pq(1) by (auto split: if_splits)
    with t pq(2) w'(2) show ?thesis by (auto simp: maximal_run_def)
  qed
next
  assume "t = u \<and> u \<noteq> [] \<or> maximal_run sep cs t"
  then show "maximal_run sep (u @ c # cs) t"
  proof
    assume "t = u \<and> u \<noteq> []"
    with u c show ?thesis
      unfolding maximal_run_def by (intro conjI exI [of _ "[]"] exI [of _ "c # cs"]) auto
  next
    assume "maximal_run sep cs t"
    then obtain p q where "cs = p @ t @ q" "p = [] \<or> sep (last p)" "q = [] \<or> sep (hd q)"
      and t: "t \<noteq> []" "list_all (\<lambda>c. \<not> sep c) t"
      by (auto simp: maximal_run_def)
    with c show ?thesis
      unfolding maximal_run_def
      by (intro conjI t exI [of _ "u @ c # p"] exI [of _ q]) (auto split: if_splits)
  qed
qed

lemma fields_from_runs:
  assumes "list_all (\<lambda>c. \<not> sep c) cur"
  shows "t \<in> set (fields_from sep cur s) \<longleftrightarrow> maximal_run sep (rev cur @ s) t"
  using assms
proof (induction s arbitrary: cur)
  case Nil
  then show ?case by (subst maximal_run_no_sep) (auto simp: list_all_iff)
next
  case (Cons c cs)
  show ?case
  proof (cases "sep c")
    case True
    with Cons.IH [of "[]"] Cons.prems show ?thesis
      by (subst maximal_run_sep) (auto simp: list_all_iff)
  next
    case False
    with Cons.IH [of "c # cur"] Cons.prems show ?thesis by simp
  qed
qed

lemma set_FieldsFunc: "t \<in> set (FieldsFunc sep s) \<longleftrightarrow> maximal_run sep s t"
  by (simp add: FieldsFunc_def fields_from_runs)

lemma fields_from_concat:
  "list_all (\<lambda>c. \<not> sep c) cur \<Longrightarrow>
     concat (fields_from sep cur s) = rev cur @ filter (\<lambda>c. \<not> sep c) s"
  by (induction sep cur s rule: fields_from.induct) auto

lemma concat_FieldsFunc: "concat (FieldsFunc sep s) = filter (\<lambda>c. \<not> sep c) s"
  by (simp add: FieldsFunc_def fields_from_concat)

section \<open>Errors\<close>

text \<open>
  \<open>errors.New\<close> and \<open>fmt.Errorf\<close> with \<open>%w\<close>: a sentinel or formatted text, or a prefix around
  another error. \<open>Error\<close> is Go's \<open>err.Error()\<close>, the text a client sees. An operation
  returning \<open>(T, error)\<close> returns \<open>error + 'a\<close>: \<open>Inl\<close> the error, \<open>Inr\<close> the value.
\<close>

datatype error = Errorf string | Wrap string error

primrec Error :: "error \<Rightarrow> string" where
  "Error (Errorf s) = s"
| "Error (Wrap p e) = p @ Error e"

section \<open>Maps\<close>

text \<open>
  A Go map is an association list with distinct keys. Ranging over a map visits the entries in an
  arbitrary order; the order of the list is the order of one such visit, and a function of the
  map must not depend on it: \<open>same_map\<close> relates two lists of the same entries, and the
  theorems that end in \<open>f m = f m'\<close> under \<open>same_map m m'\<close> are the determinism of \<open>f\<close>.
\<close>

definition wf_map :: "('k \<times> 'v) list \<Rightarrow> bool" where
  "wf_map m \<longleftrightarrow> distinct (map fst m)"

definition same_map :: "('k \<times> 'v) list \<Rightarrow> ('k \<times> 'v) list \<Rightarrow> bool" where
  "same_map m m' \<longleftrightarrow> wf_map m \<and> wf_map m' \<and> set m = set m'"

lemma wf_map_Nil [simp]: "wf_map []"
  by (simp add: wf_map_def)

lemma wf_map_update [simp]: "wf_map m \<Longrightarrow> wf_map (AList.update k v m)"
  by (simp add: wf_map_def distinct_update)

lemma wf_map_map_of: "wf_map m \<Longrightarrow> map_of m k = Some v \<longleftrightarrow> (k, v) \<in> set m"
  by (simp add: wf_map_def)

lemma update_new: "k \<notin> fst ` set m \<Longrightarrow> AList.update k v m = m @ [(k, v)]"
  by (induction m) auto

lemma same_map_map_of: "same_map m m' \<Longrightarrow> map_of m = map_of m'"
  by (simp add: same_map_def wf_map_def map_of_inject_set)

lemma same_mapI:
  "wf_map m \<Longrightarrow> wf_map m' \<Longrightarrow> map_of m = map_of m' \<Longrightarrow> same_map m m'"
  by (simp add: same_map_def wf_map_def map_of_inject_set)

lemma same_map_refl: "wf_map m \<Longrightarrow> same_map m m"
  by (simp add: same_map_def)

lemma same_map_sym: "same_map m m' \<Longrightarrow> same_map m' m"
  by (auto simp: same_map_def)

lemma same_map_distinct: "same_map m m' \<Longrightarrow> distinct m \<and> distinct m' \<and> set m = set m'"
  by (auto simp: same_map_def wf_map_def distinct_map)

lemma ran_update: "wf_map m \<Longrightarrow>
    (k', v') \<in> set (AList.update k v m) \<longleftrightarrow> (if k' = k then v' = v else (k', v') \<in> set m)"
  by (auto simp: wf_map_map_of [symmetric] update_conv')

subsection \<open>Sorting by a key\<close>

text \<open>
  \<open>sort.Slice\<close> by a key is not stable, but where the keys are distinct there is only one sorted
  arrangement of a set, so \<open>sort_key\<close> is what it returns whatever order it is given.
\<close>

lemma sort_key_unique:
  assumes "inj_on f (set xs)" and "set xs = set ys" and "distinct xs" and "distinct ys"
  shows "sort_key f xs = sort_key f ys"
  by (rule map_sorted_distinct_set_unique [of f]) (use assms in \<open>simp_all add: distinct_map\<close>)

lemma sort_key_id:
  assumes "sorted (map f xs)" shows "sort_key f xs = xs"
  using assms by (simp add: sorted_sort_id sort_key_id_if_sorted)

subsection \<open>First hits\<close>

lemma find_append:
  "find P (xs @ ys) = (case find P xs of None \<Rightarrow> find P ys | Some x \<Rightarrow> Some x)"
  by (induction xs) auto

lemma find_unique:
  assumes "set xs = set ys"
    and "\<And>x y. x \<in> set xs \<Longrightarrow> y \<in> set xs \<Longrightarrow> P x \<Longrightarrow> P y \<Longrightarrow> x = y"
  shows "find P xs = find P ys"
proof (cases "find P xs")
  case None
  with assms(1) show ?thesis by (metis find_None_iff)
next
  case (Some x)
  then have x: "x \<in> set xs" "P x" by (auto simp: find_Some_iff)
  with assms(1) obtain y where y: "find P ys = Some y" by (metis find_None_iff not_None_eq)
  then have "y \<in> set ys" "P y" by (auto simp: find_Some_iff)
  with assms x y Some show ?thesis by metis
qed

section \<open>Sets with sorted output\<close>

text \<open>
  The pattern \<open>seen := map[string]struct{}{}; \<dots>; sort.Strings(out)\<close>: the keys in the order they
  are inserted, then deduplicated and sorted.
\<close>

definition sorted_keys :: "string list \<Rightarrow> string list" where
  "sorted_keys xs = sort (remdups xs)"

lemma set_sorted_keys [simp]: "set (sorted_keys xs) = set xs"
  by (simp add: sorted_keys_def)

lemma sorted_sorted_keys [simp]: "sorted (sorted_keys xs)"
  by (simp add: sorted_keys_def)

lemma distinct_sorted_keys [simp]: "distinct (sorted_keys xs)"
  by (simp add: sorted_keys_def)

lemma sorted_keys_eq_Nil [simp]: "sorted_keys xs = [] \<longleftrightarrow> xs = []"
  using set_sorted_keys [of xs] by (metis set_empty)

lemma sorted_keys_eq_iff: "sorted_keys xs = sorted_keys ys \<longleftrightarrow> set xs = set ys"
proof
  assume "set xs = set ys"
  then show "sorted_keys xs = sorted_keys ys"
    by (intro sorted_distinct_set_unique) simp_all
qed (metis set_sorted_keys)

lemma sorted_keys_unique:
  "sorted ys \<Longrightarrow> distinct ys \<Longrightarrow> set ys = set xs \<Longrightarrow> ys = sorted_keys xs"
  by (rule sorted_distinct_set_unique) simp_all

section \<open>Decimal numbers\<close>

text \<open>\<open>fmt.Sprintf("%d", n)\<close> for a natural number and for a signed one.\<close>

definition digit :: "nat \<Rightarrow> char" where
  "digit n = char_of (48 + n)"

fun dec :: "nat \<Rightarrow> string" where
  "dec n = (if n < 10 then [digit n] else dec (n div 10) @ [digit (n mod 10)])"

declare dec.simps [simp del]

definition fmt_d :: "int \<Rightarrow> string" where
  "fmt_d i = (if i < 0 then CHR ''-'' # dec (nat (- i)) else dec (nat i))"

text \<open>Hexadecimal digits, both ways.\<close>

definition hex_digit :: "char \<Rightarrow> bool" where
  "hex_digit c \<longleftrightarrow> digit_char c \<or> (CHR ''a'' \<le> c \<and> c \<le> CHR ''f'') \<or> (CHR ''A'' \<le> c \<and> c \<le> CHR ''F'')"

definition hex_value :: "char \<Rightarrow> nat" where
  "hex_value c = (if digit_char c then of_char c - 48
     else if CHR ''a'' \<le> c then of_char c - 87 else of_char c - 55)"

definition hex_char :: "nat \<Rightarrow> char" where
  "hex_char n = (if n < 10 then char_of (48 + n) else char_of (87 + n))"

text \<open>\<open>%q\<close>: quoted; escapes are written out only by the library, beyond plain ASCII.\<close>

definition escaped_quote :: "string \<Rightarrow> string" where
  "escaped_quote = undefined"

definition fmt_q :: "string \<Rightarrow> string" where
  "fmt_q s =
     (if list_all (\<lambda>c. CHR 0x20 \<le> c \<and> c < CHR 0x7F \<and> c \<noteq> CHR 0x22 \<and> c \<noteq> CHR 0x5C) s
      then [CHR 0x22] @ s @ [CHR 0x22] else escaped_quote s)"

text \<open>Reading a decimal back, to see that printing loses nothing.\<close>

definition digit_value :: "char \<Rightarrow> nat" where
  "digit_value c = of_char c - 48"

definition dec_value :: "string \<Rightarrow> nat" where
  "dec_value s = foldl (\<lambda>n c. 10 * n + digit_value c) 0 s"

lemma digit_value_digit: "n < 10 \<Longrightarrow> digit_value (digit n) = n"
  by (simp add: digit_value_def digit_def)

lemma digit_char_digit: "n < 10 \<Longrightarrow> digit_char (digit n)"
  by (simp add: digit_char_def digit_def less_eq_char_def)

lemma dec_value_dec: "dec_value (dec n) = n"
proof (induction n rule: dec.induct)
  case (1 n)
  show ?case
  proof (cases "n < 10")
    case True
    then show ?thesis by (simp add: dec.simps [of n] dec_value_def digit_value_digit)
  next
    case False
    with 1 show ?thesis
      by (simp add: dec.simps [of n] dec_value_def digit_value_digit)
  qed
qed

lemma dec_inject [simp]: "dec m = dec n \<longleftrightarrow> m = n"
  by (metis dec_value_dec)

lemma dec_not_Nil [simp]: "dec n \<noteq> []"
  by (subst dec.simps) simp

lemma dec_digits: "c \<in> set (dec n) \<Longrightarrow> digit_char c"
proof (induction n rule: dec.induct)
  case (1 n)
  then show ?case
    by (cases "n < 10") (auto simp: dec.simps [of n] digit_char_digit)
qed

end
