(* ===== verification/Resolver.thy ===== *)
theory Resolver
  imports Prelude
begin

text \<open>
  The intent resolvers of \<open>internal/resolver\<close>: the interface \<open>Resolver\<close> as a locale, and the
  keyword resolver of \<open>resolver.go\<close> that implements it. The deferred resolver is in theory
  Deferred.
\<close>

section \<open>The resolver interface\<close>

text \<open>\<open>norm_tag\<close> is the expression \<open>strings.ToLower(strings.TrimSpace(h))\<close> of every resolver.\<close>

definition norm_tag :: "string \<Rightarrow> string" where
  "norm_tag h = ToLower (TrimSpace h)"

definition hint_tags :: "string list \<Rightarrow> string list" where
  "hint_tags hints = filter (\<lambda>h. h \<noteq> []) (map norm_tag hints)"

definition ErrNoCapabilities :: error where
  "ErrNoCapabilities = Errorf ''resolver: no capabilities resolved''"

type_synonym resolve_fun = "string \<Rightarrow> string list \<Rightarrow> error + string list"

text \<open>
  What the clients of a resolver rely on: a result is a non-empty sorted set of tags, explicit
  hints are always honoured, and the only error says that nothing was resolved.
\<close>

locale capability_resolver =
  fixes resolve :: "string \<Rightarrow> string list \<Rightarrow> error + string list"
  assumes resolve_set: "resolve intent hints = Inr caps \<Longrightarrow>
      caps \<noteq> [] \<and> sorted caps \<and> distinct caps"
    and resolve_hints: "resolve intent hints = Inr caps \<Longrightarrow> set (hint_tags hints) \<subseteq> set caps"
    and resolve_error: "resolve intent hints = Inl e \<Longrightarrow> e = ErrNoCapabilities \<and> hint_tags hints = []"
begin

lemma hints_resolve:
  assumes "h \<in> set hints" and "norm_tag h \<noteq> []"
  obtains caps where "resolve intent hints = Inr caps" and "norm_tag h \<in> set caps"
proof (cases "resolve intent hints")
  case (Inl e)
  with resolve_error assms show ?thesis by (force simp: hint_tags_def filter_empty_conv)
next
  case (Inr caps)
  with resolve_hints [OF Inr] assms that show ?thesis by (auto simp: hint_tags_def)
qed

end

text \<open>
  Every resolver ends the same way: the collected set of tags is sorted and returned, or the
  error when it is empty.
\<close>

definition finish :: "string list \<Rightarrow> error + string list" where
  "finish caps = (if caps = [] then Inl ErrNoCapabilities else Inr (sorted_keys caps))"

lemma finish_Inr: "finish caps = Inr out \<longleftrightarrow> caps \<noteq> [] \<and> out = sorted_keys caps"
  by (auto simp: finish_def)

lemma finish_Inl: "finish caps = Inl e \<longleftrightarrow> caps = [] \<and> e = ErrNoCapabilities"
  by (auto simp: finish_def)

lemma finish_cong: "set xs = set ys \<Longrightarrow> finish xs = finish ys"
  by (auto simp: finish_def sorted_keys_eq_iff)

section \<open>The keyword resolver\<close>

type_synonym keyword_table = "(string \<times> string list) list"

definition DefaultKeywordTable :: keyword_table where
  "DefaultKeywordTable =
    [(''sql'', [''sql'']),
     (''query'', [''sql'']),
     (''database'', [''sql'', ''database'']),
     (''db'', [''sql'', ''database'']),
     (''customer'', [''sql'']),
     (''slack'', [''messaging'', ''slack'']),
     (''message'', [''messaging'']),
     (''notify'', [''messaging'']),
     (''audit'', [''audit'']),
     (''log'', [''audit'']),
     (''compliance'', [''audit'']),
     (''template'', [''template'']),
     (''render'', [''template'']),
     (''report'', [''template'']),
     (''email'', [''email'']),
     (''send'', [''email'', ''messaging'']),
     (''team'', [''email''])]"

text \<open>The constructor's loop over the table: a later entry of the same normalized key wins.\<close>

fun normalize_table :: "keyword_table \<Rightarrow> keyword_table \<Rightarrow> keyword_table" where
  "normalize_table acc [] = acc"
| "normalize_table acc ((k, caps) # rest) = normalize_table (AList.update (norm_tag k) caps acc) rest"

definition NewKeywordResolver :: "keyword_table \<Rightarrow> keyword_table" where
  "NewKeywordResolver table =
     normalize_table [] (if table = [] then DefaultKeywordTable else table)"

text \<open>
  \<open>tokenize\<close>: the lowercased intent cut at everything that is neither letter nor digit. Beyond
  ASCII the classes are those of the Unicode tables, left unspecified.
\<close>

definition unicode_fields :: "string \<Rightarrow> string list" where
  "unicode_fields = undefined"

definition not_alnum :: "char \<Rightarrow> bool" where
  "not_alnum c \<longleftrightarrow> \<not> (lower_letter c \<or> upper_letter c) \<and> \<not> digit_char c"

definition tokenize :: "string \<Rightarrow> string list" where
  "tokenize s =
     (if s = [] then []
      else if ascii (ToLower s) then FieldsFunc not_alnum (ToLower s)
      else unicode_fields (ToLower s))"

definition token_tags :: "keyword_table \<Rightarrow> string \<Rightarrow> string list" where
  "token_tags kws tok = (case map_of kws tok of None \<Rightarrow> [] | Some caps \<Rightarrow> map ToLower caps)"

definition KeywordResolve ::
    "keyword_table \<Rightarrow> string \<Rightarrow> string list \<Rightarrow> error + string list" where
  "KeywordResolve kws intent hints =
     finish (hint_tags hints @ concat (map (token_tags kws) (tokenize intent)))"

interpretation keyword: capability_resolver "KeywordResolve kws" for kws
  by unfold_locales (auto simp: KeywordResolve_def finish_Inr finish_Inl)

lemma wf_normalize_table: "wf_map acc \<Longrightarrow> wf_map (normalize_table acc table)"
  by (induction acc table rule: normalize_table.induct) simp_all

lemma map_of_normalize_table:
  "distinct (map (norm_tag \<circ> fst) table) \<Longrightarrow>
     map_of (normalize_table acc table) k =
       (case find (\<lambda>e. norm_tag (fst e) = k) table of
          None \<Rightarrow> map_of acc k | Some e \<Rightarrow> Some (snd e))"
proof (induction acc table rule: normalize_table.induct)
  case (2 acc j caps rest)
  have "find (\<lambda>e. norm_tag (fst e) = k) rest = None" if "norm_tag j = k"
    using that 2(2) by (force simp: find_None_iff)
  with 2 show ?case by (auto simp: update_conv' split: option.splits)
qed simp

lemma set_hint_tags: "set (hint_tags hints) = {norm_tag h | h. h \<in> set hints \<and> norm_tag h \<noteq> []}"
  by (auto simp: hint_tags_def)

lemma set_token_tags:
  "set (token_tags kws tok) = {ToLower c | c cs. map_of kws tok = Some cs \<and> c \<in> set cs}"
  by (cases "map_of kws tok") (auto simp: token_tags_def)

section \<open>Properties\<close>

text \<open>the tokens of an ASCII intent are exactly the maximal runs of letters and digits of the
  lowercased intent, and nothing of those runs is lost or reordered.\<close>

theorem tokenize_runs:
  assumes "ascii intent"
  shows "(\<forall>t. t \<in> set (tokenize intent) \<longleftrightarrow> maximal_run not_alnum (map lower_char intent) t) \<and>
    concat (tokenize intent) = filter (\<lambda>c. \<not> not_alnum c) (map lower_char intent)"
proof (cases "intent = []")
  case True
  then show ?thesis by (simp add: tokenize_def maximal_run_def)
next
  case False
  with assms show ?thesis
    by (simp add: tokenize_def ToLower_ascii set_FieldsFunc concat_FieldsFunc)
qed

theorem tokenize_runs_witness:
  "tokenize ''Query the DB, v2!'' = [''query'', ''the'', ''db'', ''v2''] \<and>
   maximal_run not_alnum (map lower_char ''Query the DB, v2!'') ''db''"
proof -
  have "ascii ''Query the DB, v2!''" by code_simp
  note runs = tokenize_runs [OF this]
  have tok: "tokenize ''Query the DB, v2!'' = [''query'', ''the'', ''db'', ''v2'']" by code_simp
  then have "''db'' \<in> set (tokenize ''Query the DB, v2!'')" by simp
  with runs tok show ?thesis by blast
qed

text \<open>C30: the keyword resolver returns exactly the sorted set of the normalized non-blank hints and
  of the lowercased tags of every keyword that is a token of the intent; it fails, with
  \<open>ErrNoCapabilities\<close>, exactly when that set is empty.\<close>

theorem KeywordResolve_exact:
  "case KeywordResolve kws intent hints of
     Inl e \<Rightarrow> e = ErrNoCapabilities \<and> hint_tags hints = [] \<and>
       list_all (\<lambda>tok. token_tags kws tok = []) (tokenize intent)
   | Inr caps \<Rightarrow> sorted caps \<and> distinct caps \<and> caps \<noteq> [] \<and>
       set caps = {norm_tag h | h. h \<in> set hints \<and> norm_tag h \<noteq> []} \<union>
         {ToLower c | c tok cs. tok \<in> set (tokenize intent) \<and>
            map_of kws tok = Some cs \<and> c \<in> set cs}"
proof -
  have "set (hint_tags hints @ concat (map (token_tags kws) (tokenize intent))) =
      {norm_tag h | h. h \<in> set hints \<and> norm_tag h \<noteq> []} \<union>
      {ToLower c | c tok cs. tok \<in> set (tokenize intent) \<and>
         map_of kws tok = Some cs \<and> c \<in> set cs}"
    by (auto simp: set_hint_tags set_token_tags)
  then show ?thesis
    unfolding KeywordResolve_def finish_def by (simp add: list_all_iff)
qed

text \<open>building a keyword resolver does not depend on the random order in which the table's map
  is visited, provided no two kws differ only in case or surrounding blanks.\<close>

theorem NewKeywordResolver_deterministic:
  assumes "same_map table table'" and "distinct (map (norm_tag \<circ> fst) table)"
  shows "same_map (NewKeywordResolver table) (NewKeywordResolver table') \<and>
    KeywordResolve (NewKeywordResolver table) intent hints =
    KeywordResolve (NewKeywordResolver table') intent hints"
proof (cases "table = []")
  case True
  then have "table' = []" using assms(1) by (simp add: same_map_def)
  with True show ?thesis
    by (simp add: NewKeywordResolver_def same_map_refl wf_normalize_table)
next
  case False
  note d = same_map_distinct [OF assms(1)]
  have inj: "inj_on (norm_tag \<circ> fst) (set table)" using assms(2) by (simp add: distinct_map)
  with d have d': "distinct (map (norm_tag \<circ> fst) table')" by (simp add: distinct_map)
  have ne: "table' \<noteq> []" using False assms(1) by (auto simp: same_map_def)
  have "find (\<lambda>e. norm_tag (fst e) = k) table = find (\<lambda>e. norm_tag (fst e) = k) table'" for k
  proof (rule find_unique)
    show "set table = set table'" using d by simp
    show "x = y" if "x \<in> set table" "y \<in> set table" "norm_tag (fst x) = k" "norm_tag (fst y) = k"
      for x y using inj that by (auto simp: inj_on_def)
  qed
  then have "map_of (normalize_table [] table) = map_of (normalize_table [] table')"
    by (intro ext) (simp add: map_of_normalize_table assms(2) d')
  then have "same_map (normalize_table [] table) (normalize_table [] table')"
    by (simp add: same_mapI wf_normalize_table)
  moreover from this have
    "token_tags (normalize_table [] table) = token_tags (normalize_table [] table')"
    by (intro ext) (simp add: token_tags_def same_map_map_of)
  ultimately show ?thesis
    using False ne by (simp add: NewKeywordResolver_def KeywordResolve_def)
qed

theorem NewKeywordResolver_deterministic_witness:
  "same_map (NewKeywordResolver DefaultKeywordTable) (NewKeywordResolver (rev DefaultKeywordTable)) \<and>
   KeywordResolve (NewKeywordResolver DefaultKeywordTable) ''send'' [] =
     Inr [''email'', ''messaging'']"
proof -
  have "same_map DefaultKeywordTable (rev DefaultKeywordTable)"
    by (simp add: same_map_def wf_map_def rev_map [symmetric]) code_simp
  moreover have "distinct (map (norm_tag \<circ> fst) DefaultKeywordTable)" by code_simp
  ultimately have "same_map (NewKeywordResolver DefaultKeywordTable)
      (NewKeywordResolver (rev DefaultKeywordTable))"
    using NewKeywordResolver_deterministic by blast
  moreover have "KeywordResolve (NewKeywordResolver DefaultKeywordTable) ''send'' [] =
     Inr [''email'', ''messaging'']" by code_simp
  ultimately show ?thesis by blast
qed

end
