(* ===== verification/Deferred.thy ===== *)
theory Deferred
  imports Resolver
begin

text \<open>
  The deferred-intent resolver of \<open>internal/resolver/deferred.go\<close>: a sliding window of observed
  capabilities behind a lock. Its operations are whole critical sections, so a concurrent
  execution is a sequence of them in some order; \<open>dr_run\<close> is that sequence, and the theorems
  about runs hold for every interleaving of \<open>Observe\<close>, \<open>Reset\<close> and \<open>Resolve\<close> calls.
\<close>

section \<open>State and operations\<close>

record observation =
  o_capability :: string
  o_ts :: int

record deferred =
  d_all_capabilities :: "string list"
  d_fallback :: resolve_fun
  d_window :: "observation list"
  d_window_size :: int
  d_narrow_threshold :: int

record deferred_options =
  do_all_capabilities :: "string list"
  do_fallback :: "resolve_fun option"
  do_window_size :: int
  do_narrow_threshold :: int

definition NewDeferredResolver :: "deferred_options \<Rightarrow> deferred" where
  "NewDeferredResolver opts =
     \<lparr> d_all_capabilities = sort (do_all_capabilities opts),
       d_fallback = (case do_fallback opts of
                       None \<Rightarrow> KeywordResolve (NewKeywordResolver []) | Some f \<Rightarrow> f),
       d_window = [],
       d_window_size = (if do_window_size opts \<le> 0 then 10 else do_window_size opts),
       d_narrow_threshold =
         (if do_narrow_threshold opts \<le> 0 then 3 else do_narrow_threshold opts) \<rparr>"

text \<open>\<open>Observe\<close>; \<open>ts\<close> is the value of \<open>time.Now()\<close> in the call.\<close>

definition Observe :: "string \<Rightarrow> int \<Rightarrow> deferred \<Rightarrow> deferred" where
  "Observe capability ts d =
     (let cap = norm_tag capability in
      if cap = [] then d
      else
        let w = d_window d @ [\<lparr> o_capability = cap, o_ts = ts \<rparr>] in
        d \<lparr> d_window :=
              (if d_window_size d < int (length w)
               then drop (nat (int (length w) - d_window_size d)) w else w) \<rparr>)"

definition ObservationCount :: "deferred \<Rightarrow> int" where
  "ObservationCount d = int (length (d_window d))"

definition Reset :: "deferred \<Rightarrow> deferred" where
  "Reset d = d \<lparr> d_window := [] \<rparr>"

definition observedCaps :: "deferred \<Rightarrow> string list" where
  "observedCaps d = map o_capability (d_window d)"

definition DeferredResolve :: "deferred \<Rightarrow> string \<Rightarrow> string list \<Rightarrow> error + string list" where
  "DeferredResolve d intent hints =
     (let obsCount = int (length (d_window d)) in
      finish (hint_tags hints @
        (if obsCount < d_narrow_threshold d then d_all_capabilities d
         else observedCaps d @
           (if intent \<noteq> [] then
              (case d_fallback d intent [] of Inl _ \<Rightarrow> [] | Inr resolved \<Rightarrow> resolved)
            else []))))"

interpretation deferred: capability_resolver "DeferredResolve d" for d
  by unfold_locales (auto simp: DeferredResolve_def Let_def finish_Inr finish_Inl)

section \<open>Runs\<close>

datatype dr_op = DObserve string int | DReset

inductive dr_run :: "deferred \<Rightarrow> dr_op list \<Rightarrow> deferred \<Rightarrow> bool" where
  nil: "dr_run d [] d"
| observe: "dr_run (Observe c ts d) ops d' \<Longrightarrow> dr_run d (DObserve c ts # ops) d'"
| reset: "dr_run (Reset d) ops d' \<Longrightarrow> dr_run d (DReset # ops) d'"

inductive_cases dr_run_NilE: "dr_run d [] d'"
inductive_cases dr_run_ObserveE: "dr_run d (DObserve c ts # ops) d'"
inductive_cases dr_run_ResetE: "dr_run d (DReset # ops) d'"

text \<open>
  The specification: what has been observed since the last reset, oldest first, and the last
  \<open>n\<close> of a list.
\<close>

fun observed :: "string list \<Rightarrow> dr_op list \<Rightarrow> string list" where
  "observed acc [] = acc"
| "observed acc (DObserve c ts # ops) =
     observed (if norm_tag c = [] then acc else acc @ [norm_tag c]) ops"
| "observed acc (DReset # ops) = observed [] ops"

definition last_n :: "nat \<Rightarrow> 'a list \<Rightarrow> 'a list" where
  "last_n n xs = drop (length xs - n) xs"

lemma length_last_n [simp]: "length (last_n n xs) = min n (length xs)"
  by (simp add: last_n_def)

lemma last_n_Nil [simp]: "last_n n [] = []"
  by (simp add: last_n_def)

lemma last_n_snoc:
  assumes "0 < n" shows "last_n n (last_n n xs @ [x]) = last_n n (xs @ [x])"
proof (cases "length xs < n")
  case True
  then show ?thesis by (simp add: last_n_def)
next
  case False
  with assms have "length (last_n n xs) = n" "length xs + 1 - n = Suc (length xs - n)" by auto
  moreover have "drop 1 (last_n n xs) = drop (Suc (length xs - n)) xs"
    by (simp add: last_n_def)
  ultimately show ?thesis using assms by (simp add: last_n_def [of n "_ @ _"])
qed

text \<open>The settings no operation changes.\<close>

definition same_settings :: "deferred \<Rightarrow> deferred \<Rightarrow> bool" where
  "same_settings d d' \<longleftrightarrow>
     d_all_capabilities d' = d_all_capabilities d \<and> d_fallback d' = d_fallback d \<and>
     d_window_size d' = d_window_size d \<and> d_narrow_threshold d' = d_narrow_threshold d"

lemma same_settings_Observe [simp]: "same_settings d (Observe c ts d)"
  by (simp add: same_settings_def Observe_def Let_def)

lemma same_settings_Reset [simp]: "same_settings d (Reset d)"
  by (simp add: same_settings_def Reset_def)

lemma same_settings_run: "dr_run d ops d' \<Longrightarrow> same_settings d d'"
proof (induction rule: dr_run.induct)
  case (observe c ts d ops d')
  then show ?case using same_settings_Observe [of d c ts] by (simp add: same_settings_def)
next
  case (reset d ops d')
  then show ?case using same_settings_Reset [of d] by (simp add: same_settings_def)
qed (simp add: same_settings_def)

lemma window_size_step [simp]:
  "d_window_size (Observe c ts d) = d_window_size d" "d_window_size (Reset d) = d_window_size d"
  using same_settings_Observe [of d c ts] same_settings_Reset [of d]
  by (simp_all add: same_settings_def)

lemma observedCaps_Observe:
  assumes "0 < d_window_size d" and "observedCaps d = last_n (nat (d_window_size d)) acc"
  shows "observedCaps (Observe c ts d) = last_n (nat (d_window_size d))
    (if norm_tag c = [] then acc else acc @ [norm_tag c])"
proof (cases "norm_tag c = []")
  case True
  with assms show ?thesis by (simp add: Observe_def)
next
  case False
  let ?n = "nat (d_window_size d)"
  have "observedCaps (Observe c ts d) = last_n ?n (observedCaps d @ [norm_tag c])"
    using assms(1) False
    by (auto simp: Observe_def Let_def observedCaps_def last_n_def drop_map nat_diff_distrib
        nat_add_distrib)
  with assms False show ?thesis by (simp add: last_n_snoc)
qed

lemma observedCaps_run:
  assumes "dr_run d ops d'" and "0 < d_window_size d"
    and "observedCaps d = last_n (nat (d_window_size d)) acc"
  shows "observedCaps d' = last_n (nat (d_window_size d)) (observed acc ops)"
  using assms
proof (induction arbitrary: acc rule: dr_run.induct)
  case (observe c ts d ops d')
  then show ?case
    using observedCaps_Observe [of d acc c ts] by simp
next
  case (reset d ops d')
  have "observedCaps (Reset d) = last_n (nat (d_window_size d)) []"
    by (simp add: Reset_def observedCaps_def)
  with reset show ?case by simp
qed simp

lemma New_window [simp]: "observedCaps (NewDeferredResolver opts) = []"
  by (simp add: NewDeferredResolver_def observedCaps_def)

lemma New_sizes:
  "0 < d_window_size (NewDeferredResolver opts)" "0 < d_narrow_threshold (NewDeferredResolver opts)"
  by (simp_all add: NewDeferredResolver_def)

lemma dr_run_total: "\<exists>d'. dr_run d ops d'"
proof (induction ops arbitrary: d)
  case (Cons op ops)
  then show ?case by (cases op) (auto intro: dr_run.intros)
qed (auto intro: dr_run.intros)

lemma run_window:
  assumes "dr_run (NewDeferredResolver opts) ops d"
  defines "W \<equiv> nat (d_window_size (NewDeferredResolver opts))"
  shows "observedCaps d = last_n W (observed [] ops)"
  using observedCaps_run [OF assms(1) New_sizes(1), of "[]"] by (simp add: W_def)

lemma run_count:
  assumes "dr_run (NewDeferredResolver opts) ops d"
  shows "length (d_window d) =
    min (nat (d_window_size (NewDeferredResolver opts))) (length (observed [] ops))"
  using arg_cong [OF run_window [OF assms], of length] by (simp add: observedCaps_def)

lemma DeferredResolve_Inr:
  assumes "DeferredResolve d intent hints = Inr caps"
  shows "set caps = set (hint_tags hints) \<union>
       (if int (length (d_window d)) < d_narrow_threshold d then set (d_all_capabilities d)
        else set (observedCaps d) \<union>
          (if intent = [] then {}
           else case d_fallback d intent [] of Inl _ \<Rightarrow> {} | Inr cs \<Rightarrow> set cs))"
proof -
  have "set (case r of Inl _ \<Rightarrow> [] | Inr cs \<Rightarrow> cs) = (case r of Inl _ \<Rightarrow> {} | Inr cs \<Rightarrow> set cs)"
    for r :: "error + string list"
    by (cases r) simp_all
  moreover note assms [unfolded DeferredResolve_def Let_def finish_Inr, THEN conjunct2]
  ultimately show ?thesis
    by (cases "intent = []"; cases "int (length (d_window d)) < d_narrow_threshold d")
      (simp_all only: set_sorted_keys set_append simp_thms if_True if_False list.set)
qed

lemma observed_reset: "observed acc (ops @ [DReset]) = []"
  by (induction acc ops rule: observed.induct) simp_all

section \<open>Properties\<close>

text \<open>C17: after any sequence of observations and resets the window holds the last
  \<open>WindowSize\<close> normalized, non-blank capabilities observed since the last reset, in order, and
  never more than \<open>WindowSize\<close> of them: the window refines the history.\<close>

theorem window_refines_history:
  assumes "dr_run (NewDeferredResolver opts) ops d"
  shows "observedCaps d =
      last_n (nat (d_window_size (NewDeferredResolver opts))) (observed [] ops) \<and>
    ObservationCount d \<le> d_window_size (NewDeferredResolver opts)"
  using run_window [OF assms] run_count [OF assms] New_sizes(1) [of opts]
  by (simp add: ObservationCount_def)

definition demo_options :: deferred_options where
  "demo_options = \<lparr> do_all_capabilities = [''sql'', ''audit'', ''email''], do_fallback = None,
     do_window_size = 3, do_narrow_threshold = 2 \<rparr>"

definition demo_ops :: "dr_op list" where
  "demo_ops = [DObserve ''audit'' 1, DReset, DObserve '' SQL'' 2, DObserve '''' 3,
     DObserve ''email'' 4, DObserve ''sql'' 5, DObserve ''email'' 6]"

theorem window_refines_history_witness:
  "\<exists>d. dr_run (NewDeferredResolver demo_options) demo_ops d \<and>
     observedCaps d = [''email'', ''sql'', ''email''] \<and> ObservationCount d \<le> 3"
proof -
  obtain d where d: "dr_run (NewDeferredResolver demo_options) demo_ops d"
    using dr_run_total by blast
  have "last_n (nat (d_window_size (NewDeferredResolver demo_options))) (observed [] demo_ops) =
      [''email'', ''sql'', ''email'']"
    and "d_window_size (NewDeferredResolver demo_options) = 3"
    by code_simp+
  with d window_refines_history [OF d] show ?thesis by auto
qed

text \<open>C16: the phases of the resolver. While fewer than \<open>NarrowThreshold\<close> observations are in the
  window it returns every capability plus the hints; from then on exactly the observed capabilities
  in the window, the hints, and what the fallback makes of a non-empty intent. It fails only when
  there is nothing to return.\<close>

theorem DeferredResolve_phases:
  assumes "dr_run (NewDeferredResolver opts) ops d"
  shows "let d0 = NewDeferredResolver opts; W = nat (d_window_size d0) in
    case DeferredResolve d intent hints of
      Inl e \<Rightarrow> e = ErrNoCapabilities \<and> hint_tags hints = []
    | Inr caps \<Rightarrow> sorted caps \<and> distinct caps \<and> caps \<noteq> [] \<and>
        set caps = set (hint_tags hints) \<union>
          (if min W (length (observed [] ops)) < nat (d_narrow_threshold d0)
           then set (do_all_capabilities opts)
           else set (last_n W (observed [] ops)) \<union>
             (if intent = [] then {}
              else case d_fallback d0 intent [] of Inl _ \<Rightarrow> {} | Inr cs \<Rightarrow> set cs))"
proof -
  define d0 where "d0 = NewDeferredResolver opts"
  have settings: "d_all_capabilities d = sort (do_all_capabilities opts)"
    "d_fallback d = d_fallback d0" "d_narrow_threshold d = d_narrow_threshold d0"
    using same_settings_run [OF assms(1)]
    by (simp_all add: same_settings_def d0_def) (simp_all add: NewDeferredResolver_def)
  have cold: "int (length (d_window d)) < d_narrow_threshold d \<longleftrightarrow>
      min (nat (d_window_size d0)) (length (observed [] ops)) < nat (d_narrow_threshold d0)"
    using New_sizes [of opts] unfolding run_count [OF assms(1)] settings(3) d0_def by linarith
  show ?thesis
  proof (cases "DeferredResolve d intent hints")
    case (Inl e)
    then show ?thesis using deferred.resolve_error [OF Inl] by (simp add: Let_def)
  next
    case (Inr caps)
    then have "set caps = set (hint_tags hints) \<union>
        (if int (length (d_window d)) < d_narrow_threshold d then set (do_all_capabilities opts)
         else set (observedCaps d) \<union>
           (if intent = [] then {}
            else case d_fallback d0 intent [] of Inl _ \<Rightarrow> {} | Inr cs \<Rightarrow> set cs))"
      using DeferredResolve_Inr [of d intent hints caps] by (simp add: settings)
    with deferred.resolve_set [OF Inr] run_window [OF assms(1)] Inr show ?thesis
      unfolding cold by (simp add: d0_def Let_def)
  qed
qed

theorem DeferredResolve_phases_witness:
  "\<exists>d. dr_run (NewDeferredResolver demo_options) demo_ops d \<and>
     (\<exists>caps. DeferredResolve d ''log it'' [''Slack''] = Inr caps \<and>
        set caps = {''slack'', ''sql'', ''email'', ''audit''})"
proof -
  obtain d where d: "dr_run (NewDeferredResolver demo_options) demo_ops d"
    using dr_run_total by blast
  note phases = DeferredResolve_phases 
    [OF d, where intent = "''log it''" and hints = "[''Slack'']", unfolded Let_def]
  have hint: "hint_tags [''Slack''] = [''slack'']" by code_simp
  have narrow: "\<not> min (nat (d_window_size (NewDeferredResolver demo_options)))
      (length (observed [] demo_ops)) < nat (d_narrow_threshold (NewDeferredResolver demo_options))"
    and win: "last_n (nat (d_window_size (NewDeferredResolver demo_options))) (observed [] demo_ops) =
      [''email'', ''sql'', ''email'']"
    and fb: "d_fallback (NewDeferredResolver demo_options) ''log it'' [] = Inr [''audit'']"
    by code_simp+
  show ?thesis
  proof (cases "DeferredResolve d ''log it'' [''Slack'']")
    case (Inl e)
    with phases hint show ?thesis by simp
  next
    case (Inr caps)
    with phases have "set caps = {''slack'', ''sql'', ''email'', ''audit''}"
      by (simp add: hint narrow win fb) blast
    with d Inr show ?thesis by blast
  qed
qed

text \<open>a configuration whose window is smaller than its threshold never narrows: after any
  sequence of observations the resolver answers as on a cold start.\<close>

theorem small_window_never_narrows:
  assumes "0 < do_window_size opts" and "do_window_size opts < do_narrow_threshold opts"
    and "dr_run (NewDeferredResolver opts) ops d"
  shows "DeferredResolve d intent hints =
    DeferredResolve (NewDeferredResolver opts) intent hints"
proof -
  have "length (d_window d) \<le> nat (do_window_size opts)"
    using run_count [OF assms(3)] assms(1) by (simp add: NewDeferredResolver_def)
  then have "int (length (d_window d)) < d_narrow_threshold (NewDeferredResolver opts)"
    using assms by (simp add: NewDeferredResolver_def)
  moreover have "length (d_window (NewDeferredResolver opts)) = 0"
    by (simp add: NewDeferredResolver_def)
  ultimately show ?thesis
    using same_settings_run [OF assms(3)] New_sizes(2) [of opts]
    by (simp add: DeferredResolve_def Let_def same_settings_def)
qed

theorem small_window_never_narrows_witness:
  "\<exists>d. dr_run (NewDeferredResolver (demo_options \<lparr> do_narrow_threshold := 4 \<rparr>)) demo_ops d \<and>
     DeferredResolve d [] [] = Inr [''audit'', ''email'', ''sql'']"
proof -
  let ?opts = "demo_options \<lparr> do_narrow_threshold := 4 \<rparr>"
  obtain d where d: "dr_run (NewDeferredResolver ?opts) demo_ops d" using dr_run_total by blast
  have "0 < do_window_size ?opts" "do_window_size ?opts < do_narrow_threshold ?opts"
    by (simp_all add: demo_options_def)
  from small_window_never_narrows [OF this d]
  have "DeferredResolve d [] [] = DeferredResolve (NewDeferredResolver ?opts) [] []" .
  also have "\<dots> = Inr [''audit'', ''email'', ''sql'']" by code_simp
  finally show ?thesis using d by blast
qed

text \<open>a \<open>Reset\<close> returns the resolver to its cold start, whatever was observed before.\<close>

theorem Reset_cold_start:
  assumes "dr_run (NewDeferredResolver opts) (ops @ [DReset]) d"
  shows "d = NewDeferredResolver opts"
proof -
  have "d_window d = []"
    using run_count [OF assms] by (simp add: observed_reset)
  moreover have "d_window (NewDeferredResolver opts) = []"
    by (simp add: NewDeferredResolver_def)
  ultimately show ?thesis
    using same_settings_run [OF assms] by (simp add: same_settings_def)
qed

theorem Reset_cold_start_witness:
  "dr_run (NewDeferredResolver demo_options) (demo_ops @ [DReset]) (NewDeferredResolver demo_options)"
proof -
  obtain d where "dr_run (NewDeferredResolver demo_options) (demo_ops @ [DReset]) d"
    using dr_run_total by blast
  moreover from this have "d = NewDeferredResolver demo_options" by (rule Reset_cold_start)
  ultimately show ?thesis by simp
qed

end
