(* ===== verification/Manifest.thy ===== *)
theory Manifest
  imports Prelude
begin

text \<open>
  The wire types of \<open>pkg/manifest/types.go\<close>: one record per struct, its fields in the struct's
  order, the named string types as strings with their constants. A nil slice and an empty one are
  both \<open>[]\<close> (the JSON fields in question are \<open>omitempty\<close> or are built non-nil); an optional
  pointer is an \<^typ>\<open>'a option\<close>.
\<close>

definition ProtocolVersion :: string where
  "ProtocolVersion = ''acp/v1''"

type_synonym auth_mode = string

definition AuthPreInjected :: auth_mode where
  "AuthPreInjected = ''pre-injected''"

definition AuthNone :: auth_mode where
  "AuthNone = ''none''"

type_synonym audit_level = string

definition AuditNone :: audit_level where
  "AuditNone = ''none''"

definition AuditSummary :: audit_level where
  "AuditSummary = ''summary''"

definition AuditFull :: audit_level where
  "AuditFull = ''full''"

record constraints =
  c_max_tokens :: int
  c_timeout :: string
  c_output_format :: string

record context_request =
  rq_intent :: string
  rq_agent_id :: string
  rq_capabilities :: "string list"
  rq_constraints :: "constraints option"

record action =
  a_id :: string
  a_type :: string
  a_endpoint :: string
  a_method :: string
  a_schema :: "(string \<times> string) list"
  a_auth :: auth_mode
  a_timeout :: string
  a_depends_on :: "string list"

record boundary =
  b_egress :: "string list"
  b_max_tokens_per_action :: int
  b_require_approval :: "string list"
  b_audit_level :: audit_level

record exec_manifest =
  m_id :: string
  m_version :: string
  m_ttl :: string
  m_actions :: "action list"
  m_boundaries :: boundary
  m_feedback_endpoint :: string

record feedback_event =
  f_manifest_id :: string
  f_action_id :: string
  f_outcome :: string
  f_latency_ms :: int
  f_tokens_in :: int
  f_tokens_out :: int
  f_error :: string

text \<open>The ids of a manifest's actions, in order.\<close>

abbreviation action_ids :: "exec_manifest \<Rightarrow> string list" where
  "action_ids mf \<equiv> map a_id (m_actions mf)"

end
