(* ===== verification/Registry.thy ===== *)
theory Registry
  imports Manifest
begin

text \<open>
  The tool registry of \<open>internal/registry\<close>: the record of a tool, the in-memory registry with
  \<open>Register\<close>, \<open>Get\<close>, \<open>Lookup\<close> and \<open>All\<close>, the seed of \<open>seed.go\<close>, and two interfaces: what
  a client that registers and reads tools relies on (\<open>tool_registry\<close>, the Go interface
  \<open>Registry\<close>), and what the builder relies on (\<open>tool_source\<close>, its \<open>ToolSource\<close>). Every
  method of the Go type runs under its lock, so an execution is a sequence of whole operations.
\<close>

section \<open>Tools\<close>

record tool =
  t_id :: string
  t_type :: string
  t_endpoint :: string
  t_method :: string
  t_schema :: "(string \<times> string) list"
  t_auth :: auth_mode
  t_timeout :: string
  t_capabilities :: "string list"
  t_egress :: "string list"
  t_depends_on_caps :: "string list"
  t_require_approv :: bool

text \<open>\<open>normalizeSet\<close>: the set of trimmed, lowercased, non-empty tags.\<close>

definition normalizeSet :: "string list \<Rightarrow> string list" where
  "normalizeSet ins = remdups (filter (\<lambda>s. s \<noteq> []) (map (\<lambda>s. ToLower (TrimSpace s)) ins))"

definition tool_matches :: "string list \<Rightarrow> tool \<Rightarrow> bool" where
  "tool_matches want t \<longleftrightarrow> list_ex (\<lambda>c. ToLower c \<in> set want) (t_capabilities t)"

section \<open>Interfaces\<close>

text \<open>
  The builder's view: a lookup by capability tags returns tools with different ids, each carrying
  a requested tag. The order is not part of the contract; the builder sorts again. \<open>'r\<close> is the
  state of the source, \<open>inv\<close> its invariant.
\<close>

locale tool_source =
  fixes lookup :: "'r \<Rightarrow> string list \<Rightarrow> tool list"
    and inv :: "'r \<Rightarrow> bool"
  assumes lookup_distinct: "inv r \<Longrightarrow> distinct (map t_id (lookup r caps))"
    and lookup_matches:
      "inv r \<Longrightarrow> t \<in> set (lookup r caps) \<Longrightarrow> tool_matches (normalizeSet caps) t"

text \<open>
  The view of a client that fills a registry: \<open>inv\<close> holds of the empty registry and is kept, a
  tool with an id and a capability is accepted, and a lookup by id sees the last registration.
\<close>

locale tool_registry =
  fixes empty :: 'r
    and register :: "tool \<Rightarrow> 'r \<Rightarrow> error + 'r"
    and get :: "'r \<Rightarrow> string \<Rightarrow> error + tool"
    and inv :: "'r \<Rightarrow> bool"
  assumes inv_empty: "inv empty"
    and inv_register: "inv r \<Longrightarrow> register t r = Inr r' \<Longrightarrow> inv r'"
    and register_accepts:
      "TrimSpace (t_id t) \<noteq> [] \<Longrightarrow> t_capabilities t \<noteq> [] \<Longrightarrow> \<exists>r'. register t r = Inr r'"
    and get_empty: "\<exists>e. get empty i = Inl e"
    and get_register: "inv r \<Longrightarrow> register t r = Inr r' \<Longrightarrow>
      get r' i = (if i = t_id t then Inr t else get r i)"

section \<open>The in-memory registry\<close>

type_synonym registry = "(string \<times> tool) list"

definition NewMemoryRegistry :: registry where
  "NewMemoryRegistry = []"

definition ErrNotFound :: error where
  "ErrNotFound = Errorf ''registry: tool not found''"

definition Register :: "tool \<Rightarrow> registry \<Rightarrow> error + registry" where
  "Register t r =
     (if TrimSpace (t_id t) = [] then Inl (Errorf ''registry: tool ID is required'')
      else if t_capabilities t = [] then Inl (Errorf ''registry: tool capabilities are required'')
      else Inr (AList.update (t_id t) t r))"

definition Get :: "registry \<Rightarrow> string \<Rightarrow> error + tool" where
  "Get r i = (case map_of r i of None \<Rightarrow> Inl ErrNotFound | Some t \<Rightarrow> Inr t)"

definition Lookup :: "registry \<Rightarrow> string list \<Rightarrow> tool list" where
  "Lookup r capabilities =
     (let want = normalizeSet capabilities in
      if want = [] then []
      else sort_key t_id (filter (tool_matches want) (map snd r)))"

definition All :: "registry \<Rightarrow> tool list" where
  "All r = sort_key t_id (map snd r)"

text \<open>The registry's invariant: what \<open>Register\<close>'s checks establish for every entry.\<close>

definition registry_inv :: "registry \<Rightarrow> bool" where
  "registry_inv r \<longleftrightarrow> wf_map r \<and>
     list_all (\<lambda>(k, t). k = t_id t \<and> TrimSpace k \<noteq> [] \<and> t_capabilities t \<noteq> []) r"

subsection \<open>Lemmas\<close>

lemma registry_invD:
  "registry_inv r \<Longrightarrow> (k, t) \<in> set r \<Longrightarrow>
     k = t_id t \<and> TrimSpace k \<noteq> [] \<and> t_capabilities t \<noteq> []"
  by (auto simp: registry_inv_def list_all_iff)

lemma registry_inv_wf: "registry_inv r \<Longrightarrow> wf_map r"
  by (simp add: registry_inv_def)

lemma registry_inv_empty [simp]: "registry_inv NewMemoryRegistry"
  by (simp add: registry_inv_def NewMemoryRegistry_def)

lemma Register_Inr:
  "Register t r = Inr r' \<longleftrightarrow>
     TrimSpace (t_id t) \<noteq> [] \<and> t_capabilities t \<noteq> [] \<and> r' = AList.update (t_id t) t r"
  by (auto simp: Register_def)

lemma registry_inv_Register:
  assumes "registry_inv r" and "Register t r = Inr r'" shows "registry_inv r'"
proof -
  have wf: "wf_map r" using assms(1) by (rule registry_inv_wf)
  have "k = t_id u \<and> TrimSpace k \<noteq> [] \<and> t_capabilities u \<noteq> []" if "(k, u) \<in> set r'" for k u
    using that assms wf registry_invD [OF assms(1), of k u]
    by (auto simp: Register_Inr ran_update split: if_splits)
  with assms wf show ?thesis
    by (auto simp: registry_inv_def Register_Inr list_all_iff)
qed

lemma tools_distinct:
  assumes "registry_inv r"
  shows "distinct (map t_id (map snd r))" and "distinct (map snd r)"
proof -
  have "map t_id (map snd r) = map fst r"
    using registry_invD [OF assms] by auto
  then show ids: "distinct (map t_id (map snd r))"
    using registry_inv_wf [OF assms] by (simp add: wf_map_def del: map_map)
  show "distinct (map snd r)"
    using ids by (simp add: distinct_map del: map_map)
qed

lemma registered_iff: "registry_inv r \<Longrightarrow> u \<in> snd ` set r \<longleftrightarrow> (t_id u, u) \<in> set r"
  by (auto simp: image_iff dest: registry_invD intro: bexI [of _ "(t_id u, u)"])

lemma Register_tools:
  assumes "registry_inv r" and "Register t r = Inr r'"
  shows "u \<in> snd ` set r' \<longleftrightarrow> u \<in> snd ` set r \<and> t_id u \<noteq> t_id t \<or> u = t"
proof -
  have r': "r' = AList.update (t_id t) t r" using assms(2) by (simp add: Register_Inr)
  have "u \<in> snd ` set r' \<longleftrightarrow> (t_id u, u) \<in> set r'"
    by (rule registered_iff [OF registry_inv_Register [OF assms]])
  also have "\<dots> \<longleftrightarrow> (if t_id u = t_id t then u = t else (t_id u, u) \<in> set r)"
    unfolding r' by (rule ran_update [OF registry_inv_wf [OF assms(1)]])
  also have "(t_id u, u) \<in> set r \<longleftrightarrow> u \<in> snd ` set r"
    by (rule registered_iff [OF assms(1), symmetric])
  finally show ?thesis by metis
qed

lemma set_normalizeSet:
  "c \<in> set (normalizeSet cs) \<longleftrightarrow> c \<noteq> [] \<and> (\<exists>s \<in> set cs. c = ToLower (TrimSpace s))"
  by (auto simp: normalizeSet_def)

lemma set_Lookup:
  "set (Lookup r caps) = {t \<in> snd ` set r. tool_matches (normalizeSet caps) t}"
  by (auto simp: Lookup_def Let_def tool_matches_def list_ex_iff)

lemma distinct_Lookup: "registry_inv r \<Longrightarrow> distinct (map t_id (Lookup r caps))"
  using tools_distinct [of r]
  by (auto simp: Lookup_def Let_def distinct_map inj_on_def simp del: map_map)

lemma sorted_Lookup: "sorted (map t_id (Lookup r caps))"
  by (simp add: Lookup_def Let_def)

lemma set_All: "set (All r) = snd ` set r"
  by (simp add: All_def)

interpretation registry_source: tool_source Lookup registry_inv
  by unfold_locales (simp_all add: distinct_Lookup set_Lookup)

interpretation memory_registry: tool_registry NewMemoryRegistry Register Get registry_inv
  by unfold_locales
    (auto simp: Register_Inr registry_inv_Register Get_def update_conv',
      simp add: NewMemoryRegistry_def)


section \<open>Seeding\<close>

text \<open>
  \<open>Seed\<close> registers the demo tools one by one through the interface and returns at the first
  error; what was registered before it stays. The result is the error, if any, and the registry.
\<close>

fun register_each :: "(tool \<Rightarrow> 'r \<Rightarrow> error + 'r) \<Rightarrow> tool list \<Rightarrow> 'r \<Rightarrow> error option \<times> 'r" where
  "register_each reg [] r = (None, r)"
| "register_each reg (t # ts) r =
     (case reg t r of Inl e \<Rightarrow> (Some e, r) | Inr r' \<Rightarrow> register_each reg ts r')"

definition seed_tools :: "tool list" where
  "seed_tools =
    [\<lparr> t_id = ''db.query'', t_type = ''http'', t_endpoint = ''grpc://db-proxy.svc:50051/query'',
       t_method = ''POST'', t_schema = [(''sql'', ''string''), (''limit'', ''int?'')],
       t_auth = AuthPreInjected, t_timeout = ''30s'', t_capabilities = [''sql'', ''database''],
       t_egress = [''db-proxy.svc''], t_depends_on_caps = [], t_require_approv = False \<rparr>,
     \<lparr> t_id = ''template.render'', t_type = ''http'',
       t_endpoint = ''http://template-svc.svc:8080/render'',
       t_method = ''POST'', t_schema = [(''template_id'', ''string''), (''data'', ''json'')],
       t_auth = AuthPreInjected, t_timeout = ''10s'', t_capabilities = [''template''],
       t_egress = [''template-svc.svc''], t_depends_on_caps = [''sql''],
       t_require_approv = False \<rparr>,
     \<lparr> t_id = ''email.send'', t_type = ''http'', t_endpoint = ''https://email-gw.svc:443/send'',
       t_method = ''POST'',
       t_schema = [(''to'', ''string[]''), (''subject'', ''string''), (''body'', ''string''),
                   (''attachment_ref'', ''string?'')],
       t_auth = AuthPreInjected, t_timeout = ''15s'', t_capabilities = [''email''],
       t_egress = [''email-gw.svc''], t_depends_on_caps = [''template'', ''sql''],
       t_require_approv = True \<rparr>,
     \<lparr> t_id = ''slack.send_message'', t_type = ''http'',
       t_endpoint = ''https://slack-gw.svc:443/messages'',
       t_method = ''POST'', t_schema = [(''channel'', ''string''), (''text'', ''string'')],
       t_auth = AuthPreInjected, t_timeout = ''10s'', t_capabilities = [''messaging'', ''slack''],
       t_egress = [''slack-gw.svc''], t_depends_on_caps = [], t_require_approv = False \<rparr>,
     \<lparr> t_id = ''audit.log_event'', t_type = ''http'', t_endpoint = ''http://audit.svc:8080/events'',
       t_method = ''POST'',
       t_schema = [(''actor'', ''string''), (''action'', ''string''), (''payload'', ''json'')],
       t_auth = AuthPreInjected, t_timeout = ''5s'', t_capabilities = [''audit''],
       t_egress = [''audit.svc''], t_depends_on_caps = [], t_require_approv = False \<rparr>]"

definition Seed :: "(tool \<Rightarrow> 'r \<Rightarrow> error + 'r) \<Rightarrow> 'r \<Rightarrow> error option \<times> 'r" where
  "Seed reg r = register_each reg seed_tools r"

definition acceptable :: "tool \<Rightarrow> bool" where
  "acceptable t \<longleftrightarrow> TrimSpace (t_id t) \<noteq> [] \<and> t_capabilities t \<noteq> []"

lemma seed_tools_acceptable: "list_all acceptable seed_tools"
  by code_simp

context tool_registry begin

lemma register_each_ok:
  assumes "inv r" and "list_all acceptable ts"
  shows "\<exists>r'. register_each register ts r = (None, r') \<and> inv r' \<and>
    (\<forall>i. get r' i = (case find (\<lambda>t. t_id t = i) (rev ts) of None \<Rightarrow> get r i | Some t \<Rightarrow> Inr t))"
  using assms
proof (induction ts arbitrary: r)
  case (Cons t ts)
  then obtain r1 where r1: "register t r = Inr r1"
    using register_accepts [of t r] by (auto simp: acceptable_def)
  then have "inv r1" using Cons.prems inv_register by blast
  then obtain r' where r': "register_each register ts r1 = (None, r')" "inv r'"
    and g: "get r' i = (case find (\<lambda>t. t_id t = i) (rev ts) of
              None \<Rightarrow> get r1 i | Some t \<Rightarrow> Inr t)" for i
    using Cons.IH [of r1] Cons.prems by auto
  have "get r' i = (case find (\<lambda>t. t_id t = i) (rev ts @ [t]) of
          None \<Rightarrow> get r i | Some t \<Rightarrow> Inr t)" for i
    using g [of i] get_register [OF Cons.prems(1) r1, of i]
    by (auto simp: find_append split: option.splits)
  with r1 r' show ?case by auto
qed auto

lemma seeded:
  "\<exists>r'. Seed register empty = (None, r') \<and> inv r' \<and>
    (\<forall>i. get r' i = (case find (\<lambda>t. t_id t = i) (rev seed_tools) of
       None \<Rightarrow> get empty i | Some t \<Rightarrow> Inr t))"
  unfolding Seed_def by (rule register_each_ok [OF inv_empty seed_tools_acceptable])

end


section \<open>Properties\<close>

text \<open>C18: \<open>Lookup\<close> is sound and complete: it returns exactly the registered tools one of whose
  capabilities, lowercased, is among the trimmed, lowercased, non-blank requested tags, each once,
  in increasing order of their ids.\<close>

theorem Lookup_exact:
  assumes "registry_inv r"
  shows "set (Lookup r caps) =
      {t. (\<exists>k. map_of r k = Some t) \<and>
          (\<exists>c s. c \<in> set (t_capabilities t) \<and> s \<in> set caps \<and>
             ToLower c = ToLower (TrimSpace s) \<and> ToLower c \<noteq> [])} \<and>
    sorted (map t_id (Lookup r caps)) \<and> distinct (map t_id (Lookup r caps))"
proof -
  have "(\<exists>k. map_of r k = Some t) \<longleftrightarrow> t \<in> snd ` set r" for t
    by (auto simp: wf_map_map_of [OF registry_inv_wf [OF assms]] image_iff) force
  then have "set (Lookup r caps) =
      {t. (\<exists>k. map_of r k = Some t) \<and>
          (\<exists>c s. c \<in> set (t_capabilities t) \<and> s \<in> set caps \<and>
             ToLower c = ToLower (TrimSpace s) \<and> ToLower c \<noteq> [])}"
    by (auto simp: set_Lookup tool_matches_def list_ex_iff set_normalizeSet)
  then show ?thesis by (simp add: sorted_Lookup distinct_Lookup assms)
qed

theorem Lookup_exact_witness:
  "set (Lookup (snd (Seed Register NewMemoryRegistry)) ['' SQL '', ''nothing'']) =
     {t. (\<exists>k. map_of (snd (Seed Register NewMemoryRegistry)) k = Some t) \<and>
         (\<exists>c s. c \<in> set (t_capabilities t) \<and> s \<in> set ['' SQL '', ''nothing''] \<and>
            ToLower c = ToLower (TrimSpace s) \<and> ToLower c \<noteq> [])}"
proof -
  have "registry_inv (snd (Seed Register NewMemoryRegistry))"
    using memory_registry.seeded by auto
  from Lookup_exact [OF this] show ?thesis by blast
qed

text \<open>\<open>Lookup\<close> and \<open>All\<close> are deterministic: although both range over a Go map, whose
  iteration order is random, two visits of the same registry give the same list.\<close>

theorem Lookup_deterministic:
  assumes "registry_inv r" and "same_map r r'"
  shows "Lookup r caps = Lookup r' caps \<and> All r = All r'"
proof -
  have inv': "registry_inv r'"
    using assms by (auto simp: registry_inv_def same_map_def list_all_iff)
  have s: "set (map snd r) = set (map snd r')"
    using assms(2) by (simp add: same_map_def)
  note d = tools_distinct [OF assms(1)] tools_distinct [OF inv']
  have inj: "inj_on t_id (set (map snd r))" using d(1) by (metis distinct_map)
  have "All r = All r'"
    unfolding All_def by (rule sort_key_unique [OF inj s d(2,4)])
  moreover have "sort_key t_id (filter P (map snd r)) =
      sort_key t_id (filter P (map snd r'))" for P
  proof (rule sort_key_unique)
    show "inj_on t_id (set (filter P (map snd r)))"
      by (rule inj_on_subset [OF inj]) auto
    show "set (filter P (map snd r)) = set (filter P (map snd r'))"
      using s by (simp only: set_filter)
  qed (use d in \<open>simp_all\<close>)
  ultimately show ?thesis by (simp add: Lookup_def Let_def)
qed

definition three_tools :: registry where
  "three_tools = map (\<lambda>t. (t_id t, t)) (take 3 seed_tools)"

theorem Lookup_deterministic_witness:
  "Lookup three_tools [''sql'', ''email''] = Lookup (rev three_tools) [''sql'', ''email''] \<and>
   All three_tools = All (rev three_tools)"
proof (rule Lookup_deterministic)
  show "registry_inv three_tools" by code_simp
  show "same_map three_tools (rev three_tools)"
    by (simp add: same_map_def wf_map_def rev_map [symmetric]) code_simp
qed

text \<open>C19: \<open>Register\<close> inserts or replaces: afterwards a lookup by id finds exactly the new tool
  under its id and everything else as before, and a lookup by capabilities returns the tools it
  returned before, less the one replaced, plus the new one when it carries a requested tag. A tool
  without an id or without capabilities is refused, and the registry is unchanged.\<close>

theorem Register_effect:
  assumes "registry_inv r"
  shows "case Register t r of
      Inl _ \<Rightarrow> \<not> acceptable t
    | Inr r' \<Rightarrow> acceptable t \<and> registry_inv r' \<and>
        (\<forall>i. Get r' i = (if i = t_id t then Inr t else Get r i)) \<and>
        (\<forall>caps. set (Lookup r' caps) =
           {u \<in> set (Lookup r caps). t_id u \<noteq> t_id t} \<union>
           (if tool_matches (normalizeSet caps) t then {t} else {}))"
proof (cases "Register t r")
  case (Inl e)
  then show ?thesis by (auto simp: Register_def acceptable_def split: if_splits)
next
  case (Inr r')
  have inv': "registry_inv r'" using assms Inr by (rule registry_inv_Register)
  have "set (Lookup r' caps) = {u \<in> set (Lookup r caps). t_id u \<noteq> t_id t} \<union>
      (if tool_matches (normalizeSet caps) t then {t} else {})" for caps
    using Register_tools [OF assms Inr] by (auto simp: set_Lookup)
  moreover have "acceptable t" using Inr by (simp add: Register_Inr acceptable_def)
  ultimately show ?thesis
    unfolding Inr using inv' memory_registry.get_register [OF assms Inr] by simp
qed

theorem Register_effect_witness:
  "Lookup (case Register (hd seed_tools) [] of Inr r \<Rightarrow> r) [''sql''] = [hd seed_tools] \<and>
   (case Register (hd seed_tools) [] of Inl _ \<Rightarrow> False | Inr r' \<Rightarrow> registry_inv r')"
proof -
  have "registry_inv []" using registry_inv_empty by (simp add: NewMemoryRegistry_def)
  from Register_effect [OF this, of "hd seed_tools"]
  have "case Register (hd seed_tools) [] of Inl _ \<Rightarrow> \<not> acceptable (hd seed_tools)
        | Inr r' \<Rightarrow> registry_inv r'"
    by (auto split: sum.splits)
  moreover have "acceptable (hd seed_tools)" by code_simp
  moreover have "Lookup (case Register (hd seed_tools) [] of Inr r \<Rightarrow> r) [''sql''] = [hd seed_tools]"
    by code_simp
  ultimately show ?thesis by (auto split: sum.splits)
qed

end
