(* ===== verification/K8sSource.thy ===== *)
theory K8sSource
  imports Registry
begin

text \<open>
  The Kubernetes source adapter of \<open>internal/sources/k8s/source.go\<close>: annotated Services become
  registry tools. Like the MCP adapter it is a client of the interface \<open>tool_registry\<close>.
\<close>

section \<open>Services and annotations\<close>

definition AnnotationPrefix :: string where
  "AnnotationPrefix = ''acp.clawdlinux.org/''"

record k8s_service =
  k_namespace :: string
  k_name :: string
  k_cluster_host :: string
  k_port :: int
  k_annotations :: "(string \<times> string) list"

text \<open>\<open>a[AnnotationPrefix+key]\<close>: the empty string for a key that is not there.\<close>

definition annotation :: "k8s_service \<Rightarrow> string \<Rightarrow> string" where
  "annotation svc key =
     (case map_of (k_annotations svc) (AnnotationPrefix @ key) of None \<Rightarrow> [] | Some v \<Rightarrow> v)"

definition optedIn :: "k8s_service \<Rightarrow> bool" where
  "optedIn svc =
     (case map_of (k_annotations svc) (AnnotationPrefix @ ''expose'') of
        None \<Rightarrow> False
      | Some v \<Rightarrow> EqualFold (TrimSpace v) ''true'')"

definition splitCSV :: "string \<Rightarrow> string list" where
  "splitCSV raw =
     sorted_keys (filter (\<lambda>p. p \<noteq> [])
       (map (\<lambda>part. ToLower (TrimSpace part)) (Split CHR '','' raw)))"

text \<open>One \<open>name:type\<close> pair of a compact schema: the part before the first colon and the part after
  it; a pair without colon, or with nothing on one side of it, is skipped.\<close>

definition schema_pair :: "string \<Rightarrow> (string \<times> string) option" where
  "schema_pair raw =
     (let pair = TrimSpace raw;
          before = before_byte CHR '':'' pair;
          after = drop (length before + 1) pair;
          name = TrimSpace before;
          typ = TrimSpace after in
      if pair = [] \<or> CHR '':'' \<notin> set pair \<or> before = [] \<or> after = [] \<or> name = [] \<or> typ = []
      then None else Some (name, typ))"

fun add_pairs :: "string list \<Rightarrow> (string \<times> string) list \<Rightarrow> (string \<times> string) list" where
  "add_pairs [] out = out"
| "add_pairs (p # ps) out =
     (case schema_pair p of None \<Rightarrow> add_pairs ps out
      | Some (name, typ) \<Rightarrow> add_pairs ps (AList.update name typ out))"

definition parseCompactSchema :: "string \<Rightarrow> (string \<times> string) list" where
  "parseCompactSchema raw = add_pairs (Split CHR '','' raw) []"

section \<open>Conversion and registration\<close>

definition k8s_host :: "k8s_service \<Rightarrow> string" where
  "k8s_host svc =
     (if k_cluster_host svc = [] then k_name svc @ ''.'' @ k_namespace svc @ ''.svc.cluster.local''
      else k_cluster_host svc)"

definition k8s_path :: "k8s_service \<Rightarrow> string" where
  "k8s_path svc =
     (let path = TrimSpace (annotation svc ''endpoint-path'');
          path = (if path = [] then ''/'' else path) in
      if HasPrefix path ''/'' then path else ''/'' @ path)"

definition or_default :: "string \<Rightarrow> string \<Rightarrow> string" where
  "or_default s d = (if s = [] then d else s)"

definition k8s_tool :: "k8s_service \<Rightarrow> tool" where
  "k8s_tool svc =
     \<lparr> t_id = TrimSpace (annotation svc ''tool-id''),
       t_type = ''http'',
       t_endpoint = ''http://'' @ k8s_host svc @ '':'' @
         fmt_d (if k_port svc \<le> 0 then 80 else k_port svc) @ k8s_path svc,
       t_method = or_default (ToUpper (TrimSpace (annotation svc ''method''))) ''POST'',
       t_schema = parseCompactSchema (annotation svc ''schema''),
       t_auth = AuthPreInjected,
       t_timeout = or_default (TrimSpace (annotation svc ''timeout'')) ''30s'',
       t_capabilities = splitCSV (annotation svc ''capabilities''),
       t_egress = [k8s_host svc],
       t_depends_on_caps = [],
       t_require_approv = EqualFold (TrimSpace (annotation svc ''require-approval'')) ''true'' \<rparr>"

definition k8s_convert :: "k8s_service \<Rightarrow> error + tool" where
  "k8s_convert svc =
     (if TrimSpace (annotation svc ''tool-id'') = [] then
        Inl (Errorf ''missing acp.clawdlinux.org/tool-id annotation'')
      else if splitCSV (annotation svc ''capabilities'') = [] then
        Inl (Errorf ''missing acp.clawdlinux.org/capabilities annotation'')
      else Inr (k8s_tool svc))"

fun register_services ::
    "(tool \<Rightarrow> 'r \<Rightarrow> error + 'r) \<Rightarrow> k8s_service list \<Rightarrow> nat \<Rightarrow> 'r \<Rightarrow> nat \<times> error option \<times> 'r" where
  "register_services reg [] n r = (n, None, r)"
| "register_services reg (svc # svcs) n r =
     (if \<not> optedIn svc then register_services reg svcs n r
      else (case k8s_convert svc of
        Inl e \<Rightarrow>
          (n, Some (Wrap (''k8s: convert '' @ k_namespace svc @ ''/'' @ k_name svc @ '': '') e), r)
      | Inr t \<Rightarrow>
          (case reg t r of
             Inl e \<Rightarrow> (n, Some (Wrap (''k8s: register '' @ t_id t @ '': '') e), r)
           | Inr r' \<Rightarrow> register_services reg svcs (n + 1) r')))"

definition K8sRegisterAll ::
    "(tool \<Rightarrow> 'r \<Rightarrow> error + 'r) \<Rightarrow> k8s_service list \<Rightarrow> 'r \<Rightarrow> nat \<times> error option \<times> 'r" where
  "K8sRegisterAll reg svcs r = register_services reg svcs 0 r"

section \<open>Lemmas\<close>

lemma schema_pair_printed:
  assumes "trimmed name" and "trimmed typ" and "CHR '':'' \<notin> set name"
  shows "schema_pair (name @ '':'' @ typ) = Some (name, typ)"
proof -
  have t: "TrimSpace (name @ CHR '':'' # typ) = name @ CHR '':'' # typ"
    using trimmed_append [OF assms(1,2), of "'':''"] by (simp add: ascii_def)
  have "before_byte CHR '':'' (name @ '':'' @ typ) = name"
    using assms(3) by (auto simp: before_byte_def takeWhile_append)
  moreover have "name \<noteq> []" "typ \<noteq> []" using assms(1,2) by (auto simp: trimmed_def)
  ultimately show ?thesis
    using assms(1,2) t by (simp add: schema_pair_def Let_def)
qed

lemma add_pairs_printed:
  assumes "list_all (\<lambda>(n, t). trimmed n \<and> trimmed t \<and> CHR '':'' \<notin> set n) ps"
    and "distinct (map fst out @ map fst ps)"
  shows "add_pairs (map (\<lambda>(n, t). n @ '':'' @ t) ps) out = out @ ps"
  using assms
proof (induction ps arbitrary: out)
  case (Cons p ps)
  obtain n t where p: "p = (n, t)" by (cases p)
  have "AList.update n t out = out @ [(n, t)]"
    using Cons.prems(2) p by (intro update_new) auto
  moreover have "schema_pair (n @ CHR '':'' # t) = Some (n, t)"
    using Cons.prems(1) schema_pair_printed [of n t] by (simp add: p)
  ultimately show ?case using Cons by (simp add: p)
qed simp

text \<open>A service that opted in and is complete.\<close>

definition complete :: "k8s_service \<Rightarrow> bool" where
  "complete svc \<longleftrightarrow> TrimSpace (annotation svc ''tool-id'') \<noteq> [] \<and>
     splitCSV (annotation svc ''capabilities'') \<noteq> []"

definition convert_error :: "k8s_service \<Rightarrow> error" where
  "convert_error svc =
     (if TrimSpace (annotation svc ''tool-id'') = []
      then Errorf ''missing acp.clawdlinux.org/tool-id annotation''
      else Errorf ''missing acp.clawdlinux.org/capabilities annotation'')"

lemma k8s_convert_complete:
  "k8s_convert svc = (if complete svc then Inr (k8s_tool svc) else Inl (convert_error svc))"
  by (simp add: k8s_convert_def complete_def convert_error_def)

definition passable :: "k8s_service \<Rightarrow> bool" where
  "passable svc \<longleftrightarrow> (if optedIn svc then complete svc else True)"

lemma k8s_tool_acceptable:
  "ascii (annotation svc ''tool-id'') \<Longrightarrow> complete svc \<Longrightarrow> acceptable (k8s_tool svc)"
  by (simp add: acceptable_def k8s_tool_def complete_def TrimSpace_idem)

context tool_registry begin

lemma register_services_prefix:
  assumes "inv r" and "list_all (\<lambda>svc. ascii (annotation svc ''tool-id'')) svcs"
  defines "good \<equiv> takeWhile passable svcs"
  shows "\<exists>err r'. register_services register svcs n r = (n + length (filter optedIn good), err, r') \<and>
    (err = None \<longleftrightarrow> good = svcs) \<and>
    register_each register (map k8s_tool (filter optedIn good)) r = (None, r')"
  using assms(1,2) unfolding good_def
proof (induction svcs arbitrary: r n)
  case (Cons svc svcs)
  consider (skip) "\<not> optedIn svc" | (bad) "optedIn svc" "\<not> complete svc"
    | (ok) "optedIn svc" "complete svc" by blast
  then show ?case
  proof cases
    case skip
    with Cons show ?thesis by (auto simp: passable_def)
  next
    case bad
    then show ?thesis by (simp add: passable_def k8s_convert_complete)
  next
    case ok
    then obtain r1 where r1: "register (k8s_tool svc) r = Inr r1"
      using register_accepts [of "k8s_tool svc" r] k8s_tool_acceptable [of svc] Cons.prems(2)
      by (auto simp: acceptable_def)
    then have "inv r1" using Cons.prems(1) inv_register by blast
    with Cons.IH [of r1 "n + 1"] Cons.prems(2) ok r1 show ?thesis
      by (auto simp: passable_def k8s_convert_complete)
  qed
qed simp

lemma K8sRegisterAll_result:
  assumes "inv r" and "list_all (\<lambda>svc. ascii (annotation svc ''tool-id'')) svcs"
  defines "tools \<equiv> map k8s_tool (filter optedIn (takeWhile passable svcs))"
  shows "case K8sRegisterAll register svcs r of (n, err, r') \<Rightarrow>
    n = length tools \<and> (err = None \<longleftrightarrow> takeWhile passable svcs = svcs) \<and> inv r' \<and>
    (\<forall>i. get r' i = (case find (\<lambda>t. t_id t = i) (rev tools) of
        None \<Rightarrow> get r i | Some t \<Rightarrow> Inr t))"
proof -
  have "list_all acceptable tools"
    using assms(2) unfolding tools_def
    by (auto simp: list_all_iff passable_def k8s_tool_acceptable dest!: set_takeWhileD split: if_splits)
  from register_each_ok [OF assms(1) this]
    register_services_prefix [OF assms(1,2), of 0, folded tools_def]
  show ?thesis by (auto simp: K8sRegisterAll_def tools_def)
qed

end

section \<open>Properties\<close>

text \<open>importing services registers exactly the services that opted in, up to the first of them
  that lacks its id or its capabilities; the ones that did not opt in are passed over wherever they
  stand, what is registered before a failure stays, and nothing else in the registry changes.\<close>

theorem K8sRegisterAll_partial_progress:
  assumes "registry_inv r" and "list_all (\<lambda>svc. ascii (annotation svc ''tool-id'')) svcs"
  shows "case K8sRegisterAll Register svcs r of (n, err, r') \<Rightarrow>
    let tools = map k8s_tool (filter optedIn (takeWhile passable svcs)) in
    n = length tools \<and> (err = None \<longleftrightarrow> list_all passable svcs) \<and> registry_inv r' \<and>
    (\<forall>i. Get r' i = (case find (\<lambda>t. t_id t = i) (rev tools) of
        None \<Rightarrow> Get r i | Some t \<Rightarrow> Inr t))"
  using memory_registry.K8sRegisterAll_result [OF assms]
  by (auto simp: Let_def list_all_iff)

definition demo_service :: "string \<Rightarrow> (string \<times> string) list \<Rightarrow> k8s_service" where
  "demo_service n kvs = \<lparr> k_namespace = ''team-a'', k_name = n, k_cluster_host = [], k_port = 0,
     k_annotations = map (\<lambda>(k, v). (AnnotationPrefix @ k, v)) kvs \<rparr>"

definition demo_services :: "k8s_service list" where
  "demo_services =
    [demo_service ''plain'' [],
     demo_service ''billing'' [(''expose'', '' TRUE''), (''tool-id'', ''billing.query''),
       (''capabilities'', ''sql, Billing,,sql''), (''endpoint-path'', ''v1'')],
     demo_service ''broken'' [(''expose'', ''true''), (''tool-id'', ''x'')],
     demo_service ''late'' [(''expose'', ''true''), (''tool-id'', ''late''), (''capabilities'', ''c'')]]"

theorem K8sRegisterAll_partial_progress_witness:
  "\<exists>err r'. K8sRegisterAll Register demo_services NewMemoryRegistry = (1, err, r') \<and> err \<noteq> None \<and>
     Get r' ''billing.query'' = Inr (k8s_tool (demo_services ! 1)) \<and>
     t_capabilities (k8s_tool (demo_services ! 1)) = [''billing'', ''sql''] \<and>
     t_endpoint (k8s_tool (demo_services ! 1)) = ''http://billing.team-a.svc.cluster.local:80/v1''"
proof -
  have pre: "registry_inv NewMemoryRegistry"
    "list_all (\<lambda>svc. ascii (annotation svc ''tool-id'')) demo_services"
    by (rule registry_inv_empty) code_simp
  have tools: "map k8s_tool (filter optedIn (takeWhile passable demo_services)) =
      [k8s_tool (demo_services ! 1)]" "\<not> list_all passable demo_services"
    "t_id (k8s_tool (demo_services ! 1)) = ''billing.query''"
    "t_capabilities (k8s_tool (demo_services ! 1)) = [''billing'', ''sql'']"
    "t_endpoint (k8s_tool (demo_services ! 1)) = ''http://billing.team-a.svc.cluster.local:80/v1''"
    by code_simp+
  obtain n err r' where res: "K8sRegisterAll Register demo_services NewMemoryRegistry = (n, err, r')"
    by (metis prod.exhaust)
  note all = K8sRegisterAll_partial_progress [OF pre, unfolded res prod.case Let_def tools(1)]
  then have "n = 1" "err \<noteq> None" using tools(2) by auto
  moreover have "Get r' ''billing.query'' = Inr (k8s_tool (demo_services ! 1))"
    using all tools(3) by simp
  ultimately show ?thesis using res tools(4,5) by blast
qed

text \<open>a printed compact schema is read back: for trimmed names and types, the names distinct and
  without the separators, \<open>parseCompactSchema\<close> inverts \<open>name:type,\<dots>\<close>; types such as
  \<open>enum:a|b\<close> may contain colons.\<close>

theorem parseCompactSchema_roundtrip:
  assumes "ps \<noteq> []" and "distinct (map fst ps)"
    and "list_all (\<lambda>(n, t). trimmed n \<and> trimmed t \<and> CHR '':'' \<notin> set n \<and> CHR '','' \<notin> set n \<and>
           CHR '','' \<notin> set t) ps"
  shows "parseCompactSchema (Join '','' (map (\<lambda>(n, t). n @ '':'' @ t) ps)) = ps"
proof -
  have "Split CHR '','' (Join '','' (map (\<lambda>(n, t). n @ '':'' @ t) ps)) =
      map (\<lambda>(n, t). n @ '':'' @ t) ps"
    using assms(1,3) by (intro Split_Join) (auto simp: list_all_iff)
  moreover have "add_pairs (map (\<lambda>(n, t). n @ '':'' @ t) ps) [] = [] @ ps"
    by (rule add_pairs_printed) (use assms(2,3) in \<open>auto simp: list_all_iff\<close>)
  ultimately show ?thesis by (simp add: parseCompactSchema_def)
qed

theorem parseCompactSchema_roundtrip_witness:
  "parseCompactSchema ''sql:string,limit:int?,mode:enum:fast|slow'' =
     [(''sql'', ''string''), (''limit'', ''int?''), (''mode'', ''enum:fast|slow'')]"
proof -
  let ?ps = "[(''sql'', ''string''), (''limit'', ''int?''), (''mode'', ''enum:fast|slow'')]"
  have "?ps \<noteq> []" "distinct (map fst ?ps)"
    "list_all (\<lambda>(n, t). trimmed n \<and> trimmed t \<and> CHR '':'' \<notin> set n \<and> CHR '','' \<notin> set n \<and>
       CHR '','' \<notin> set t) ?ps"
    by code_simp+
  from parseCompactSchema_roundtrip [OF this]
  show ?thesis by simp
qed

end
