(* ===== verification/Json.thy ===== *)
theory Json
  imports Prelude
begin

text \<open>
  Decoded JSON, as \<open>encoding/json\<close> hands it to code that asks for \<open>interface{}\<close>: \<open>nil\<close>, a
  bool, a \<open>float64\<close>, a string, a \<open>[]interface{}\<close> or a \<open>map[string]interface{}\<close>. A number is
  represented by the text \<open>%v\<close> prints for it, the only thing the repository does with one.
\<close>

datatype json =
  JNull
| JBool bool
| JNum string
| JStr string
| JArr "json list"
| JObj "(string \<times> json) list"

text \<open>\<open>fmt.Sprint\<close>: strings as they are, maps with their keys sorted.\<close>

primrec Sprint :: "json \<Rightarrow> string" where
  "Sprint JNull = ''<nil>''"
| "Sprint (JBool b) = (if b then ''true'' else ''false'')"
| "Sprint (JNum n) = n"
| "Sprint (JStr s) = s"
| "Sprint (JArr xs) = ''['' @ Join '' '' (map Sprint xs) @ '']''"
| "Sprint (JObj m) = ''map['' @
     Join '' '' (map (\<lambda>(k, s). k @ '':'' @ s) (sort_key fst (map (map_prod id Sprint) m))) @ '']''"

text \<open>Type assertions: \<open>x.(map[string]interface{})\<close>, \<open>x.([]interface{})\<close>, \<open>x.(string)\<close>.\<close>

definition as_object :: "json \<Rightarrow> (string \<times> json) list option" where
  "as_object j = (case j of JObj m \<Rightarrow> Some m | _ \<Rightarrow> None)"

definition as_array :: "json \<Rightarrow> json list option" where
  "as_array j = (case j of JArr xs \<Rightarrow> Some xs | _ \<Rightarrow> None)"

definition as_string :: "json \<Rightarrow> string option" where
  "as_string j = (case j of JStr s \<Rightarrow> Some s | _ \<Rightarrow> None)"

text \<open>Indexing a map with a key that is not there gives \<open>nil\<close>.\<close>

definition field :: "(string \<times> json) list \<Rightarrow> string \<Rightarrow> json" where
  "field m k = (case map_of m k of None \<Rightarrow> JNull | Some j \<Rightarrow> j)"

text \<open>A \<open>json.RawMessage\<close> by its value, \<open>None\<close> for nil; marshalling a nil one gives null.\<close>

type_synonym raw_message = "json option"

definition raw_json :: "raw_message \<Rightarrow> json" where
  "raw_json r = (case r of None \<Rightarrow> JNull | Some j \<Rightarrow> j)"

lemma size_field: "size (field m k) \<le> size (JObj m)"
proof (induction m)
  case (Cons e m)
  then show ?case by (cases e) (auto simp: field_def)
qed (simp add: field_def)

lemma size_map_of: "map_of m k = Some j \<Longrightarrow> size j < size (JObj m)"
proof (induction m)
  case (Cons e m)
  then show ?case by (cases e) (auto split: if_splits)
qed simp

lemma same_map_field: "same_map m m' \<Longrightarrow> field m = field m'"
  by (intro ext) (simp add: field_def same_map_map_of)

lemma size_entry: "(k, j) \<in> set m \<Longrightarrow> size j < size (JObj m)"
  by (induction m) (auto simp: less_Suc_eq)

lemmas size_entry' [termination_simp] = size_entry [simplified]

lemma size_item: "j \<in> set xs \<Longrightarrow> size j < size (JArr xs)"
  by (induction xs) auto

lemmas size_item' [termination_simp] = size_item [simplified]

end
