(* ===== verification/Generic.thy ===== *)
theory Generic
  imports Anf Json
begin

text \<open>
  The generic translator of \<open>translators/generic/translate.go\<close>: any decoded JSON value becomes an
  ANF document, without dropping anything, up to a depth of 512.
\<close>

section \<open>The translator\<close>

definition maxDepth :: nat where
  "maxDepth = 512"

definition translatorName :: string where
  "translatorName = ''clawdlinux/generic-translator''"

definition isContainer :: "json \<Rightarrow> bool" where
  "isContainer v = (case v of JObj _ \<Rightarrow> True | JArr _ \<Rightarrow> True | _ \<Rightarrow> False)"

text \<open>\<open>scalarString\<close>; it is only called on scalars.\<close>

definition scalarString :: "json \<Rightarrow> string" where
  "scalarString v =
     (case v of
        JStr s \<Rightarrow> s
      | JBool b \<Rightarrow> if b then ''true'' else ''false''
      | JNum n \<Rightarrow> n
      | JNull \<Rightarrow> ''null''
      | _ \<Rightarrow> Sprint v)"

definition objectName :: "(string \<times> json) list \<Rightarrow> string" where
  "objectName m =
     (case as_string (field m ''name'') of
        Some s \<Rightarrow> s
      | None \<Rightarrow> (case as_string (field m ''id'') of Some s \<Rightarrow> s | None \<Rightarrow> []))"

text \<open>The loops over fields and elements: a property or the result for a child at each step; the
  first failing child ends the loop.\<close>

fun collect :: "(anf_property + (error + anf_entity)) list \<Rightarrow>
    error + anf_property list \<times> anf_entity list" where
  "collect [] = Inr ([], [])"
| "collect (Inl p # xs) =
     (case collect xs of Inl e \<Rightarrow> Inl e | Inr (ps, cs) \<Rightarrow> Inr (p # ps, cs))"
| "collect (Inr (Inl e) # xs) = Inl e"
| "collect (Inr (Inr c) # xs) =
     (case collect xs of Inl e \<Rightarrow> Inl e | Inr (ps, cs) \<Rightarrow> Inr (ps, c # cs))"

definition too_deep :: error where
  "too_deep = Errorf ''generic: input nesting exceeds 512 levels''"

fun entityFromValue :: "nat \<Rightarrow> string \<Rightarrow> json \<Rightarrow> error + anf_entity" where
  "entityFromValue depth key v =
     (if maxDepth < depth then Inl too_deep
      else (case v of
        JObj m \<Rightarrow>
          (case collect (map (\<lambda>(k, j). if isContainer j then Inr (entityFromValue (depth + 1) k j)
                                         else Inl (k, scalarString j)) (sort_key fst m)) of
             Inl e \<Rightarrow> Inl e
           | Inr (ps, cs) \<Rightarrow> Inr (Entity key (objectName m) StatusEmpty [] ps cs))
      | JArr xs \<Rightarrow>
          (case collect (map (\<lambda>j. Inr (entityFromValue (depth + 1) key j)) xs) of
             Inl e \<Rightarrow> Inl e
           | Inr (ps, cs) \<Rightarrow> Inr (Entity key [] StatusEmpty [] ps cs))
      | _ \<Rightarrow> Inr (Entity key [] StatusEmpty [] [(''value'', scalarString v)] [])))"

declare entityFromValue.simps [simp del]

definition generic_header :: "string \<Rightarrow> string \<Rightarrow> string \<Rightarrow> anf_document" where
  "generic_header source scope time = SetTranslator translatorName (NewDocument source scope time)"

text \<open>\<open>Translate\<close>; \<open>time\<close> is the formatted time.\<close>

definition GenericTranslate ::
    "json \<Rightarrow> string \<Rightarrow> string \<Rightarrow> string \<Rightarrow> error + anf_document" where
  "GenericTranslate input source scope time =
     (let doc = generic_header source scope time in
      case input of
        JObj m \<Rightarrow>
          (let scalars = filter (\<lambda>(k, j). \<not> isContainer j) (sort_key fst m);
               containers = filter (\<lambda>(k, j). isContainer j) (sort_key fst m);
               top = (if scalars = [] then []
                      else [Entity ''object'' scope StatusEmpty []
                              (map (\<lambda>(k, j). (k, scalarString j)) scalars) []]) in
           (case collect (map (\<lambda>(k, j). Inr (entityFromValue 1 k j)) containers) of
              Inl e \<Rightarrow> Inl e
            | Inr (ps, cs) \<Rightarrow> Inr (fold AddEntity (top @ cs) doc)))
      | JArr xs \<Rightarrow>
          (case collect (map (\<lambda>j. Inr (entityFromValue 1 ''item'' j)) xs) of
             Inl e \<Rightarrow> Inl e
           | Inr (ps, cs) \<Rightarrow> Inr (AddEntity (Entity ''array'' scope StatusEmpty [] [] cs) doc))
      | _ \<Rightarrow> Inr (AddEntity
                 (Entity ''value'' scope StatusEmpty [] [(''value'', scalarString input)] []) doc))"

section \<open>Leaves\<close>

text \<open>
  What must not be dropped: every scalar of the input with the path of keys that leads to it, where
  an array passes its own key on to its elements. \<open>entity_leaves\<close> reads them off an entity.
\<close>

definition under :: "string \<Rightarrow> (string list \<times> string) list \<Rightarrow> (string list \<times> string) list" where
  "under t ls = map (\<lambda>(p, s). (t # p, s)) ls"

fun entity_leaves :: "anf_entity \<Rightarrow> (string list \<times> string) list" where
  "entity_leaves (Entity t n st inl ps cs) =
     under t (map (\<lambda>(k, v). ([k], v)) ps @ concat (map entity_leaves cs))"

fun json_leaves :: "string \<Rightarrow> json \<Rightarrow> (string list \<times> string) list" where
  "json_leaves key (JObj m) =
     under key (concat (map (\<lambda>(k, j). if isContainer j then json_leaves k j
       else [([k], scalarString j)]) m))"
| "json_leaves key (JArr xs) = under key (concat (map (json_leaves key) xs))"
| "json_leaves key v = [([key, ''value''], scalarString v)]"

text \<open>The number of entity levels a value needs.\<close>

fun nesting :: "json \<Rightarrow> nat" where
  "nesting (JObj m) = Suc (foldr max (map (\<lambda>(k, j). if isContainer j then nesting j else 0) m) 0)"
| "nesting (JArr xs) = Suc (foldr max (map nesting xs) 0)"
| "nesting v = 1"

lemma foldr_max_le: "foldr max ns (0 :: nat) \<le> n \<longleftrightarrow> list_all (\<lambda>k. k \<le> n) ns"
  by (induction ns) auto

lemma under_append [simp]: "under t (xs @ ys) = under t xs @ under t ys"
  by (simp add: under_def)

text \<open>The leaves one step of a loop contributes.\<close>

definition step_leaves :: "anf_property + (error + anf_entity) \<Rightarrow> (string list \<times> string) multiset" where
  "step_leaves y = (case y of
     Inl (k, v) \<Rightarrow> {# ([k], v) #} | Inr (Inl e) \<Rightarrow> {#} | Inr (Inr c) \<Rightarrow> mset (entity_leaves c))"

lemma step_leaves_simps [simp]:
  "step_leaves (Inl (k, v)) = {# ([k], v) #}"
  "step_leaves (Inr (Inr c)) = mset (entity_leaves c)"
  by (simp_all add: step_leaves_def)

lemma collect_leaves:
  assumes "collect (map f xs) = Inr (ps, cs)" and "\<And>x. x \<in> set xs \<Longrightarrow> step_leaves (f x) = g x"
  shows "mset (map (\<lambda>(k, v). ([k], v)) ps @ concat (map entity_leaves cs)) = sum_list (map g xs)"
  using assms
proof (induction xs arbitrary: ps cs)
  case (Cons x xs)
  have x: "step_leaves (f x) = g x" by (rule Cons.prems(2)) simp
  show ?case
  proof (cases "f x")
    case (Inl p)
    then obtain ps' where ps: "ps = p # ps'" "collect (map f xs) = Inr (ps', cs)"
      using Cons.prems(1) by (auto split: sum.splits prod.splits)
    from Cons.IH [OF ps(2)] Cons.prems(2) x Inl ps(1) show ?thesis
      by (cases p) simp
  next
    case (Inr y)
    then obtain c where y: "y = Inr c" using Cons.prems(1) by (cases y) auto
    then obtain cs' where cs: "cs = c # cs'" "collect (map f xs) = Inr (ps, cs')"
      using Cons.prems(1) Inr by (auto split: sum.splits prod.splits)
    from Cons.IH [OF cs(2)] Cons.prems(2) x Inr y cs(1) show ?thesis
      by (simp add: ac_simps)
  qed
qed simp

lemma collect_error:
  "collect (map f xs) = Inl e \<Longrightarrow> \<exists>x \<in> set xs. f x = Inr (Inl e)"
proof (induction xs)
  case (Cons x xs)
  then show ?case
    by (cases "f x"; cases "projr (f x)") (auto split: sum.splits prod.splits)
qed simp

lemma collect_ok:
  "collect (map f xs) = Inr (ps, cs) \<Longrightarrow> x \<in> set xs \<Longrightarrow> f x \<noteq> Inr (Inl e)"
proof (induction xs arbitrary: ps cs)
  case (Cons y xs)
  then show ?case
    by (cases "f y"; cases "projr (f y)") (auto split: sum.splits prod.splits)
qed simp

lemma mset_concat_sum: "mset (concat xss) = sum_list (map mset xss)"
  by (induction xss) simp_all

lemma sum_list_sort_key:
  "sum_list (map g (sort_key f xs)) = sum_list (map (g :: _ \<Rightarrow> _ multiset) xs)"
proof -
  have "mset (map g (sort_key f xs)) = mset (map g xs)" by simp
  then show ?thesis by (metis sum_mset_sum_list)
qed

lemma under_mset: "mset xs = mset ys \<Longrightarrow> mset (under t xs) = mset (under t ys)"
  by (simp add: under_def)

definition field_leaves :: "string \<times> json \<Rightarrow> (string list \<times> string) list" where
  "field_leaves e = (case e of (k, j) \<Rightarrow>
     if isContainer j then json_leaves k j else [([k], scalarString j)])"

lemma json_leaves_JObj: "json_leaves key (JObj m) = under key (concat (map field_leaves m))"
  by (simp add: field_leaves_def [abs_def])

declare json_leaves.simps(1) [simp del]

lemma entity_leaves_exact:
  "entityFromValue depth key v = Inr e \<Longrightarrow> mset (entity_leaves e) = mset (json_leaves key v)"
proof (induction v arbitrary: depth key e rule: measure_induct_rule [of size])
  case (less v)
  from less.prems have d: "\<not> maxDepth < depth"
    by (auto simp: entityFromValue.simps [of depth])
  show ?case
  proof (cases v)
    case (JObj m)
    let ?f = "\<lambda>(k, j). if isContainer j then Inr (entityFromValue (depth + 1) k j)
      else Inl (k, scalarString j)"
    from less.prems obtain ps cs where c: "collect (map ?f (sort_key fst m)) = Inr (ps, cs)"
      and e: "e = Entity key (objectName m) StatusEmpty [] ps cs"
      using d JObj by (auto simp: entityFromValue.simps [of depth] split: sum.splits prod.splits)
    have "step_leaves (?f x) = mset (field_leaves x)" if "x \<in> set (sort_key fst m)" for x
    proof -
      obtain k j where x: "x = (k, j)" by (cases x)
      then have sz: "size j < size v" using that JObj size_entry by fastforce
      show ?thesis
        using collect_ok [OF c that] less.IH [OF sz, of "depth + 1" k]
        by (cases "entityFromValue (depth + 1) k j") (auto simp: x field_leaves_def split: if_splits, blast)
    qed
    from collect_leaves [OF c this]
    have "mset (map (\<lambda>(k, v). ([k], v)) ps @ concat (map entity_leaves cs)) =
        mset (concat (map field_leaves m))"
      by (simp add: sum_list_sort_key mset_concat_sum o_def)
    from under_mset [OF this] show ?thesis by (simp add: e JObj json_leaves_JObj)
  next
    case (JArr xs)
    let ?f = "\<lambda>j. Inr (entityFromValue (depth + 1) key j)"
    from less.prems obtain ps cs where c: "collect (map ?f xs) = Inr (ps, cs)"
      and e: "e = Entity key [] StatusEmpty [] ps cs"
      using d JArr by (auto simp: entityFromValue.simps [of depth] split: sum.splits prod.splits)
    have "step_leaves (?f x) = mset (json_leaves key x)" if "x \<in> set xs" for x
      using collect_ok [OF c that] less.IH [of x "depth + 1" key] that JArr size_item [of x xs]
      by (cases "entityFromValue (depth + 1) key x") auto
    from collect_leaves [OF c this]
    have "mset (map (\<lambda>(k, v). ([k], v)) ps @ concat (map entity_leaves cs)) =
        mset (concat (map (json_leaves key) xs))"
      by (simp add: mset_concat_sum o_def)
    from under_mset [OF this] show ?thesis by (simp add: e JArr)
  qed (use less.prems d in \<open>auto simp: entityFromValue.simps [of depth] under_def\<close>)
qed

lemma collect_fits:
  "(\<exists>r. collect (map f xs) = Inr r) \<longleftrightarrow> (\<forall>x \<in> set xs. \<forall>e. f x \<noteq> Inr (Inl e))"
  using collect_error [of f xs] collect_ok [of f xs] by (cases "collect (map f xs)") auto

lemma collect_fits_children:
  "(\<exists>r. collect (map (\<lambda>x. Inr (g x)) xs) = Inr r) \<longleftrightarrow> (\<forall>x \<in> set xs. \<exists>e. g x = Inr e)"
proof -
  have "(\<forall>e. Inr (g x) \<noteq> Inr (Inl e)) \<longleftrightarrow> (\<exists>e. g x = Inr e)" for x
    by (cases "g x") auto
  then show ?thesis unfolding collect_fits by simp
qed

lemma nesting_JArr_le: "nesting (JArr xs) \<le> Suc n \<longleftrightarrow> (\<forall>j \<in> set xs. nesting j \<le> n)"
  unfolding nesting.simps Suc_le_mono foldr_max_le list_all_iff by simp

lemma nesting_JObj_le:
  "nesting (JObj m) \<le> Suc n \<longleftrightarrow> (\<forall>(k, j) \<in> set m. isContainer j \<longrightarrow> nesting j \<le> n)"
  unfolding nesting.simps Suc_le_mono foldr_max_le list_all_iff by fastforce

declare nesting.simps(1, 2) [simp del]

text \<open>The depth bound: an entity is made exactly when the value does not nest too deeply.\<close>

lemma entityFromValue_fits:
  "(\<exists>e. entityFromValue (maxDepth + 1 - n) key v = Inr e) \<longleftrightarrow> nesting v \<le> n" if "n \<le> maxDepth + 1"
  using that
proof (induction v arbitrary: n key rule: measure_induct_rule [of size])
  case (less v)
  show ?case
  proof (cases n)
    case 0
    then show ?thesis by (cases v) (simp_all add: entityFromValue.simps [of "Suc maxDepth"] nesting.simps)
  next
    case (Suc i)
    define d0 d1 where d01: "d0 = maxDepth + 1 - n" "d1 = maxDepth + 1 - i"
    then have d: "\<not> maxDepth < d0" "d0 + 1 = d1" "i \<le> maxDepth + 1"
      using less.prems Suc by auto
    note step = entityFromValue.simps [of d0, unfolded d]
    note IH = less.IH [OF _ d(3), folded d01]
    have "(\<exists>e. entityFromValue d0 key v = Inr e) \<longleftrightarrow> nesting v \<le> n"
    proof (cases v)
      case (JObj m)
      let ?f = "\<lambda>(k, j). if isContainer j then Inr (entityFromValue (d1) k j)
        else Inl (k, scalarString j)"
      have "(\<forall>e. ?f x \<noteq> Inr (Inl e)) \<longleftrightarrow>
          (case x of (k, j) \<Rightarrow> isContainer j \<longrightarrow> (\<exists>e. entityFromValue (d1) k j = Inr e))"
        for x
        by (cases x; cases "entityFromValue (d1) (fst x) (snd x)") auto
      moreover have "(\<exists>e. entityFromValue (d0) key v = Inr e) \<longleftrightarrow>
          (\<exists>r. collect (map ?f (sort_key fst m)) = Inr r)"
        by (auto simp: step JObj d(1) split: sum.splits prod.splits)
      ultimately have "(\<exists>e. entityFromValue (d0) key v = Inr e) \<longleftrightarrow>
          (\<forall>(k, j) \<in> set m. isContainer j \<longrightarrow> (\<exists>e. entityFromValue (d1) k j = Inr e))"
        by (simp only: collect_fits set_sort)
      then show ?thesis
        unfolding JObj Suc nesting_JObj_le using IH JObj size_entry by fastforce
    next
      case (JArr xs)
      have "(\<exists>e. entityFromValue (d0) key v = Inr e) \<longleftrightarrow>
          (\<exists>r. collect (map (\<lambda>j. Inr (entityFromValue (d1) key j)) xs) = Inr r)"
        by (auto simp: step JArr d(1) split: sum.splits prod.splits)
      then show ?thesis
        unfolding collect_fits_children JArr Suc nesting_JArr_le
        using IH JArr size_item by simp
    qed (simp_all add: step Suc d(1))
    then show ?thesis by (simp only: d01)
  qed
qed

section \<open>Properties\<close>

text \<open>The leaves of a document, as \<open>Translate\<close> lays it out.\<close>

fun input_leaves :: "json \<Rightarrow> (string list \<times> string) list" where
  "input_leaves (JObj m) = concat (map (\<lambda>(k, j).
     if isContainer j then json_leaves k j else [([''object'', k], scalarString j)]) m)"
| "input_leaves (JArr xs) = under ''array'' (concat (map (json_leaves ''item'') xs))"
| "input_leaves v = [([''value'', ''value''], scalarString v)]"

definition document_leaves :: "anf_document \<Rightarrow> (string list \<times> string) list" where
  "document_leaves d = concat (map entity_leaves (dc_entities d))"

lemma generic_header_sel [simp]:
  "dc_entities (generic_header source scope time) = []" "dc_alerts (generic_header source scope time) = []"
  "dc_actions (generic_header source scope time) = []"
  by (simp_all add: generic_header_def SetTranslator_def NewDocument_def)

lemma children_leaves:
  assumes "collect (map (\<lambda>x. Inr (entityFromValue depth (key x) (val x))) xs) = Inr (ps, cs)"
  shows "mset (concat (map entity_leaves cs)) =
    mset (concat (map (\<lambda>x. json_leaves (key x) (val x)) xs)) \<and> ps = []"
proof -
  have "step_leaves (Inr (entityFromValue depth (key x) (val x))) = mset (json_leaves (key x) (val x))"
    if "x \<in> set xs" for x
    using collect_ok [OF assms that] entity_leaves_exact [of depth "key x" "val x"]
    by (cases "entityFromValue depth (key x) (val x)") auto
  from collect_leaves [OF assms this]
  have "mset (map (\<lambda>(k, v). ([k], v)) ps @ concat (map entity_leaves cs)) =
      mset (concat (map (\<lambda>x. json_leaves (key x) (val x)) xs))"
    by (simp add: mset_concat_sum o_def)
  moreover have "ps = []"
    using assms
  proof (induction xs arbitrary: ps cs)
    case (Cons x xs)
    then show ?case
      by (cases "entityFromValue depth (key x) (val x)") (auto split: sum.splits prod.splits)
  qed simp
  ultimately show ?thesis by simp
qed

lemma input_leaves_JObj:
  "mset (input_leaves (JObj m)) =
     mset (under ''object'' (map (\<lambda>(k, j). ([k], scalarString j))
       (filter (\<lambda>(k, j). \<not> isContainer j) (sort_key fst m)))) +
     mset (concat (map (\<lambda>(k, j). json_leaves k j) (filter (\<lambda>(k, j). isContainer j) (sort_key fst m))))"
proof -
  let ?f = "\<lambda>(k, j). if isContainer j then json_leaves k j else [([''object'', k], scalarString j)]"
  have "mset (concat (map ?f xs)) =
     mset (under ''object'' (map (\<lambda>(k, j). ([k], scalarString j)) (filter (\<lambda>(k, j). \<not> isContainer j) xs))) +
     mset (concat (map (\<lambda>(k, j). json_leaves k j) (filter (\<lambda>(k, j). isContainer j) xs)))" for xs
    by (induction xs) (auto simp: under_def)
  moreover have "mset (concat (map ?f (sort_key fst m))) = mset (concat (map ?f m))"
    using sum_list_sort_key [of "\<lambda>x. mset (?f x)" fst m] by (simp add: mset_concat_sum o_def)
  ultimately show ?thesis by simp
qed

lemma entityFromValue_error: "entityFromValue depth key v = Inl e \<Longrightarrow> e = too_deep"
proof (induction v arbitrary: depth key rule: measure_induct_rule [of size])
  case (less v)
  show ?case
  proof (cases v)
    case (JObj m)
    let ?f = "\<lambda>(k, j). if isContainer j then Inr (entityFromValue (depth + 1) k j)
      else Inl (k, scalarString j)"
    from less.prems have "e = too_deep \<or> collect (map ?f (sort_key fst m)) = Inl e"
      by (auto simp: JObj entityFromValue.simps [of depth] split: if_splits sum.splits prod.splits)
    then show ?thesis
    proof
      assume "collect (map ?f (sort_key fst m)) = Inl e"
      from collect_error [OF this] obtain k j where "(k, j) \<in> set m" "entityFromValue (depth + 1) k j = Inl e"
        by (auto split: if_splits)
      then show ?thesis using less.IH JObj size_entry by blast
    qed
  next
    case (JArr xs)
    let ?f = "\<lambda>j. Inr (entityFromValue (depth + 1) key j)"
    from less.prems have "e = too_deep \<or> collect (map ?f xs) = Inl e"
      by (auto simp: JArr entityFromValue.simps [of depth] split: if_splits sum.splits prod.splits)
    then show ?thesis
    proof
      assume "collect (map ?f xs) = Inl e"
      from collect_error [OF this] show ?thesis using less.IH JArr size_item by fastforce
    qed
  qed (use less.prems in \<open>auto simp: entityFromValue.simps [of depth] split: if_splits\<close>)
qed

text \<open>The children that \<open>Translate\<close> makes at depth one.\<close>

lemma children_result:
  "case collect (map (\<lambda>x. Inr (entityFromValue 1 (key x) (val x))) xs) of
     Inl e \<Rightarrow> e = too_deep \<and> \<not> (\<forall>x \<in> set xs. nesting (val x) \<le> maxDepth)
   | Inr (ps, cs) \<Rightarrow> (\<forall>x \<in> set xs. nesting (val x) \<le> maxDepth) \<and>
       mset (concat (map entity_leaves cs)) =
         mset (concat (map (\<lambda>x. json_leaves (key x) (val x)) xs))"
proof -
  have fits: "(\<exists>e. entityFromValue 1 (key x) (val x) = Inr e) \<longleftrightarrow> nesting (val x) \<le> maxDepth" for x
    using entityFromValue_fits [of maxDepth "key x" "val x"] by simp
  show ?thesis
  proof (cases "collect (map (\<lambda>x. Inr (entityFromValue 1 (key x) (val x))) xs)")
    case (Inl e)
    from collect_error [OF Inl] obtain x where x: "x \<in> set xs" "entityFromValue 1 (key x) (val x) = Inl e"
      by auto
    then have "\<not> nesting (val x) \<le> maxDepth" by (simp flip: fits)
    with x entityFromValue_error [OF x(2)] show ?thesis unfolding Inl by auto
  next
    case (Inr r)
    then have "\<forall>x \<in> set xs. nesting (val x) \<le> maxDepth"
      using collect_fits_children [of "\<lambda>x. entityFromValue 1 (key x) (val x)" xs] fits by auto
    moreover obtain ps cs where r: "r = (ps, cs)" by (cases r)
    ultimately show ?thesis
      using children_leaves [OF Inr [unfolded r]] unfolding Inr r by simp
  qed
qed

lemma Translate_lossless:
  "case GenericTranslate input source scope time of
     Inl e \<Rightarrow> e = too_deep \<and> maxDepth + 1 < nesting input
   | Inr d \<Rightarrow> nesting input \<le> maxDepth + 1 \<and>
       mset (document_leaves d) = mset (input_leaves input) \<and> dc_alerts d = [] \<and> dc_actions d = []"
proof (cases input)
  case (JObj m)
  let ?S = "filter (\<lambda>(k, j). \<not> isContainer j) (sort_key fst m)"
  let ?C = "filter (\<lambda>(k, j). isContainer j) (sort_key fst m)"
  have nest: "nesting input \<le> maxDepth + 1 \<longleftrightarrow> (\<forall>x \<in> set ?C. nesting (snd x) \<le> maxDepth)"
    using nesting_JObj_le [of m maxDepth] by (auto simp: JObj)
  have top: "document_leaves (fold AddEntity ((if ?S = [] then [] else [Entity ''object'' scope StatusEmpty []
      (map (\<lambda>(k, j). (k, scalarString j)) ?S) []]) @ cs) (generic_header source scope time)) =
      under ''object'' (map (\<lambda>(k, j). ([k], scalarString j)) ?S) @ concat (map entity_leaves cs)" for cs
    by (simp add: document_leaves_def o_def case_prod_beta') (simp add: under_def)
  have C: "(\<lambda>x. Inr (entityFromValue 1 (fst x) (snd x))) = (\<lambda>(k, j). Inr (entityFromValue 1 k j))"
    "(\<lambda>x. json_leaves (fst x) (snd x)) = (\<lambda>(k, j). json_leaves k j)"
    by auto
  note res = children_result [where key = fst and val = snd and xs = ?C, unfolded C]
  show ?thesis
  proof (cases "collect (map (\<lambda>(k, j). Inr (entityFromValue 1 k j)) ?C)")
    case (Inl e)
    then have "GenericTranslate input source scope time = Inl e"
      by (simp only: GenericTranslate_def JObj Let_def json.case sum.case)
    moreover have "\<not> nesting input \<le> maxDepth + 1" using res nest unfolding Inl by simp
    ultimately show ?thesis using res unfolding Inl by simp
  next
    case (Inr r)
    then obtain ps cs where cs: "collect (map (\<lambda>(k, j). Inr (entityFromValue 1 k j)) ?C) = Inr (ps, cs)"
      by (cases r) simp
    let ?top = "if ?S = [] then [] else [Entity ''object'' scope StatusEmpty []
      (map (\<lambda>(k, j). (k, scalarString j)) ?S) []]"
    have tr: "GenericTranslate input source scope time =
        Inr (fold AddEntity (?top @ cs) (generic_header source scope time))"
      by (simp only: GenericTranslate_def JObj Let_def json.case sum.case prod.case cs)
    have "mset (document_leaves (fold AddEntity (?top @ cs) (generic_header source scope time))) =
        mset (input_leaves input)"
      using res unfolding cs top JObj input_leaves_JObj by simp
    moreover have "nesting input \<le> maxDepth + 1" using res unfolding cs nest sum.case prod.case by (elim conjE)
    ultimately show ?thesis
      unfolding tr sum.case AddEntity_sel generic_header_sel by blast
  qed
next
  case (JArr xs)
  show ?thesis
    using children_result [where key = "\<lambda>_. ''item''" and val = "\<lambda>x. x" and xs = xs] nesting_JArr_le [of xs maxDepth]
    by (auto simp: GenericTranslate_def JArr document_leaves_def AddEntity_def under_def
        split: sum.splits prod.splits)
qed (simp_all add: GenericTranslate_def document_leaves_def AddEntity_def under_def Let_def)

text \<open>the generic translator drops nothing and invents nothing. It succeeds exactly when the input
  does not nest deeper than the bound, and then every scalar of the input, with the path of keys
  that leads to it, is a property of the document exactly as often, and there are no alerts and no
  actions.\<close>

theorem GenericTranslate_lossless:
  "case GenericTranslate input source scope time of
     Inl e \<Rightarrow> e = too_deep \<and> maxDepth + 1 < nesting input
   | Inr d \<Rightarrow> nesting input \<le> maxDepth + 1 \<and>
       mset (document_leaves d) = mset (input_leaves input) \<and> dc_alerts d = [] \<and> dc_actions d = []"
  by (rule Translate_lossless)

end
