(* ===== verification/Float64.thy ===== *)
theory Float64
  imports Complex_Main
begin

text \<open>
  The \<open>float64\<close> operations the code uses, as an argument of the definitions that use them, and their
  exact instance on the reals.
\<close>

text \<open>\<open>fp_of\<close> converts an integer. A constant like \<open>0.20\<close> is the quotient of two integers: division rounds
  correctly, so it is the nearest number.\<close>

record 'f float64_ops =
  fp_of :: "int \<Rightarrow> 'f"
  fp_add :: "'f \<Rightarrow> 'f \<Rightarrow> 'f"
  fp_mul :: "'f \<Rightarrow> 'f \<Rightarrow> 'f"
  fp_div :: "'f \<Rightarrow> 'f \<Rightarrow> 'f"
  fp_sqrt :: "'f \<Rightarrow> 'f"
  fp_log :: "'f \<Rightarrow> 'f"
  fp_lt :: "'f \<Rightarrow> 'f \<Rightarrow> bool"
  fp_le :: "'f \<Rightarrow> 'f \<Rightarrow> bool"
  fp_eq :: "'f \<Rightarrow> 'f \<Rightarrow> bool"

text \<open>Exact arithmetic on the reals, an instance of the operations.\<close>

definition real_ops :: "real float64_ops" where
  "real_ops = \<lparr> fp_of = of_int, fp_add = (+), fp_mul = (*), fp_div = (/), fp_sqrt = sqrt, fp_log = ln,
     fp_lt = (<), fp_le = (\<le>), fp_eq = (=) \<rparr>"

lemma real_ops_sel [simp]:
  "fp_of real_ops = of_int" "fp_add real_ops = (+)" "fp_mul real_ops = (*)" "fp_div real_ops = (/)"
  "fp_sqrt real_ops = sqrt" "fp_log real_ops = ln" "fp_lt real_ops = (<)" "fp_le real_ops = (\<le>)"
  "fp_eq real_ops = (=)"
  by (simp_all add: real_ops_def)

end
