(* ===== verification/K8sTranslator.thy ===== *)
theory K8sTranslator
  imports Anf Float64
begin

text \<open>
  The Kubernetes translator of \<open>translators/kubernetes/translator.go\<close>: a view of a namespace becomes
  an ANF document with entities, alerts derived from the state, and the actions the permissions
  allow. The operations on floating-point numbers (\<open>float_ops\<close>), the truncated floating-point hours of a
  duration (\<open>duration_ops\<close>) and \<open>sort.Slice\<close> are arguments; a \<open>time.Time\<close> is its RFC 3339 text,
  \<open>None\<close> when it is zero; theory ViewJson decodes a view. Counters are only compared and printed, so they are integers.
\<close>

section \<open>The view\<close>

record pod =
  pd_name :: string
  pd_phase :: string
  pd_node :: string
  pd_cpu_percent :: int
  pd_mem_percent :: int
  pd_restarts :: int
  pd_restarts24h :: int
  pd_age_days :: int

record 'f deployment =
  dp_name :: string
  dp_replicas :: int
  dp_ready_replicas :: int
  dp_image :: string
  dp_strategy :: string
  dp_max_surge :: string
  dp_max_unavailable :: string
  dp_age_days :: int
  dp_cpu_percent :: int
  dp_mem_percent :: int
  dp_requests_per_sec :: 'f
  dp_error_rate :: 'f
  dp_pods :: "pod list"
  dp_latest_image :: string

record kube_service =
  ks_name :: string
  ks_type :: string
  ks_port :: int
  ks_target_port :: int
  ks_endpoints :: int
  ks_total_pods :: int

record job =
  jb_name :: string
  jb_completed :: bool
  jb_last_run :: "string option"
  jb_duration :: int
  jb_succeeded :: bool

record cron_job =
  cj_name :: string
  cj_schedule :: string
  cj_last_run :: "string option"
  cj_next_run :: "string option"

record kube_event =
  ev_type :: string
  ev_reason :: string
  ev_object :: string
  ev_message :: string
  ev_count :: int
  ev_last_seen :: "string option"

record permissions =
  can_scale :: bool
  can_rollout :: bool
  can_restart :: bool
  can_logs :: bool
  can_exec :: bool
  can_describe :: bool

record 'f namespace_view =
  nv_cluster :: string
  nv_namespace :: string
  nv_deployments :: "'f deployment list"
  nv_services :: "kube_service list"
  nv_jobs :: "job list"
  nv_cron_jobs :: "cron_job list"
  nv_events :: "kube_event list"
  nv_permissions :: permissions

text \<open>The arithmetic, the conversion to \<open>int\<close>, and \<open>%.kf\<close> for a number of digits.\<close>

record 'f float_ops =
  fo_arith :: "'f float64_ops"
  fo_int :: "'f \<Rightarrow> int"
  fo_digits :: "nat \<Rightarrow> 'f \<Rightarrow> string"

text \<open>\<open>int(d.Hours()/24)\<close>, \<open>int(d.Hours())\<close>, \<open>int(d.Minutes())\<close>, \<open>int(d.Seconds())\<close> of a duration in
  nanoseconds.\<close>

record duration_ops =
  du_days :: "int \<Rightarrow> int"
  du_hours :: "int \<Rightarrow> int"
  du_minutes :: "int \<Rightarrow> int"
  du_seconds :: "int \<Rightarrow> int"

definition TranslatorVersion :: string where
  "TranslatorVersion = ''clawdlinux/k8s-translator:0.1.0''"

section \<open>Statuses\<close>

definition pod_degrades :: "pod \<Rightarrow> bool" where
  "pod_degrades p \<longleftrightarrow> 2 < pd_restarts24h p \<or> 90 < pd_mem_percent p"

definition deploymentStatus :: "'f deployment \<Rightarrow> string" where
  "deploymentStatus d =
     (if dp_ready_replicas d = 0 \<and> 0 < dp_replicas d then StatusFailing
      else if dp_ready_replicas d < dp_replicas d then StatusDegraded
      else if 80 < dp_mem_percent d \<or> 80 < dp_cpu_percent d then StatusDegraded
      else if list_ex pod_degrades (dp_pods d) then StatusDegraded
      else StatusHealthy)"

definition podStatus :: "pod \<Rightarrow> string" where
  "podStatus p =
     (let phase = ToLower (pd_phase p) in
      if phase = ''running'' then StatusRunning
      else if phase = ''pending'' then StatusPending
      else if phase = ''failed'' then StatusFailing
      else if phase = ''succeeded'' then StatusCompleted
      else StatusUnknown)"

section \<open>Entities\<close>

definition ratio :: "int \<Rightarrow> int \<Rightarrow> string" where
  "ratio a b = fmt_d a @ ''/'' @ fmt_d b"

definition percent :: "int \<Rightarrow> string" where
  "percent n = fmt_d n @ ''%''"

definition opt :: "bool \<Rightarrow> 'a \<Rightarrow> 'a list" where
  "opt b x = (if b then [x] else [])"

definition translatePod :: "pod \<Rightarrow> anf_entity" where
  "translatePod p =
     Entity ''pod'' (pd_name p) (podStatus p)
       (opt (pd_node p \<noteq> []) (''node'', pd_node p) @
        opt (0 < pd_cpu_percent p) (''cpu'', percent (pd_cpu_percent p)) @
        opt (0 < pd_mem_percent p) (''mem'', percent (pd_mem_percent p)) @
        [(''restarts'', fmt_d (pd_restarts p))]) [] []"

definition formatCompactNumber :: "'f float_ops \<Rightarrow> 'f \<Rightarrow> string" where
  "formatCompactNumber fo n =
     (let fp = fo_arith fo in
      if fp_le fp (fp_of fp 1000000) n then fo_digits fo 1 (fp_div fp n (fp_of fp 1000000)) @ ''M''
      else if fp_le fp (fp_of fp 1000) n then fo_digits fo 1 (fp_div fp n (fp_of fp 1000)) @ ''k''
      else if fp_eq fp n (fp_of fp (fo_int fo n)) then fmt_d (fo_int fo n)
      else fo_digits fo 1 n)"

definition float_positive :: "'f float_ops \<Rightarrow> 'f \<Rightarrow> bool" where
  "float_positive fo x = fp_lt (fo_arith fo) (fp_of (fo_arith fo) 0) x"

definition usageParts :: "'f float_ops \<Rightarrow> 'f deployment \<Rightarrow> string list" where
  "usageParts fo d =
     opt (0 < dp_cpu_percent d) (''cpu '' @ percent (dp_cpu_percent d)) @
     opt (0 < dp_mem_percent d) (''mem '' @ percent (dp_mem_percent d)) @
     opt (float_positive fo (dp_requests_per_sec d))
       (''requests:'' @ formatCompactNumber fo (dp_requests_per_sec d) @ ''/s'') @
     opt (float_positive fo (dp_error_rate d)) (''errors:'' @ fo_digits fo 2 (dp_error_rate d) @ ''%'')"

definition translateDeployment :: "'f float_ops \<Rightarrow> 'f deployment \<Rightarrow> anf_entity" where
  "translateDeployment fo d =
     (let usage = usageParts fo d in
      Entity ''deployment'' (dp_name d) (deploymentStatus d)
        ([(''replicas'', ratio (dp_ready_replicas d) (dp_replicas d))] @
         opt (0 < dp_age_days d) (''age'', fmt_d (dp_age_days d) @ ''d''))
        ([(''image'', dp_image d)] @
         opt (dp_strategy d \<noteq> [])
           (''strategy'', dp_strategy d @
              (if dp_max_surge d \<noteq> [] then '' maxSurge:'' @ dp_max_surge d else []) @
              (if dp_max_unavailable d \<noteq> [] then '' maxUnavail:'' @ dp_max_unavailable d else [])) @
         (case usage of [] \<Rightarrow> [] | u # us \<Rightarrow> [(u, Join '' '' us)]))
        (map translatePod (dp_pods d)))"

definition translateService :: "kube_service \<Rightarrow> anf_entity" where
  "translateService s =
     Entity ''service'' (ks_name s) StatusEmpty
       (opt (0 < ks_port s \<and> 0 < ks_target_port s)
          (''ports'', fmt_d (ks_port s) @ ''>'' @ fmt_d (ks_target_port s)) @
        opt (0 < ks_total_pods s) (''endpoints'', ratio (ks_endpoints s) (ks_total_pods s)))
       [(''type'', ks_type s)] []"

definition formatDurationCompact :: "duration_ops \<Rightarrow> int \<Rightarrow> string" where
  "formatDurationCompact du d =
     (if 24 * 3600000000000 \<le> d then fmt_d (du_days du d) @ ''d''
      else if 3600000000000 \<le> d then fmt_d (du_hours du d) @ ''h''
      else if 60000000000 \<le> d then fmt_d (du_minutes du d) @ ''m''
      else fmt_d (du_seconds du d) @ ''s'')"

definition at_time :: "string \<Rightarrow> string option \<Rightarrow> anf_property list" where
  "at_time key t = (case t of None \<Rightarrow> [] | Some s \<Rightarrow> [(key, s)])"

definition translateJob :: "duration_ops \<Rightarrow> job \<Rightarrow> anf_entity" where
  "translateJob du j =
     Entity ''job'' (jb_name j)
       (if \<not> jb_succeeded j \<and> jb_completed j then StatusFailing
        else if \<not> jb_completed j then StatusRunning else StatusCompleted)
       (at_time ''last'' (jb_last_run j) @
        opt (0 < jb_duration j) (''duration'', formatDurationCompact du (jb_duration j))) [] []"

definition translateCronJob :: "cron_job \<Rightarrow> anf_entity" where
  "translateCronJob c =
     Entity ''cronjob'' (cj_name c) StatusEmpty
       ([(''schedule'', cj_schedule c)] @ at_time ''last-run'' (cj_last_run c) @
        at_time ''next'' (cj_next_run c)) [] []"

section \<open>Alerts and actions\<close>

definition alert :: "string \<Rightarrow> string \<Rightarrow> string \<Rightarrow> string \<Rightarrow> (string \<times> string) list \<Rightarrow> anf_alert" where
  "alert severity typ name msg props =
     \<lparr> al_severity = severity, al_type = typ, al_name = name, al_message = msg, al_props = props \<rparr>"

definition image_outdated :: "'f deployment \<Rightarrow> bool" where
  "image_outdated d \<longleftrightarrow> dp_latest_image d \<noteq> [] \<and> dp_latest_image d \<noteq> dp_image d"

definition pod_alerts :: "pod \<Rightarrow> anf_alert list" where
  "pod_alerts p =
     opt (2 < pd_restarts24h p)
       (alert ''warning'' ''pod'' (pd_name p) (''restarts:'' @ fmt_d (pd_restarts24h p) @ ''/24h'')
          [(''threshold'', ''2'')]) @
     opt (90 < pd_mem_percent p)
       (alert ''critical'' ''pod'' (pd_name p) (''mem:'' @ percent (pd_mem_percent p))
          [(''threshold'', ''90%'')])"

definition deployment_alerts :: "'f deployment \<Rightarrow> anf_alert list" where
  "deployment_alerts d =
     opt (80 < dp_mem_percent d)
       (alert ''warning'' ''deployment'' (dp_name d) (''mem:'' @ percent (dp_mem_percent d))
          [(''threshold'', ''80%'')]) @
     opt (80 < dp_cpu_percent d)
       (alert ''warning'' ''deployment'' (dp_name d) (''cpu:'' @ percent (dp_cpu_percent d))
          [(''threshold'', ''80%'')]) @
     opt (dp_ready_replicas d < dp_replicas d)
       (alert ''critical'' ''deployment'' (dp_name d)
          (''replicas:'' @ ratio (dp_ready_replicas d) (dp_replicas d)) []) @
     opt (image_outdated d)
       (alert ''info'' ''deployment'' (dp_name d) ''image-outdated''
          [(''current'', dp_image d), (''latest'', dp_latest_image d)]) @
     concat (map pod_alerts (dp_pods d))"

definition severityRank :: "string \<Rightarrow> nat" where
  "severityRank s = (if s = ''critical'' then 0 else if s = ''warning'' then 1
     else if s = ''info'' then 2 else 3)"

text \<open>\<open>sort\<close> is \<open>sort.Slice\<close> with the less function of the code, which compares severity ranks.\<close>

definition deriveAlerts ::
    "((anf_alert \<Rightarrow> nat) \<Rightarrow> anf_alert list \<Rightarrow> anf_alert list) \<Rightarrow> 'f namespace_view \<Rightarrow> anf_alert list" where
  "deriveAlerts slice_sort v =
     slice_sort (\<lambda>a. severityRank (al_severity a)) (concat (map deployment_alerts (nv_deployments v)))"

definition kube_action :: "string \<Rightarrow> string \<Rightarrow> string \<Rightarrow> (string \<times> string) list \<Rightarrow> anf_action" where
  "kube_action verb typ name params =
     \<lparr> an_verb = verb, an_type = typ, an_name = name, an_params = params \<rparr>"

definition deployment_actions :: "permissions \<Rightarrow> 'f deployment \<Rightarrow> anf_action list" where
  "deployment_actions perms d =
     opt (can_scale perms)
       (kube_action ''scale'' ''deployment'' (dp_name d)
          [(''current'', fmt_d (dp_replicas d)), (''range'', ''1-10'')]) @
     opt (can_rollout perms \<and> image_outdated d)
       (kube_action ''rollout'' ''deployment'' (dp_name d)
          [(''to'', dp_latest_image d), (''strategy'', dp_strategy d)]) @
     opt (can_restart perms) (kube_action ''restart'' ''deployment'' (dp_name d) []) @
     concat (map (\<lambda>p. opt (can_logs perms)
       (kube_action ''logs'' ''pod'' (pd_name p) [(''since'', ''1h'')])) (dp_pods d))"

definition deriveActions :: "'f namespace_view \<Rightarrow> anf_action list" where
  "deriveActions v =
     concat (map (deployment_actions (nv_permissions v)) (nv_deployments v))"

section \<open>Translate\<close>

definition KubernetesTranslate ::
    "'f float_ops \<Rightarrow> duration_ops \<Rightarrow> ((anf_alert \<Rightarrow> nat) \<Rightarrow> anf_alert list \<Rightarrow> anf_alert list) \<Rightarrow>
     'f namespace_view \<Rightarrow> string \<Rightarrow> anf_document" where
  "KubernetesTranslate fo du slice_sort v now =
     (let doc = SetTranslator TranslatorVersion (SetTTL 60
            (NewDocument (''kubernetes/'' @ nv_cluster v) (''namespace:'' @ nv_namespace v) now));
          doc = fold AddEntity (map (translateDeployment fo) (nv_deployments v)) doc;
          doc = fold AddEntity (map translateService (nv_services v)) doc;
          doc = fold AddEntity (map (translateJob du) (nv_jobs v)) doc;
          doc = fold AddEntity (map translateCronJob (nv_cron_jobs v)) doc;
          doc = fold AddAlert (deriveAlerts slice_sort v) doc in
      fold AddAction (deriveActions v) doc)"

section \<open>Lemmas\<close>

lemma set_opt [simp]: "set (opt b x) = (if b then {x} else {})"
  unfolding opt_def by (cases b) simp_all

lemma AddAlert_sel [simp]:
  "dc_alerts (AddAlert a d) = dc_alerts d @ [a]" "dc_actions (AddAlert a d) = dc_actions d"
  "dc_entities (AddAlert a d) = dc_entities d"
  by (simp_all add: AddAlert_def)

lemma AddAction_sel [simp]:
  "dc_alerts (AddAction b d) = dc_alerts d" "dc_actions (AddAction b d) = dc_actions d @ [b]"
  "dc_entities (AddAction b d) = dc_entities d"
  by (simp_all add: AddAction_def)

lemma fold_AddAlert [simp]:
  "dc_alerts (fold AddAlert xs d) = dc_alerts d @ xs \<and> dc_actions (fold AddAlert xs d) = dc_actions d \<and>
   dc_entities (fold AddAlert xs d) = dc_entities d"
  by (induction xs arbitrary: d) simp_all

lemma fold_AddAction [simp]:
  "dc_alerts (fold AddAction xs d) = dc_alerts d \<and> dc_actions (fold AddAction xs d) = dc_actions d @ xs \<and>
   dc_entities (fold AddAction xs d) = dc_entities d"
  by (induction xs arbitrary: d) simp_all

lemma NewDocument_sel [simp]:
  "dc_alerts (NewDocument s c t) = []" "dc_actions (NewDocument s c t) = []"
  "dc_entities (NewDocument s c t) = []"
  by (simp_all add: NewDocument_def)

lemma Set_sel [simp]:
  "dc_alerts (SetTranslator n d) = dc_alerts d" "dc_actions (SetTranslator n d) = dc_actions d"
  "dc_entities (SetTranslator n d) = dc_entities d"
  "dc_alerts (SetTTL k d) = dc_alerts d" "dc_actions (SetTTL k d) = dc_actions d"
  "dc_entities (SetTTL k d) = dc_entities d"
  by (simp_all add: SetTranslator_def SetTTL_def)

lemma Translate_sel:
  "dc_alerts (KubernetesTranslate fo du srt v now) = deriveAlerts srt v \<and>
   dc_actions (KubernetesTranslate fo du srt v now) = deriveActions v \<and>
   dc_entities (KubernetesTranslate fo du srt v now) =
     map (translateDeployment fo) (nv_deployments v) @ map translateService (nv_services v) @
     map (translateJob du) (nv_jobs v) @ map translateCronJob (nv_cron_jobs v)"
  by (simp add: KubernetesTranslate_def Let_def)

lemma translated_type:
  "e_type (translateDeployment fo d) = ''deployment''"
  "e_status (translateDeployment fo d) = deploymentStatus d"
  "e_type (translateService s) = ''service''" "e_type (translateJob du j) = ''job''"
  "e_type (translateCronJob c) = ''cronjob''"
  by (simp_all add: translateDeployment_def translateService_def translateJob_def
      translateCronJob_def Let_def)

text \<open>A deployment is reported healthy exactly when it gives rise to no alert beyond \<open>info\<close>.\<close>

lemma pod_alerts_info:
  "list_all (\<lambda>a. al_severity a = ''info'') (pod_alerts p) \<longleftrightarrow> \<not> pod_degrades p"
  by (auto simp: pod_alerts_def pod_degrades_def list_all_iff alert_def)

lemma healthy_iff:
  "deploymentStatus d = StatusHealthy \<longleftrightarrow>
     list_all (\<lambda>a. al_severity a = ''info'') (deployment_alerts d)"
proof -
  have "list_all (\<lambda>a. al_severity a = ''info'') (deployment_alerts d) \<longleftrightarrow>
      dp_mem_percent d \<le> 80 \<and> dp_cpu_percent d \<le> 80 \<and> dp_replicas d \<le> dp_ready_replicas d \<and>
      \<not> list_ex pod_degrades (dp_pods d)"
    using pod_alerts_info by (auto simp: deployment_alerts_def list_all_iff list_ex_iff alert_def)
  moreover have "deploymentStatus d = StatusHealthy \<longleftrightarrow>
      dp_mem_percent d \<le> 80 \<and> dp_cpu_percent d \<le> 80 \<and> dp_replicas d \<le> dp_ready_replicas d \<and>
      \<not> list_ex pod_degrades (dp_pods d)"
    by (simp add: deploymentStatus_def StatusHealthy_def StatusFailing_def StatusDegraded_def not_less)
  ultimately show ?thesis by simp
qed

fun entity_tree :: "anf_entity \<Rightarrow> anf_entity list" where
  "entity_tree (Entity t n st inl ps cs) = Entity t n st inl ps cs # concat (map entity_tree cs)"

definition document_entities :: "anf_document \<Rightarrow> anf_entity list" where
  "document_entities d = concat (map entity_tree (dc_entities d))"

definition permitted :: "permissions \<Rightarrow> string \<Rightarrow> bool" where
  "permitted perms verb \<longleftrightarrow> verb = ''scale'' \<and> can_scale perms \<or> verb = ''rollout'' \<and> can_rollout perms \<or>
     verb = ''restart'' \<and> can_restart perms \<or> verb = ''logs'' \<and> can_logs perms"

lemma deployment_in_tree:
  "\<exists>e \<in> set (entity_tree (translateDeployment fo d)). e_type e = ''deployment'' \<and> e_name e = dp_name d"
  by (simp add: translateDeployment_def Let_def)

lemma pod_in_tree:
  "p \<in> set (dp_pods d) \<Longrightarrow>
     \<exists>e \<in> set (entity_tree (translateDeployment fo d)). e_type e = ''pod'' \<and> e_name e = pd_name p"
  by (auto simp: translateDeployment_def translatePod_def Let_def)

lemma deployment_actions_cases:
  assumes "a \<in> set (deployment_actions perms d)"
  shows "permitted perms (an_verb a) \<and> (an_verb a = ''rollout'' \<longrightarrow> image_outdated d) \<and>
    (an_type a = ''deployment'' \<and> an_name a = dp_name d \<or>
     an_type a = ''pod'' \<and> (\<exists>p \<in> set (dp_pods d). an_name a = pd_name p))"
  using assms by (auto simp: deployment_actions_def kube_action_def permitted_def split: if_splits)

section \<open>Properties\<close>

lemma Translate_actions:
  assumes "a \<in> set (dc_actions (KubernetesTranslate fo du srt v now))"
  shows "permitted (nv_permissions v) (an_verb a) \<and>
    (\<exists>e \<in> set (document_entities (KubernetesTranslate fo du srt v now)).
       e_type e = an_type a \<and> e_name e = an_name a) \<and>
    (an_verb a = ''rollout'' \<longrightarrow> (\<exists>d \<in> set (nv_deployments v). image_outdated d \<and> an_name a = dp_name d))"
proof -
  let ?D = "KubernetesTranslate fo du srt v now"
  from assms obtain d where d: "d \<in> set (nv_deployments v)" "a \<in> set (deployment_actions (nv_permissions v) d)"
    by (auto simp: Translate_sel deriveActions_def)
  note c = deployment_actions_cases [OF d(2)]
  have sub: "set (entity_tree (translateDeployment fo d)) \<subseteq> set (document_entities ?D)"
    using d(1) by (auto simp: document_entities_def Translate_sel)
  have "\<exists>e \<in> set (document_entities ?D). e_type e = an_type a \<and> e_name e = an_name a"
    using c subsetD [OF sub] deployment_in_tree [of fo d] pod_in_tree [of _ d fo] by metis
  moreover have "an_verb a = ''rollout'' \<Longrightarrow> an_name a = dp_name d"
    using d(2) by (auto simp: deployment_actions_def kube_action_def split: if_splits)
  ultimately show ?thesis using c d(1) by blast
qed

text \<open>C38: least privilege: every action of a translated namespace is permitted to the agent, acts on a
  deployment or pod that the document shows, and a rollout is only offered for an outdated image.\<close>

theorem actions_permitted_and_grounded:
  assumes "a \<in> set (dc_actions (KubernetesTranslate fo du srt v now))"
  shows "permitted (nv_permissions v) (an_verb a) \<and>
    (\<exists>e \<in> set (document_entities (KubernetesTranslate fo du srt v now)).
       e_type e = an_type a \<and> e_name e = an_name a) \<and>
    (an_verb a = ''rollout'' \<longrightarrow> (\<exists>d \<in> set (nv_deployments v). image_outdated d \<and> an_name a = dp_name d))"
  using assms by (rule Translate_actions)

text \<open>C39: alerts and statuses agree. With a \<open>sort.Slice\<close> that sorts, the alerts of the document are
  those derived from the deployments, critical ones first, and all deployments are reported healthy
  exactly when no alert is worse than \<open>info\<close>.\<close>

theorem alerts_agree_with_statuses:
  assumes "\<And>f xs. mset (srt f xs) = mset xs \<and> sorted (map f (srt f xs))"
  shows "let D = KubernetesTranslate fo du srt v now in
    sorted (map (\<lambda>a. severityRank (al_severity a)) (dc_alerts D)) \<and>
    mset (dc_alerts D) = mset (concat (map deployment_alerts (nv_deployments v))) \<and>
    (list_all (\<lambda>e. e_type e = ''deployment'' \<longrightarrow> e_status e = StatusHealthy) (dc_entities D) \<longleftrightarrow>
     list_all (\<lambda>a. al_severity a = ''info'') (dc_alerts D))"
proof -
  define D where "D = KubernetesTranslate fo du srt v now"
  let ?as = "concat (map deployment_alerts (nv_deployments v))"
  have alerts: "dc_alerts D = srt (\<lambda>a. severityRank (al_severity a)) ?as"
    by (simp add: D_def Translate_sel deriveAlerts_def)
  have m: "mset (dc_alerts D) = mset ?as" using assms(1) alerts by simp
  then have s: "set (dc_alerts D) = set ?as" by (metis set_mset_mset)
  have ents: "dc_entities D = map (translateDeployment fo) (nv_deployments v) @
      map translateService (nv_services v) @ map (translateJob du) (nv_jobs v) @
      map translateCronJob (nv_cron_jobs v)"
    by (simp add: D_def Translate_sel)
  have "list_all (\<lambda>e. e_type e = ''deployment'' \<longrightarrow> e_status e = StatusHealthy) (dc_entities D) \<longleftrightarrow>
      (\<forall>d \<in> set (nv_deployments v). deploymentStatus d = StatusHealthy)"
    unfolding ents list_all_iff set_append set_map ball_Un ball_simps(9) by (simp add: translated_type)
  also have "\<dots> \<longleftrightarrow> list_all (\<lambda>a. al_severity a = ''info'') (dc_alerts D)"
    unfolding healthy_iff list_all_iff s by auto
  finally show ?thesis using m alerts assms(1) unfolding D_def [symmetric] Let_def by simp
qed

definition demo_floats :: "int float_ops" where
  "demo_floats = \<lparr> fo_arith = \<lparr> fp_of = id, fp_add = (+), fp_mul = (*), fp_div = (div), fp_sqrt = id,
       fp_log = id, fp_lt = (<), fp_le = (\<le>), fp_eq = (=) \<rparr>,
     fo_int = id, fo_digits = (\<lambda>k. fmt_d) \<rparr>"

definition demo_durations :: duration_ops where
  "demo_durations = \<lparr> du_days = (\<lambda>d. d div 86400000000000), du_hours = (\<lambda>d. d div 3600000000000),
     du_minutes = (\<lambda>d. d div 60000000000), du_seconds = (\<lambda>d. d div 1000000000) \<rparr>"

definition demo_view :: "int namespace_view" where
  "demo_view = \<lparr> nv_cluster = ''c'', nv_namespace = ''pay'',
     nv_deployments = [\<lparr> dp_name = ''api'', dp_replicas = 3, dp_ready_replicas = 2, dp_image = ''api:1'',
       dp_strategy = ''RollingUpdate'', dp_max_surge = ''1'', dp_max_unavailable = [], dp_age_days = 4,
       dp_cpu_percent = 85, dp_mem_percent = 10, dp_requests_per_sec = 7, dp_error_rate = 0,
       dp_pods = [\<lparr> pd_name = ''api-0'', pd_phase = ''Running'', pd_node = ''n1'', pd_cpu_percent = 1,
         pd_mem_percent = 2, pd_restarts = 0, pd_restarts24h = 0, pd_age_days = 1 \<rparr>],
       dp_latest_image = ''api:2'' \<rparr>],
     nv_services = [], nv_jobs = [], nv_cron_jobs = [], nv_events = [],
     nv_permissions = \<lparr> can_scale = False, can_rollout = True, can_restart = False, can_logs = True,
       can_exec = True, can_describe = True \<rparr> \<rparr>"

theorem actions_permitted_and_grounded_witness:
  "an_verb (hd (dc_actions (KubernetesTranslate demo_floats demo_durations sort_key demo_view []))) = ''rollout'' \<and>
   (\<exists>d \<in> set (nv_deployments demo_view). image_outdated d \<and> dp_name d = ''api'')"
proof -
  let ?D = "KubernetesTranslate demo_floats demo_durations sort_key demo_view []"
  have v: "map an_verb (dc_actions ?D) = [''rollout'', ''logs'']" "map an_name (dc_actions ?D) = [''api'', ''api-0'']"
    by code_simp+
  then obtain a as where a: "dc_actions ?D = a # as" by (cases "dc_actions ?D") auto
  have "a \<in> set (dc_actions ?D)" by (simp add: a)
  from actions_permitted_and_grounded [OF this] v show ?thesis by (auto simp: a)
qed

theorem alerts_agree_with_statuses_witness:
  "map al_severity (dc_alerts (KubernetesTranslate demo_floats demo_durations sort_key demo_view [])) =
     [''critical'', ''warning'', ''info''] \<and>
   \<not> list_all (\<lambda>e. e_type e = ''deployment'' \<longrightarrow> e_status e = StatusHealthy)
     (dc_entities (KubernetesTranslate demo_floats demo_durations sort_key demo_view []))"
proof -
  let ?D = "KubernetesTranslate demo_floats demo_durations sort_key demo_view []"
  have "mset (sort_key f xs) = mset xs \<and> sorted (map f (sort_key f xs))"
    for f :: "anf_alert \<Rightarrow> nat" and xs by simp
  from alerts_agree_with_statuses [of sort_key, OF this]
  have "list_all (\<lambda>e. e_type e = ''deployment'' \<longrightarrow> e_status e = StatusHealthy) (dc_entities ?D) \<longleftrightarrow>
      list_all (\<lambda>a. al_severity a = ''info'') (dc_alerts ?D)"
    unfolding Let_def by blast
  moreover have "map al_severity (dc_alerts ?D) = [''critical'', ''warning'', ''info'']" by code_simp
  then have "\<not> list_all (\<lambda>a. al_severity a = ''info'') (dc_alerts ?D)"
    by (cases "dc_alerts ?D") auto
  ultimately show ?thesis
    using \<open>map al_severity (dc_alerts ?D) = [''critical'', ''warning'', ''info'']\<close> by blast
qed

end
