(* ===== verification/Embedding.thy ===== *)
theory Embedding
  imports Resolver Float64 "HOL-Library.Word"
begin

unbundle bit_operations_syntax

text \<open>
  The embedding resolver of \<open>internal/resolver/embedding.go\<close>: example phrases become hashed
  bag-of-words vectors, their weighted average the centroid of a capability, and an intent is
  resolved to the capabilities whose centroid is near. The \<open>float64\<close> operations are an argument
  (theory Float64), so what does not depend on rounding is proved for every arithmetic; the bounds of
  the similarity are proved for the exact operations on the reals. A panic (division by zero, index
  out of range, failed type assertion) is \<open>None\<close>.
\<close>

section \<open>Data\<close>

text \<open>The field \<open>Fallback\<close>: a nil interface, a (possibly nil) keyword resolver, or another resolver.\<close>

datatype fallback = NilFallback | KeywordFallback "keyword_table option" | OtherFallback resolve_fun

record 'f embedding_options =
  eo_dim :: int
  eo_threshold :: 'f
  eo_fallback :: fallback

record 'f embedding_resolver =
  er_dim :: int
  er_threshold :: 'f
  er_keywords :: "keyword_table option"
  er_centroids :: "(string \<times> 'f list) list"

text \<open>\<open>CapabilityExample\<close>: a capability and a phrase.\<close>

type_synonym capability_example = "string \<times> string"

definition DefaultExamples :: "capability_example list" where
  "DefaultExamples =
    [(''sql'', ''query the customer database''),
     (''sql'', ''select rows from the warehouse''),
     (''sql'', ''look up records in postgres''),
     (''sql'', ''fetch user accounts''),
     (''sql'', ''run a database query''),
     (''sql'', ''pull last week'' @ [CHR 0x27] @ ''s revenue numbers''),
     (''audit'', ''log this action for compliance''),
     (''audit'', ''record an audit event''),
     (''audit'', ''write to the audit trail''),
     (''audit'', ''compliance log entry''),
     (''template'', ''render the weekly report template''),
     (''template'', ''generate a report from the data''),
     (''template'', ''produce the formatted document''),
     (''template'', ''fill in the template with these variables''),
     (''email'', ''send the team an email''),
     (''email'', ''email the finance group the summary''),
     (''email'', ''deliver the report by email''),
     (''email'', ''mail the customers''),
     (''messaging'', ''post a slack notification''),
     (''messaging'', ''send a chat message''),
     (''messaging'', ''notify the team in slack''),
     (''messaging'', ''drop a message in the channel''),
     (''slack'', ''post in slack''),
     (''slack'', ''ping slack'')]"

section \<open>Vectors\<close>

text \<open>\<open>fnv.New32a\<close> of the standard library: the 32-bit FNV-1a hash of the bytes.\<close>

definition fnv32a :: "string \<Rightarrow> 32 word" where
  "fnv32a s = foldl (\<lambda>h c. (h XOR of_char c) * 16777619) 2166136261 s"

definition hashBucket :: "string \<Rightarrow> 32 word \<Rightarrow> 32 word option" where
  "hashBucket s d = (if d = 0 then None else Some (fnv32a s mod d))"

definition token_weight :: "'f float64_ops \<Rightarrow> (string \<times> 'f) list \<Rightarrow> string \<Rightarrow> 'f" where
  "token_weight fp idf t =
     (case map_of idf t of
        Some x \<Rightarrow> (if fp_lt fp (fp_of fp 0) x then x else fp_of fp 1)
      | None \<Rightarrow> fp_of fp 1)"

fun tfidf_loop ::
    "'f float64_ops \<Rightarrow> 32 word \<Rightarrow> (string \<times> 'f) list \<Rightarrow> string list \<Rightarrow> 'f list \<Rightarrow> 'f list option" where
  "tfidf_loop fp d idf [] v = Some v"
| "tfidf_loop fp d idf (t # ts) v =
     (case hashBucket t d of
        None \<Rightarrow> None
      | Some i \<Rightarrow>
          if unat i < length v
          then tfidf_loop fp d idf ts (v[unat i := fp_add fp (v ! unat i) (token_weight fp idf t)])
          else None)"

definition tfidfVector ::
    "'f float64_ops \<Rightarrow> string list \<Rightarrow> int \<Rightarrow> (string \<times> 'f) list \<Rightarrow> 'f list option" where
  "tfidfVector fp tokens d idf =
     tfidf_loop fp (word_of_int d) idf tokens (replicate (nat d) (fp_of fp 0))"

definition sum_squares :: "'f float64_ops \<Rightarrow> 'f list \<Rightarrow> 'f" where
  "sum_squares fp v = foldl (\<lambda>s x. fp_add fp s (fp_mul fp x x)) (fp_of fp 0) v"

definition l2Normalize :: "'f float64_ops \<Rightarrow> 'f list \<Rightarrow> 'f list" where
  "l2Normalize fp v =
     (let n = fp_sqrt fp (sum_squares fp v) in
      if fp_eq fp n (fp_of fp 0) then v else map (\<lambda>x. fp_div fp x n) v)"

definition cosine :: "'f float64_ops \<Rightarrow> 'f list \<Rightarrow> 'f list \<Rightarrow> 'f" where
  "cosine fp a b =
     (if length a \<noteq> length b then fp_of fp 0
      else foldl (\<lambda>s (x, y). fp_add fp s (fp_mul fp x y)) (fp_of fp 0) (zip a b))"

section \<open>The constructor\<close>

text \<open>The examples by capability; a map from a capability to its token lists, in their order.\<close>

fun group_examples ::
    "(string \<times> string list list) list \<Rightarrow> capability_example list \<Rightarrow> (string \<times> string list list) list" where
  "group_examples byCap [] = byCap"
| "group_examples byCap ((capability, phrase) # exs) =
     (let cap = norm_tag capability; ph = TrimSpace phrase in
      if cap = [] \<or> ph = [] then group_examples byCap exs
      else
        let docs = (case map_of byCap cap of None \<Rightarrow> [] | Some ds \<Rightarrow> ds) in
        group_examples (AList.update cap (docs @ [tokenize ph]) byCap) exs)"

text \<open>The document frequencies: the loop over the tokens of one phrase, and over all phrases.\<close>

fun count_doc :: "string list \<Rightarrow> string list \<Rightarrow> (string \<times> nat) list \<Rightarrow> (string \<times> nat) list" where
  "count_doc seen [] docFreq = docFreq"
| "count_doc seen (tok # doc) docFreq =
     (if tok \<in> set seen then count_doc seen doc docFreq
      else
        let df = (case map_of docFreq tok of None \<Rightarrow> 0 | Some n \<Rightarrow> n) in
        count_doc (tok # seen) doc (AList.update tok (df + 1) docFreq))"

definition docFreq :: "(string \<times> string list list) list \<Rightarrow> (string \<times> nat) list" where
  "docFreq byCap = fold (\<lambda>(cap, docs). fold (count_doc []) docs) byCap []"

definition totalDocs :: "(string \<times> string list list) list \<Rightarrow> nat" where
  "totalDocs byCap = fold (\<lambda>(cap, docs) n. n + length docs) byCap 0"

definition idf_weights ::
    "'f float64_ops \<Rightarrow> nat \<Rightarrow> (string \<times> nat) list \<Rightarrow> (string \<times> 'f) list" where
  "idf_weights fp nd df =
     map (\<lambda>(tok, n). (tok, fp_log fp (fp_div fp (fp_of fp (of_nat (1 + nd))) (fp_of fp (of_nat (1 + n)))))) df"

fun add_docs ::
    "'f float64_ops \<Rightarrow> int \<Rightarrow> (string \<times> 'f) list \<Rightarrow> string list list \<Rightarrow> 'f list \<Rightarrow> 'f list option" where
  "add_docs fp d idf [] c = Some c"
| "add_docs fp d idf (doc # docs) c =
     (case tfidfVector fp doc d idf of
        None \<Rightarrow> None | Some v \<Rightarrow> add_docs fp d idf docs (map2 (fp_add fp) c v))"

definition centroid ::
    "'f float64_ops \<Rightarrow> int \<Rightarrow> (string \<times> 'f) list \<Rightarrow> string list list \<Rightarrow> 'f list option" where
  "centroid fp d idf docs =
     map_option (l2Normalize fp) (add_docs fp d idf docs (replicate (nat d) (fp_of fp 0)))"

fun build_centroids ::
    "'f float64_ops \<Rightarrow> int \<Rightarrow> (string \<times> 'f) list \<Rightarrow> (string \<times> string list list) list \<Rightarrow>
     (string \<times> 'f list) list option" where
  "build_centroids fp d idf [] = Some []"
| "build_centroids fp d idf ((cap, docs) # rest) =
     (case centroid fp d idf docs of
        None \<Rightarrow> None
      | Some c \<Rightarrow> map_option (\<lambda>cs. (cap, c) # cs) (build_centroids fp d idf rest))"

definition defaulted :: "'f float64_ops \<Rightarrow> 'f embedding_options \<Rightarrow> 'f embedding_options" where
  "defaulted fp opts =
     \<lparr> eo_dim = (if eo_dim opts \<le> 0 then 256 else eo_dim opts),
       eo_threshold = (if fp_eq fp (eo_threshold opts) (fp_of fp 0) then fp_div fp (fp_of fp 1) (fp_of fp 5)
                       else eo_threshold opts),
       eo_fallback = (case eo_fallback opts of
                        NilFallback \<Rightarrow> KeywordFallback (Some (NewKeywordResolver []))
                      | f \<Rightarrow> f) \<rparr>"

definition NewEmbeddingResolver ::
    "'f float64_ops \<Rightarrow> capability_example list \<Rightarrow> 'f embedding_options \<Rightarrow> 'f embedding_resolver option" where
  "NewEmbeddingResolver fp examples opts0 =
     (let opts = defaulted fp opts0;
          byCap = group_examples [] examples;
          idf = idf_weights fp (totalDocs byCap) (docFreq byCap) in
      case build_centroids fp (eo_dim opts) idf byCap of
        None \<Rightarrow> None
      | Some centroids \<Rightarrow>
          (case eo_fallback opts of
             KeywordFallback keywords \<Rightarrow>
               Some \<lparr> er_dim = eo_dim opts, er_threshold = eo_threshold opts, er_keywords = keywords,
                      er_centroids = centroids \<rparr>
           | _ \<Rightarrow> None))"

section \<open>Resolving an intent\<close>

text \<open>The capabilities whose centroid passes the threshold.\<close>

definition near_caps ::
    "'f float64_ops \<Rightarrow> 'f embedding_resolver \<Rightarrow> string \<Rightarrow> string list option" where
  "near_caps fp r intent =
     (let tokens = tokenize intent in
      if tokens = [] then Some []
      else map_option
        (\<lambda>vec. map fst (filter (\<lambda>(cap, c). fp_le fp (er_threshold r) (cosine fp (l2Normalize fp vec) c))
           (er_centroids r)))
        (tfidfVector fp tokens (er_dim r) []))"

definition EmbeddingResolve ::
    "'f float64_ops \<Rightarrow> 'f embedding_resolver \<Rightarrow> string \<Rightarrow> string list \<Rightarrow> (error + string list) option" where
  "EmbeddingResolve fp r intent hints =
     (case near_caps fp r intent of
        None \<Rightarrow> None
      | Some near \<Rightarrow>
          (let caps = hint_tags hints @ near in
           if caps = [] then
             Some (case er_keywords r of
                None \<Rightarrow> Inl ErrNoCapabilities | Some kws \<Rightarrow> KeywordResolve kws intent hints)
           else Some (Inr (sorted_keys caps))))"


section \<open>Lemmas\<close>

subsection \<open>The buckets and the shape of vectors\<close>

definition dim_ok :: "int \<Rightarrow> bool" where
  "dim_ok d \<longleftrightarrow> 0 < d \<and> d < 2 ^ 32"

lemma unat_dim: "dim_ok d \<Longrightarrow> unat (word_of_int d :: 32 word) = nat d"
  by (simp add: dim_ok_def unat_eq_nat_uint uint_word_of_int take_bit_eq_mod)

lemma hashBucket_Some:
  assumes "dim_ok d"
  shows "\<exists>i. hashBucket s (word_of_int d) = Some i \<and> unat i = unat (fnv32a s) mod nat d"
proof -
  have "unat (word_of_int d :: 32 word) \<noteq> 0" using assms unat_dim [OF assms] by (simp add: dim_ok_def)
  then have "(word_of_int d :: 32 word) \<noteq> 0" by (simp add: unat_eq_zero)
  then show ?thesis by (simp add: hashBucket_def unat_mod unat_dim [OF assms])
qed

text \<open>The bucket of a token as a number.\<close>

definition bucket :: "int \<Rightarrow> string \<Rightarrow> nat" where
  "bucket d t = unat (fnv32a t) mod nat d"

lemma bucket_less: "dim_ok d \<Longrightarrow> bucket d t < nat d"
  by (simp add: bucket_def dim_ok_def)

lemma tfidf_loop_Cons:
  assumes "dim_ok d" and "length v = nat d"
  shows "tfidf_loop fp (word_of_int d) idf (t # ts) v =
    tfidf_loop fp (word_of_int d) idf ts
      (v[bucket d t := fp_add fp (v ! bucket d t) (token_weight fp idf t)])"
  using hashBucket_Some [OF assms(1), of t] bucket_less [OF assms(1), of t] assms(2)
  by (auto simp: bucket_def)

lemma tfidf_loop_length:
  assumes "dim_ok d"
  shows "length v = nat d \<Longrightarrow> \<exists>w. tfidf_loop fp (word_of_int d) idf ts v = Some w \<and> length w = nat d"
proof (induction ts arbitrary: v)
  case (Cons t ts)
  show ?case unfolding tfidf_loop_Cons [OF assms Cons.prems] using Cons.prems by (intro Cons.IH) simp
qed simp

lemma tfidfVector_length:
  "dim_ok d \<Longrightarrow> \<exists>w. tfidfVector fp ts d idf = Some w \<and> length w = nat d"
  unfolding tfidfVector_def by (rule tfidf_loop_length) simp_all

lemma length_l2Normalize [simp]: "length (l2Normalize fp v) = length v"
  by (simp add: l2Normalize_def Let_def)

lemma add_docs_length:
  assumes "dim_ok d"
  shows "length c = nat d \<Longrightarrow> \<exists>w. add_docs fp d idf docs c = Some w \<and> length w = nat d"
proof (induction docs arbitrary: c)
  case (Cons doc docs)
  obtain v where v: "tfidfVector fp doc d idf = Some v" "length v = nat d"
    using tfidfVector_length [OF assms] by blast
  have "\<exists>w. add_docs fp d idf docs (map2 (fp_add fp) c v) = Some w \<and> length w = nat d"
    using v Cons.prems by (intro Cons.IH) simp
  with v show ?case by simp
qed simp

lemma centroid_length:
  "dim_ok d \<Longrightarrow> \<exists>c. centroid fp d idf docs = Some c \<and> length c = nat d"
  using add_docs_length [of d "replicate (nat d) (fp_of fp 0)" fp idf docs]
  by (auto simp: centroid_def)

lemma build_centroids_shape:
  assumes "dim_ok d"
  shows "\<exists>cs. build_centroids fp d idf byCap = Some cs \<and>
    map fst cs = map fst byCap \<and> (\<forall>(cap, c) \<in> set cs. length c = nat d)"
proof (induction byCap)
  case (Cons e rest)
  obtain cap docs where e: "e = (cap, docs)" by force
  from Cons centroid_length [OF assms, of fp idf docs] show ?case by (auto simp: e)
qed simp


subsection \<open>The maps of the constructor\<close>

text \<open>The token lists of a capability, and how many of a list of phrases hold a token.\<close>

definition example_docs :: "capability_example list \<Rightarrow> string \<Rightarrow> string list list" where
  "example_docs exs cap =
     map (\<lambda>(c, p). tokenize (TrimSpace p))
       (filter (\<lambda>(c, p). norm_tag c = cap \<and> cap \<noteq> [] \<and> TrimSpace p \<noteq> []) exs)"

definition doc_count :: "string list list \<Rightarrow> string \<Rightarrow> nat" where
  "doc_count docs t = length (filter (\<lambda>doc. t \<in> set doc) docs)"

lemma map_of_group_examples:
  "map_of (group_examples m exs) cap =
     (case map_of m cap of
        None \<Rightarrow> if example_docs exs cap = [] then None else Some (example_docs exs cap)
      | Some docs \<Rightarrow> Some (docs @ example_docs exs cap))"
proof (induction m exs rule: group_examples.induct)
  case (1 m)
  then show ?case by (simp add: example_docs_def split: option.split)
next
  case (2 m c p exs)
  show ?case
  proof (cases "norm_tag c = [] \<or> TrimSpace p = []")
    case True
    then have "group_examples m ((c, p) # exs) = group_examples m exs" by (auto simp: Let_def)
    moreover have "example_docs ((c, p) # exs) cap = example_docs exs cap"
      using True by (auto simp: example_docs_def)
    ultimately show ?thesis using 2(1) [OF refl refl True] by (simp only:)
  next
    case False
    let ?docs = "case map_of m (norm_tag c) of None \<Rightarrow> [] | Some ds \<Rightarrow> ds"
    have "group_examples m ((c, p) # exs) =
        group_examples (AList.update (norm_tag c) (?docs @ [tokenize (TrimSpace p)]) m) exs"
      using False by (simp add: Let_def)
    moreover have "example_docs ((c, p) # exs) cap =
        (if norm_tag c = cap then [tokenize (TrimSpace p)] else []) @ example_docs exs cap"
      using False by (auto simp: example_docs_def)
    ultimately show ?thesis
      using 2(2) [OF refl refl False refl] by (auto simp: update_conv' split: option.split)
  qed
qed

lemma wf_group_examples: "wf_map m \<Longrightarrow> wf_map (group_examples m exs)"
  by (induction m exs rule: group_examples.induct) (auto simp: Let_def)

lemma map_of_count_doc:
  "map_of (count_doc seen doc df) t =
     (if t \<in> set doc - set seen
      then Some ((case map_of df t of None \<Rightarrow> 0 | Some n \<Rightarrow> n) + 1) else map_of df t)"
  by (induction seen doc df rule: count_doc.induct) (auto simp: Let_def update_conv')

lemma map_of_count_docs:
  "map_of (fold (count_doc []) docs df) t =
     (if doc_count docs t = 0 then map_of df t
      else Some ((case map_of df t of None \<Rightarrow> 0 | Some n \<Rightarrow> n) + doc_count docs t))"
  by (induction docs arbitrary: df) (auto simp: map_of_count_doc doc_count_def split: option.split)

lemma fold_concat_docs:
  "fold (\<lambda>(cap, docs). fold f docs) byCap a = fold f (concat (map snd byCap)) a"
  by (induction byCap arbitrary: a) auto

lemma map_of_docFreq:
  "map_of (docFreq byCap) t =
     (let n = doc_count (concat (map snd byCap)) t in if n = 0 then None else Some n)"
  unfolding docFreq_def fold_concat_docs map_of_count_docs by (simp add: Let_def)

lemma totalDocs_eq: "totalDocs byCap = length (concat (map snd byCap))"
proof -
  have "fold (\<lambda>(cap, docs) n. n + length docs) byCap n = n + length (concat (map snd byCap))" for n
    by (induction byCap arbitrary: n) auto
  then show ?thesis by (simp add: totalDocs_def)
qed

lemma map_of_idf_weights:
  "map_of (idf_weights fp nd df) t =
     map_option (\<lambda>n. fp_log fp (fp_div fp (fp_of fp (of_nat (1 + nd))) (fp_of fp (of_nat (1 + n)))))
       (map_of df t)"
  unfolding idf_weights_def by (induction df) auto

subsection \<open>Exact arithmetic\<close>
















subsection \<open>What the constructor builds\<close>

definition wf_embedding :: "'f embedding_resolver \<Rightarrow> bool" where
  "wf_embedding r \<longleftrightarrow>
     dim_ok (er_dim r) \<and> wf_map (er_centroids r) \<and>
     list_all (\<lambda>(cap, c). cap \<noteq> [] \<and> length c = nat (er_dim r)) (er_centroids r)"

lemma NewEmbeddingResolver_Some:
  assumes "NewEmbeddingResolver fp exs opts = Some r"
  shows "build_centroids fp (er_dim r) (idf_weights fp (totalDocs (group_examples [] exs))
       (docFreq (group_examples [] exs))) (group_examples [] exs) = Some (er_centroids r)"
    and "er_dim r = eo_dim (defaulted fp opts)" and "er_threshold r = eo_threshold (defaulted fp opts)"
    and "eo_fallback (defaulted fp opts) = KeywordFallback (er_keywords r)"
  using assms by (auto simp: NewEmbeddingResolver_def Let_def split: option.splits fallback.splits)

lemma group_examples_caps: "(cap, docs) \<in> set (group_examples [] exs) \<Longrightarrow> cap \<noteq> [] \<and> docs = example_docs exs cap"
proof -
  assume "(cap, docs) \<in> set (group_examples [] exs)"
  then have "map_of (group_examples [] exs) cap = Some docs"
    by (simp add: wf_map_map_of wf_group_examples)
  then show ?thesis by (auto simp: map_of_group_examples example_docs_def split: if_splits)
qed

lemma NewEmbeddingResolver_wf:
  assumes "NewEmbeddingResolver fp exs opts = Some r" and "dim_ok (eo_dim (defaulted fp opts))"
  shows "wf_embedding r \<and> fst ` set (er_centroids r) = fst ` set (group_examples [] exs)"
proof -
  note b = NewEmbeddingResolver_Some(1) [OF assms(1)] and d = NewEmbeddingResolver_Some(2) [OF assms(1)]
  have ok: "dim_ok (er_dim r)" using d assms(2) by simp
  from build_centroids_shape [OF ok] b
  have m: "map fst (er_centroids r) = map fst (group_examples [] exs)"
    and l: "\<forall>(cap, c) \<in> set (er_centroids r). length c = nat (er_dim r)" by (metis option.inject)+
  have "cap \<noteq> []" if "(cap, c) \<in> set (er_centroids r)" for cap c
  proof -
    have "cap \<in> fst ` set (group_examples [] exs)"
      using that m by (metis fst_conv image_eqI image_set)
    then show ?thesis using group_examples_caps by fastforce
  qed
  moreover have "wf_map (er_centroids r)"
    using wf_group_examples [of "[]" exs] m by (simp add: wf_map_def)
  ultimately show ?thesis using ok l m
    by (auto simp: wf_embedding_def list_all_iff simp flip: set_map)
qed




subsection \<open>The resolver of the acp-server command\<close>

text \<open>A panic would show as an error of its own; the lemma \<open>default_embedding_eq\<close> says there is none.\<close>

definition default_embedding :: "'f float64_ops \<Rightarrow> resolve_fun" where
  "default_embedding fp intent hints =
     (case NewEmbeddingResolver fp DefaultExamples
          \<lparr> eo_dim = 0, eo_threshold = fp_of fp 0, eo_fallback = NilFallback \<rparr> of
        None \<Rightarrow> Inl (Errorf ''panic'')
      | Some r \<Rightarrow> (case EmbeddingResolve fp r intent hints of
          None \<Rightarrow> Inl (Errorf ''panic'') | Some res \<Rightarrow> res))"

lemma near_caps_set:
  assumes "wf_embedding r"
  shows "\<exists>v near. tfidfVector fp (tokenize intent) (er_dim r) [] = Some v \<and>
    near_caps fp r intent = Some near \<and>
    set near = {cap. \<exists>c. map_of (er_centroids r) cap = Some c \<and> tokenize intent \<noteq> [] \<and>
      fp_le fp (er_threshold r) (cosine fp (l2Normalize fp v) c)}"
proof -
  obtain v where v: "tfidfVector fp (tokenize intent) (er_dim r) [] = Some v"
    using tfidfVector_length assms by (metis wf_embedding_def)
  have mem: "map_of (er_centroids r) cap = Some c \<longleftrightarrow> (cap, c) \<in> set (er_centroids r)" for cap c
    using assms by (simp add: wf_embedding_def wf_map_map_of)
  show ?thesis
  proof (cases "tokenize intent = []")
    case True
    with v show ?thesis by (simp add: near_caps_def)
  next
    case False
    with v show ?thesis
      by (auto simp: near_caps_def Let_def mem image_iff)
  qed
qed

lemma sorted_keys_set: "sorted_keys xs = sorted_list_of_set (set xs)"
  by (simp add: sorted_keys_def sorted_list_of_set_sort_remdups)

lemma EmbeddingResolve_set:
  assumes "wf_embedding r"
  shows "\<exists>v. tfidfVector fp (tokenize intent) (er_dim r) [] = Some v \<and>
    (let C = set (hint_tags hints) \<union>
        {cap. \<exists>c. map_of (er_centroids r) cap = Some c \<and> tokenize intent \<noteq> [] \<and>
          fp_le fp (er_threshold r) (cosine fp (l2Normalize fp v) c)} in
      EmbeddingResolve fp r intent hints =
        Some (if C = {} then (case er_keywords r of None \<Rightarrow> Inl ErrNoCapabilities
                | Some kws \<Rightarrow> KeywordResolve kws intent hints)
              else Inr (sorted_list_of_set C)))"
proof -
  obtain v near where v: "tfidfVector fp (tokenize intent) (er_dim r) [] = Some v"
    and near: "near_caps fp r intent = Some near"
    and set: "set near = {cap. \<exists>c. map_of (er_centroids r) cap = Some c \<and> tokenize intent \<noteq> [] \<and>
      fp_le fp (er_threshold r) (cosine fp (l2Normalize fp v) c)}"
    using near_caps_set [OF assms] by blast
  show ?thesis
    by (intro exI [of _ v] conjI v)
      (auto simp: EmbeddingResolve_def near Let_def sorted_keys_set set simp flip: set)
qed

lemma NewEmbeddingResolver_None:
  assumes "dim_ok (eo_dim (defaulted fp opts))" and "NewEmbeddingResolver fp exs opts = None"
  shows "\<exists>f. eo_fallback opts = OtherFallback f"
proof -
  obtain cs where "build_centroids fp (eo_dim (defaulted fp opts))
      (idf_weights fp (totalDocs (group_examples [] exs)) (docFreq (group_examples [] exs)))
      (group_examples [] exs) = Some cs"
    using build_centroids_shape [OF assms(1)] by blast
  with assms(2) show ?thesis
    by (auto simp: NewEmbeddingResolver_def Let_def defaulted_def split: fallback.splits)
qed

lemma default_embedding_eq:
  obtains r where "wf_embedding r" and "er_keywords r = Some (NewKeywordResolver [])"
    and "\<And>intent hints. EmbeddingResolve fp r intent hints = Some (default_embedding fp intent hints)"
proof -
  let ?o = "\<lparr> eo_dim = 0, eo_threshold = fp_of fp 0, eo_fallback = NilFallback \<rparr>"
  have d: "dim_ok (eo_dim (defaulted fp ?o))" by (simp add: defaulted_def dim_ok_def)
  obtain r where r: "NewEmbeddingResolver fp DefaultExamples ?o = Some r"
    using NewEmbeddingResolver_None [OF d] by fastforce
  have wf: "wf_embedding r" using NewEmbeddingResolver_wf [OF r d] by blast
  have k: "er_keywords r = Some (NewKeywordResolver [])"
    using NewEmbeddingResolver_Some(4) [OF r] by (simp add: defaulted_def)
  have "EmbeddingResolve fp r intent hints = Some (default_embedding fp intent hints)" for intent hints
    using EmbeddingResolve_set [OF wf, of fp intent hints]
    by (auto simp: default_embedding_def r Let_def)
  with wf k that show ?thesis by blast
qed

interpretation embedding: capability_resolver "default_embedding fp" for fp
proof unfold_locales
  fix intent and hints caps :: "string list" and e
  obtain r where wf: "wf_embedding r" and k: "er_keywords r = Some (NewKeywordResolver [])"
    and r: "\<And>intent hints. EmbeddingResolve fp r intent hints = Some (default_embedding fp intent hints)"
    using default_embedding_eq by blast
  define near where "near = the (near_caps fp r intent)"
  have res: "default_embedding fp intent hints =
      (if hint_tags hints @ near = [] then KeywordResolve (NewKeywordResolver []) intent hints
       else Inr (sorted_keys (hint_tags hints @ near)))"
    using r [of intent hints] near_caps_set [OF wf, of fp intent]
    by (auto simp: EmbeddingResolve_def near_def k Let_def split: if_splits)
  show "caps \<noteq> [] \<and> sorted caps \<and> distinct caps" if "default_embedding fp intent hints = Inr caps"
    using that keyword.resolve_set unfolding res by (auto split: if_splits)
  show "set (hint_tags hints) \<subseteq> set caps" if "default_embedding fp intent hints = Inr caps"
    using that keyword.resolve_hints unfolding res by (auto split: if_splits)
  show "e = ErrNoCapabilities \<and> hint_tags hints = []" if "default_embedding fp intent hints = Inl e"
    using that keyword.resolve_error unfolding res by (auto split: if_splits)
qed

lemma doc_count_le: "doc_count docs t \<le> length docs"
  by (simp add: doc_count_def)

lemma token_weight_eq:
  "token_weight real_ops (idf_weights real_ops (totalDocs byCap) (docFreq byCap)) t =
     (let n = length (concat (map snd byCap)); k = doc_count (concat (map snd byCap)) t in
      if k = 0 \<or> k = n then 1 else ln ((1 + real n) / (1 + real k)))"
proof -
  let ?n = "length (concat (map snd byCap))" and ?k = "doc_count (concat (map snd byCap)) t"
  have "0 < ln ((1 + real ?n) / (1 + real ?k)) \<longleftrightarrow> ?k < ?n"
    by (subst ln_gt_zero_iff) (simp_all add: field_simps)
  then show ?thesis
    using doc_count_le [of "concat (map snd byCap)" t]
    by (auto simp: token_weight_def map_of_idf_weights map_of_docFreq totalDocs_eq Let_def)
qed


section \<open>Properties\<close>



text \<open>the weights of the constructor under exact arithmetic. A token in \<open>k\<close> of the \<open>n\<close> phrases
  weighs \<open>ln ((1 + n) / (1 + k))\<close>, except that one in every phrase weighs 1: more than one in all
  phrases but one.\<close>

theorem token_weight_exact:
  "let docs = concat (map snd byCap); n = length docs; k = doc_count docs t;
       w = token_weight real_ops (idf_weights real_ops (totalDocs byCap) (docFreq byCap)) t in
   w = (if k = 0 \<or> k = n then 1 else ln ((1 + real n) / (1 + real k))) \<and>
   (k + 1 = n \<and> 0 < k \<longrightarrow> w < 1)"
proof -
  let ?docs = "concat (map snd byCap)"
  let ?n = "length ?docs" and ?k = "doc_count ?docs t"
  have "ln ((1 + real ?n) / (1 + real ?k)) < 1" if "?k + 1 = ?n"
  proof -
    have "(1 + real ?n) / (1 + real ?k) \<le> 2" using that by (simp add: field_simps flip: that)
    moreover have "0 < (1 + real ?n) / (1 + real ?k)" by simp
    ultimately have "ln ((1 + real ?n) / (1 + real ?k)) \<le> ln 2" by (simp only: ln_mono)
    then show ?thesis using ln_2_less_1 by linarith
  qed
  then show ?thesis using token_weight_eq [of byCap t] by (auto simp: Let_def)
qed

section \<open>Witnesses\<close>







end
