(* ===== verification/McpSource.thy ===== *)
theory McpSource
  imports Registry Json
begin

text \<open>
  The MCP source adapter of \<open>internal/sources/mcp/source.go\<close>: tool descriptors of an upstream MCP
  server become registry tools. It is a client of the registry interface \<open>tool_registry\<close>. The
  HTTP round trip of \<open>ImportSource\<close> and the JSON decoder (theory ToolListJson has it) are arguments.
\<close>

section \<open>Sources and descriptors\<close>

record mcp_source =
  src_name :: string
  src_base_url :: string
  src_type :: string
  src_auth :: string
  src_extra_capabilities :: "string list"

text \<open>\<open>InputSchema\<close> is \<open>None\<close> for a nil map.\<close>

record tool_descriptor =
  td_name :: string
  td_description :: string
  td_input_schema :: "(string \<times> json) list option"

section \<open>Capabilities\<close>

definition name_separator :: "char \<Rightarrow> bool" where
  "name_separator c \<longleftrightarrow> c \<in> set ''._-/ :''"

definition unicode_name_tokens :: "string \<Rightarrow> string list" where
  "unicode_name_tokens = undefined"

definition tokenize_name :: "string \<Rightarrow> string list" where
  "tokenize_name s =
     (let low = ToLower s in
      if ascii low then FieldsFunc name_separator low else unicode_name_tokens low)"

definition cap_entry :: "string \<Rightarrow> string list" where
  "cap_entry s = (let c = ToLower (TrimSpace s) in if c = [] \<or> length c < 2 then [] else [c])"

definition verb_synonym :: "string \<Rightarrow> string list" where
  "verb_synonym tok =
     (if tok \<in> set [''create'', ''post'', ''put'', ''send'', ''publish''] then cap_entry ''write''
      else if tok \<in> set [''get'', ''list'', ''read'', ''fetch'', ''search'', ''describe'']
        then cap_entry ''read''
      else if tok \<in> set [''delete'', ''destroy'', ''remove''] then cap_entry ''write''
      else [])"

definition inferCapabilities :: "string \<Rightarrow> string list \<Rightarrow> string list" where
  "inferCapabilities name extras =
     sorted_keys (concat (map cap_entry extras) @
       concat (map (\<lambda>tok. cap_entry tok @ verb_synonym tok) (tokenize_name name)))"

section \<open>Schemas\<close>

text \<open>\<open>compactField\<close>; a field that is no object is the nil map.\<close>

function compactField :: "json \<Rightarrow> string" where
  "compactField j =
     (case j of
        JObj f \<Rightarrow>
          (case field f ''enum'' of
             JArr (e # es) \<Rightarrow> ''enum:'' @ Join ''|'' (map Sprint (e # es))
           | _ \<Rightarrow>
             (case as_string (field f ''type'') of
                None \<Rightarrow> ''string''
              | Some t \<Rightarrow>
                  if t = ''string'' then ''string''
                  else if t = ''integer'' then ''int''
                  else if t = ''number'' then ''float''
                  else if t = ''boolean'' then ''bool''
                  else if t = ''object'' then ''json''
                  else if t = ''array'' then
                    (case map_of f ''items'' of None \<Rightarrow> ''string'' | Some it \<Rightarrow> compactField it) @ ''[]''
                  else ''string''))
      | _ \<Rightarrow> ''string'')"
  by pat_completeness auto
termination
  by (relation "measure size") (auto dest: size_map_of)

declare compactField.simps [simp del]

definition requiredSet :: "(string \<times> json) list \<Rightarrow> string list" where
  "requiredSet schema =
     (case as_array (field schema ''required'') of None \<Rightarrow> []
      | Some rs \<Rightarrow> List.map_filter as_string rs)"

definition compactSchema :: "(string \<times> json) list option \<Rightarrow> (string \<times> string) list" where
  "compactSchema jsonSchema =
     (case jsonSchema of None \<Rightarrow> []
      | Some schema \<Rightarrow>
          (case as_object (field schema ''properties'') of None \<Rightarrow> []
           | Some props \<Rightarrow>
               map (\<lambda>(name, raw). (name, compactField raw @
                 (if name \<in> set (requiredSet schema) then [] else ''?''))) props))"

section \<open>Conversion and registration\<close>

text \<open>\<open>hostOf\<close>: both prefixes are trimmed in turn, then everything from the first of \<open>/:?\<close>.\<close>

definition hostOf :: "string \<Rightarrow> string" where
  "hostOf rawURL =
     takeWhile (\<lambda>c. c \<notin> set ''/:?'') (TrimPrefix (TrimPrefix rawURL ''https://'') ''http://'')"

definition mcp_caps :: "mcp_source \<Rightarrow> tool_descriptor \<Rightarrow> string list" where
  "mcp_caps src d =
     (let caps = inferCapabilities (td_name d) (src_extra_capabilities src) in
      if caps = [] then [src_name src] else caps)"

definition mcp_tool :: "mcp_source \<Rightarrow> tool_descriptor \<Rightarrow> tool" where
  "mcp_tool src d =
     (if EqualFold (src_type src) ''stdio'' then
        \<lparr> t_id = src_name src @ ''.'' @ td_name d, t_type = ''stdio'',
          t_endpoint = ''stdio://'' @ src_name src @ ''/'' @ td_name d,
          t_method = ''tools/call'', t_schema = compactSchema (td_input_schema d),
          t_auth = AuthNone, t_timeout = ''30s'', t_capabilities = mcp_caps src d, t_egress = [],
          t_depends_on_caps = [], t_require_approv = False \<rparr>
      else
        \<lparr> t_id = src_name src @ ''.'' @ td_name d, t_type = ''http'',
          t_endpoint = trim_right_byte CHR ''/'' (src_base_url src) @ ''/tools/call/'' @ td_name d,
          t_method = ''POST'', t_schema = compactSchema (td_input_schema d),
          t_auth = AuthPreInjected, t_timeout = ''30s'', t_capabilities = mcp_caps src d,
          t_egress = [hostOf (src_base_url src)], t_depends_on_caps = [],
          t_require_approv = False \<rparr>)"

definition mcp_convert :: "mcp_source \<Rightarrow> tool_descriptor \<Rightarrow> error + tool" where
  "mcp_convert src d =
     (if TrimSpace (td_name d) = [] then Inl (Errorf ''mcp: descriptor name is required'')
      else Inr (mcp_tool src d))"

text \<open>\<open>RegisterAll\<close>: the number of tools registered, the error that stopped it, if any, and the
  registry with what was registered before.\<close>

fun register_descriptors ::
    "(tool \<Rightarrow> 'r \<Rightarrow> error + 'r) \<Rightarrow> mcp_source \<Rightarrow> tool_descriptor list \<Rightarrow> nat \<Rightarrow> 'r \<Rightarrow>
     nat \<times> error option \<times> 'r" where
  "register_descriptors reg src [] n r = (n, None, r)"
| "register_descriptors reg src (d # ds) n r =
     (case mcp_convert src d of
        Inl e \<Rightarrow> (n, Some e, r)
      | Inr t \<Rightarrow>
          (case reg t r of
             Inl e \<Rightarrow> (n, Some (Wrap (''mcp: register '' @ t_id t @ '': '') e), r)
           | Inr r' \<Rightarrow> register_descriptors reg src ds (n + 1) r'))"

definition McpRegisterAll ::
    "(tool \<Rightarrow> 'r \<Rightarrow> error + 'r) \<Rightarrow> mcp_source \<Rightarrow> tool_descriptor list \<Rightarrow> 'r \<Rightarrow>
     nat \<times> error option \<times> 'r" where
  "McpRegisterAll reg src ds r = register_descriptors reg src ds 0 r"

text \<open>
  \<open>ImportSource\<close>: \<open>build\<close> is \<open>http.NewRequest\<close> on a URL, \<open>fetch\<close> the round trip (status and
  body), \<open>decode\<close> the JSON decoder of the tools list. The request carries \<open>Authorization\<close> when
  the source has one.
\<close>

record mcp_request =
  mq_url :: string
  mq_authorization :: "string option"
  mq_accept :: string

record mcp_net =
  mn_build :: "string \<Rightarrow> error option"
  mn_fetch :: "mcp_request \<Rightarrow> error + int \<times> string"
  mn_decode :: "string \<Rightarrow> error + tool_descriptor list"

definition ImportSource ::
    "mcp_net \<Rightarrow> (tool \<Rightarrow> 'r \<Rightarrow> error + 'r) \<Rightarrow> mcp_source \<Rightarrow> 'r \<Rightarrow> nat \<times> error option \<times> 'r" where
  "ImportSource n reg src r =
     (if TrimSpace (src_name src) = [] then
        (0, Some (Errorf ''mcp: source name is required''), r)
      else if TrimSpace (src_base_url src) = [] then
        (0, Some (Errorf ''mcp: source base URL is required''), r)
      else
        let url = trim_right_byte CHR ''/'' (src_base_url src) @ ''/tools/list'' in
        (case mn_build n url of
           Some e \<Rightarrow> (0, Some (Wrap ''mcp: build request: '' e), r)
         | None \<Rightarrow>
        (case mn_fetch n \<lparr> mq_url = url,
               mq_authorization = (if src_auth src = [] then None else Some (src_auth src)),
               mq_accept = ''application/json'' \<rparr> of
           Inl e \<Rightarrow> (0, Some (Wrap (''mcp: fetch '' @ src_name src @ '': '') e), r)
         | Inr (status, body) \<Rightarrow>
        if status < 200 \<or> 300 \<le> status then
          (0, Some (Errorf (''mcp: '' @ src_name src @ '' returned status '' @ fmt_d status)), r)
        else
        (case mn_decode n body of
           Inl e \<Rightarrow> (0, Some (Wrap (''mcp: decode '' @ src_name src @ '': '') e), r)
         | Inr ds \<Rightarrow> McpRegisterAll reg src ds r))))"

section \<open>Lemmas\<close>

lemma t_id_mcp_tool [simp]: "t_id (mcp_tool src d) = src_name src @ ''.'' @ td_name d"
  by (simp add: mcp_tool_def)

lemma mcp_caps_not_Nil [simp]: "mcp_caps src d \<noteq> []"
  by (simp add: mcp_caps_def Let_def)

lemma t_capabilities_mcp_tool [simp]: "t_capabilities (mcp_tool src d) = mcp_caps src d"
  by (simp add: mcp_tool_def)

lemma mcp_tool_acceptable:
  assumes "ascii (src_name src)" and "ascii (td_name d)"
  shows "acceptable (mcp_tool src d)"
proof -
  have "TrimSpace (src_name src @ ''.'' @ td_name d) \<noteq> []"
    using assms trim_ascii_not_Nil [of "CHR ''.''"]
    by (simp add: TrimSpace_ascii) (simp add: ascii_def space_char_def TrimSpace_ascii)
  then show ?thesis by (simp add: acceptable_def)
qed

text \<open>Up to its first blank name a list of descriptors is registered one by one.\<close>

definition named :: "tool_descriptor \<Rightarrow> bool" where
  "named d \<longleftrightarrow> TrimSpace (td_name d) \<noteq> []"

lemma mcp_convert_named:
  "mcp_convert src d = (if named d then Inr (mcp_tool src d)
     else Inl (Errorf ''mcp: descriptor name is required''))"
  by (simp add: mcp_convert_def named_def)

context tool_registry begin

lemma register_descriptors_prefix:
  assumes "inv r" and "ascii (src_name src)" and "list_all (\<lambda>d. ascii (td_name d)) ds"
  defines "good \<equiv> takeWhile named ds"
  shows "\<exists>r'. register_descriptors register src ds n r =
      (n + length good,
       if good = ds then None else Some (Errorf ''mcp: descriptor name is required''), r') \<and>
    register_each register (map (mcp_tool src) good) r = (None, r')"
  using assms(1,3) unfolding good_def
proof (induction ds arbitrary: r n)
  case (Cons d ds)
  show ?case
  proof (cases "named d")
    case True
    obtain r1 where r1: "register (mcp_tool src d) r = Inr r1"
      using register_accepts [of "mcp_tool src d" r] mcp_tool_acceptable [of src d] assms(2)
        Cons.prems(2) by (auto simp: acceptable_def)
    then have "inv r1" using Cons.prems(1) inv_register by blast
    then obtain r' where
      "register_descriptors register src ds (n + 1) r1 =
         (n + 1 + length (takeWhile named ds), if takeWhile named ds = ds then None
           else Some (Errorf ''mcp: descriptor name is required''), r')"
      "register_each register (map (mcp_tool src) (takeWhile named ds)) r1 = (None, r')"
      using Cons.IH [of r1 "n + 1"] Cons.prems(2) by auto
    with True r1 show ?thesis by (simp add: mcp_convert_named)
  qed (simp add: mcp_convert_named)
qed simp

lemma McpRegisterAll_result:
  assumes "inv r" and "ascii (src_name src)" and "list_all (\<lambda>d. ascii (td_name d)) ds"
  defines "good \<equiv> takeWhile named ds"
  shows "case McpRegisterAll register src ds r of (n, err, r') \<Rightarrow>
    n = length good \<and>
    err = (if good = ds then None else Some (Errorf ''mcp: descriptor name is required'')) \<and>
    inv r' \<and>
    (\<forall>i. get r' i = (case find (\<lambda>t. t_id t = i) (rev (map (mcp_tool src) good)) of
        None \<Rightarrow> get r i | Some t \<Rightarrow> Inr t))"
proof -
  have "list_all acceptable (map (mcp_tool src) good)"
    using assms(2,3) unfolding good_def
    by (auto simp: list_all_iff mcp_tool_acceptable dest: set_takeWhileD)
  from register_each_ok [OF assms(1) this]
    register_descriptors_prefix [OF assms(1-3), of 0, folded good_def]
  show ?thesis by (auto simp: McpRegisterAll_def)
qed

end

section \<open>Properties\<close>

text \<open>importing a list of descriptors stops at the first one without a name and keeps what came
  before it: exactly the descriptors before it are registered, the last of several with the same id
  wins, everything else in the registry is as it was, and the count says how many there were. A
  tool built by the adapter is never refused by the registry.\<close>

theorem McpRegisterAll_partial_progress:
  assumes "registry_inv r" and "ascii (src_name src)" and "list_all (\<lambda>d. ascii (td_name d)) ds"
  shows "case McpRegisterAll Register src ds r of (n, err, r') \<Rightarrow>
    let good = takeWhile (\<lambda>d. TrimSpace (td_name d) \<noteq> []) ds in
    n = length good \<and> (err = None \<longleftrightarrow> good = ds) \<and>
    err \<in> {None, Some (Errorf ''mcp: descriptor name is required'')} \<and> registry_inv r' \<and>
    (\<forall>i. Get r' i = (case find (\<lambda>t. t_id t = i) (rev (map (mcp_tool src) good)) of
        None \<Rightarrow> Get r i | Some t \<Rightarrow> Inr t))"
  using memory_registry.McpRegisterAll_result [OF assms]
  by (auto simp: named_def [abs_def])

definition demo_source :: mcp_source where
  "demo_source = \<lparr> src_name = ''github'', src_base_url = ''https://mcp.example.com:8443/'',
     src_type = [], src_auth = [], src_extra_capabilities = [''GitHub''] \<rparr>"

definition demo_descriptors :: "tool_descriptor list" where
  "demo_descriptors = map (\<lambda>n. \<lparr> td_name = n, td_description = [], td_input_schema = None \<rparr>)
     [''create_issue'', ''list_issues'', '' '', ''late'']"

theorem McpRegisterAll_partial_progress_witness:
  "fst (McpRegisterAll Register demo_source demo_descriptors NewMemoryRegistry) = 2 \<and>
   Get (snd (snd (McpRegisterAll Register demo_source demo_descriptors NewMemoryRegistry)))
     ''github.late'' = Inl ErrNotFound"
proof -
  have pre: "registry_inv NewMemoryRegistry" "ascii (src_name demo_source)"
    "list_all (\<lambda>d. ascii (td_name d)) demo_descriptors"
    by (rule registry_inv_empty) code_simp+
  have good: "takeWhile (\<lambda>d. TrimSpace (td_name d) \<noteq> []) demo_descriptors = take 2 demo_descriptors"
    by code_simp
  have no: "find (\<lambda>t. t_id t = ''github.late'') (rev (map (mcp_tool demo_source) (take 2 demo_descriptors))) = None"
    "Get NewMemoryRegistry ''github.late'' = Inl ErrNotFound"
    "length (take 2 demo_descriptors) = 2"
    by code_simp+
  obtain n err r' where res: "McpRegisterAll Register demo_source demo_descriptors NewMemoryRegistry = (n, err, r')"
    by (metis prod.exhaust)
  note all = McpRegisterAll_partial_progress [OF pre, unfolded res prod.case Let_def good no(3)]
  then have "n = 2" by (elim conjE)
  moreover have "\<forall>i. Get r' i = (case find (\<lambda>t. t_id t = i)
      (rev (map (mcp_tool demo_source) (take 2 demo_descriptors))) of
        None \<Rightarrow> Get NewMemoryRegistry i | Some t \<Rightarrow> Inr t)"
    using all by (elim conjE)
  then have "Get r' ''github.late'' = Inl ErrNotFound"
    by (rule allE [of _ "''github.late''"]) (simp only: no option.case)
  ultimately show ?thesis by (simp only: res fst_conv snd_conv)
qed

text \<open>the capability tags inferred from an ASCII tool name are exactly the normalized extras of
  the source and tokens of the lowercased name that are at least two bytes long, and \<open>write\<close> or
  \<open>read\<close> when one of the tokens is such a verb; they are sorted, each once.\<close>

theorem inferCapabilities_exact:
  assumes "ascii name"
  defines "token \<equiv> maximal_run name_separator (map lower_char name)"
  shows "sorted (inferCapabilities name extras) \<and> distinct (inferCapabilities name extras) \<and>
    set (inferCapabilities name extras) =
      {c. 2 \<le> length c \<and> (\<exists>x. (x \<in> set extras \<or> token x) \<and> c = ToLower (TrimSpace x))} \<union>
      {c. c = ''write'' \<and> list_ex token [''create'', ''post'', ''put'', ''send'', ''publish'',
         ''delete'', ''destroy'', ''remove'']} \<union>
      {c. c = ''read'' \<and> list_ex token [''get'', ''list'', ''read'', ''fetch'', ''search'', ''describe'']}"
proof -
  have toks: "t \<in> set (tokenize_name name) \<longleftrightarrow> token t" for t
    using assms(1) by (simp add: tokenize_name_def ToLower_ascii set_FieldsFunc token_def)
  have entry: "c \<in> set (cap_entry x) \<longleftrightarrow> 2 \<le> length c \<and> c = ToLower (TrimSpace x)" for c x
    by (auto simp: cap_entry_def Let_def)
  have "cap_entry ''write'' = [''write'']" "cap_entry ''read'' = [''read'']" by code_simp+
  then have verb: "c \<in> set (verb_synonym t) \<longleftrightarrow>
      c = ''write'' \<and> t \<in> set [''create'', ''post'', ''put'', ''send'', ''publish'', ''delete'',
        ''destroy'', ''remove''] \<or>
      c = ''read'' \<and> t \<in> set [''get'', ''list'', ''read'', ''fetch'', ''search'', ''describe'']" for c t
    by (simp add: verb_synonym_def)
  have "c \<in> set (inferCapabilities name extras) \<longleftrightarrow>
      (\<exists>x. (x \<in> set extras \<or> token x) \<and> c \<in> set (cap_entry x)) \<or>
      (\<exists>t. token t \<and> c \<in> set (verb_synonym t))" for c
    unfolding inferCapabilities_def set_sorted_keys using toks by auto
  then have "c \<in> set (inferCapabilities name extras) \<longleftrightarrow>
      2 \<le> length c \<and> (\<exists>x. (x \<in> set extras \<or> token x) \<and> c = ToLower (TrimSpace x)) \<or>
      c = ''write'' \<and> list_ex token [''create'', ''post'', ''put'', ''send'', ''publish'',
         ''delete'', ''destroy'', ''remove''] \<or>
      c = ''read'' \<and> list_ex token [''get'', ''list'', ''read'', ''fetch'', ''search'', ''describe'']" for c
    unfolding entry verb list_ex_iff by blast
  then have "set (inferCapabilities name extras) =
      {c. 2 \<le> length c \<and> (\<exists>x. (x \<in> set extras \<or> token x) \<and> c = ToLower (TrimSpace x))} \<union>
      {c. c = ''write'' \<and> list_ex token [''create'', ''post'', ''put'', ''send'', ''publish'',
         ''delete'', ''destroy'', ''remove'']} \<union>
      {c. c = ''read'' \<and> list_ex token [''get'', ''list'', ''read'', ''fetch'', ''search'', ''describe'']}"
    by blast
  then show ?thesis by (simp add: inferCapabilities_def)
qed

theorem inferCapabilities_exact_witness:
  "inferCapabilities ''Create_issue.v'' [''GitHub''] = [''create'', ''github'', ''issue'', ''write''] \<and>
   ''write'' \<in> set (inferCapabilities ''Create_issue.v'' [''GitHub'']) \<and>
   sorted (inferCapabilities ''Create_issue.v'' [''GitHub''])"
proof -
  have "ascii ''Create_issue.v''" by code_simp
  from inferCapabilities_exact [OF this, of "[''GitHub'']"]
  have "sorted (inferCapabilities ''Create_issue.v'' [''GitHub''])" by blast
  moreover have "inferCapabilities ''Create_issue.v'' [''GitHub''] =
      [''create'', ''github'', ''issue'', ''write'']"
    by code_simp
  ultimately show ?thesis by simp
qed

end
