(* ===== verification/Bridge.thy ===== *)
theory Bridge
  imports McpSource Deferred
begin

text \<open>
  The MCP bridge of \<open>internal/bridge/bridge.go\<close>: a JSON-RPC server over stdio that lists the tools
  the deferred resolver selects and forwards calls to the downstream servers. A message handler
  takes the state to the messages it writes and the new state; \<open>writeJSON\<close> gives their bytes. The
  forwarder, the JSON encoder and decoders (theory BridgeJson has them) and the clock are arguments.
\<close>

section \<open>Messages and state\<close>

text \<open>An id is the raw JSON text of the request's \<open>id\<close>, \<open>None\<close> when there is none.\<close>

type_synonym rpc_id = "string option"

record rpc_request =
  rpc_request_id :: rpc_id
  rpc_method :: string
  rpc_params :: "string option"

datatype rpc_message =
  RpcResult rpc_id json
| RpcError rpc_id int string
| RpcNotification string

record downstream_tool =
  ds_source_name :: string
  ds_tool_name :: string
  ds_tool :: tool
  ds_raw_schema :: "(string \<times> string) list"

type_synonym forwarder = "string \<Rightarrow> string \<Rightarrow> json \<Rightarrow> error + raw_message"

record bridge =
  br_reg :: registry
  br_resolver :: deferred
  br_tools :: "(string \<times> downstream_tool) list"
  br_forward :: "forwarder option"
  br_prev_tool_count :: nat

definition NewBridge :: "registry \<Rightarrow> deferred \<Rightarrow> forwarder option \<Rightarrow> bridge" where
  "NewBridge reg d fwd =
     \<lparr> br_reg = reg, br_resolver = d, br_tools = [], br_forward = fwd, br_prev_tool_count = 0 \<rparr>"

definition RegisterTool :: "string \<Rightarrow> string \<Rightarrow> tool \<Rightarrow> bridge \<Rightarrow> bridge" where
  "RegisterTool sourceName mcpToolName t b =
     b \<lparr> br_tools := AList.update (t_id t)
           \<lparr> ds_source_name = sourceName, ds_tool_name = mcpToolName, ds_tool = t,
             ds_raw_schema = t_schema t \<rparr> (br_tools b) \<rparr>"

section \<open>Schemas for the client\<close>

text \<open>A Go map is marshalled with its keys in order, so the maps below list them in that order.\<close>

function compactToJSONSchema :: "string \<Rightarrow> json" where
  "compactToJSONSchema s =
     (let compact = TrimSuffix s ''?'' in
      if HasPrefix compact ''enum:'' then
        JObj [(''enum'', JArr (map JStr (Split CHR ''|'' (TrimPrefix compact ''enum:'')))),
              (''type'', JStr ''string'')]
      else if HasSuffix compact ''[]'' then
        JObj [(''items'', compactToJSONSchema (TrimSuffix compact ''[]'')), (''type'', JStr ''array'')]
      else if compact = ''string'' then JObj [(''type'', JStr ''string'')]
      else if compact = ''int'' then JObj [(''type'', JStr ''integer'')]
      else if compact = ''float'' then JObj [(''type'', JStr ''number'')]
      else if compact = ''bool'' then JObj [(''type'', JStr ''boolean'')]
      else if compact = ''json'' then JObj [(''type'', JStr ''object'')]
      else if compact = ''bytes'' then JObj [(''format'', JStr ''byte''), (''type'', JStr ''string'')]
      else JObj [(''type'', JStr ''string'')])"
  by pat_completeness auto
termination
proof (relation "measure length")
  fix s x :: string
  assume "x = TrimSuffix s ''?''" and "HasSuffix x ''[]''"
  then have "length (TrimSuffix x ''[]'') < length x" "length x \<le> length s"
    by (auto simp: HasSuffix_iff TrimSuffix_def)
  then show "(TrimSuffix x ''[]'', s) \<in> measure length" by simp
qed simp

declare compactToJSONSchema.simps [simp del]

definition inputSchema :: "tool \<Rightarrow> (string \<times> json) list" where
  "inputSchema t =
     (let required = map fst (filter (\<lambda>(fld, typ). \<not> HasSuffix typ ''?'') (t_schema t)) in
      [(''properties'', JObj (map (\<lambda>(fld, typ). (fld, compactToJSONSchema typ)) (sort_key fst (t_schema t))))] @
      (if required = [] then [] else [(''required'', JArr (map JStr required))]) @
      [(''type'', JStr ''object'')])"

definition toolToMCP :: "tool \<Rightarrow> json" where
  "toolToMCP t =
     JObj [(''description'', JStr (''[ACP-compacted] '' @ t_id t)), (''inputSchema'', JObj (inputSchema t)),
           (''name'', JStr (t_id t))]"

section \<open>Handlers\<close>

definition initialize_result :: json where
  "initialize_result =
     JObj [(''capabilities'', JObj [(''tools'', JObj [(''listChanged'', JBool True)])]),
           (''protocolVersion'', JStr ''2025-03-26''),
           (''serverInfo'', JObj [(''name'', JStr ''acp-bridge''), (''version'', JStr ''0.2.0'')])]"

definition handleToolsList :: "rpc_request \<Rightarrow> bridge \<Rightarrow> rpc_message list \<times> bridge" where
  "handleToolsList req b =
     (case DeferredResolve (br_resolver b) [] [] of
        Inl e \<Rightarrow> ([RpcResult (rpc_request_id req) (JObj [(''tools'', JArr [])])], b)
      | Inr caps \<Rightarrow>
          (let tools = map toolToMCP (Lookup (br_reg b) caps) in
           ([RpcResult (rpc_request_id req) (JObj [(''tools'', JArr tools)])],
            b \<lparr> br_prev_tool_count := length tools \<rparr>)))"

definition maybeNotifyListChanged :: "bridge \<Rightarrow> rpc_message list" where
  "maybeNotifyListChanged b =
     (case DeferredResolve (br_resolver b) [] [] of
        Inl e \<Rightarrow> []
      | Inr caps \<Rightarrow>
          if length (Lookup (br_reg b) caps) \<noteq> br_prev_tool_count b \<and> 0 < br_prev_tool_count b
          then [RpcNotification ''notifications/tools/list_changed''] else [])"

definition text_content :: "string \<Rightarrow> bool \<Rightarrow> json" where
  "text_content text isError =
     JObj [(''content'', JArr [JObj [(''text'', JStr text), (''type'', JStr ''text'')]]),
           (''isError'', JBool isError)]"

text \<open>\<open>now\<close> is the clock at each observation, \<open>decode\<close> the decoder of the call parameters (name and
  arguments).\<close>

definition observe_all :: "int \<Rightarrow> string list \<Rightarrow> deferred \<Rightarrow> deferred" where
  "observe_all now caps d = fold (\<lambda>c. Observe c now) caps d"

definition handleToolsCall ::
    "(string option \<Rightarrow> error + string \<times> json) \<Rightarrow> int \<Rightarrow> rpc_request \<Rightarrow> bridge \<Rightarrow>
     rpc_message list \<times> bridge" where
  "handleToolsCall decode now req b =
     (case decode (rpc_params req) of
        Inl e \<Rightarrow> ([RpcError (rpc_request_id req) (- 32602) (''invalid params: '' @ Error e)], b)
      | Inr (name, args) \<Rightarrow>
        (case map_of (br_tools b) name of
           None \<Rightarrow> ([RpcError (rpc_request_id req) (- 32602) (''unknown tool: '' @ name)], b)
         | Some ds \<Rightarrow>
             (let b' = b \<lparr> br_resolver :=
                         observe_all now (t_capabilities (ds_tool ds)) (br_resolver b) \<rparr>;
                  reply = (case br_forward b of
                    Some call \<Rightarrow>
                      (case call (ds_source_name ds) (ds_tool_name ds) args of
                         Inl e \<Rightarrow> text_content (Error e) True
                       | Inr result \<Rightarrow> raw_json result)
                  | None \<Rightarrow> text_content (''Tool '' @ name @ '' routed to downstream '' @
                      ds_source_name ds @ ''.'' @ ds_tool_name ds) False) in
              (maybeNotifyListChanged b' @ [RpcResult (rpc_request_id req) reply], b'))))"

definition handleMessage ::
    "(string option \<Rightarrow> error + string \<times> json) \<Rightarrow> int \<Rightarrow> rpc_request \<Rightarrow> bridge \<Rightarrow>
     rpc_message list \<times> bridge" where
  "handleMessage decode now req b =
     (if rpc_method req = ''initialize'' then ([RpcResult (rpc_request_id req) initialize_result], b)
      else if rpc_method req = ''notifications/initialized'' then ([], b)
      else if rpc_method req = ''tools/list'' then handleToolsList req b
      else if rpc_method req = ''tools/call'' then handleToolsCall decode now req b
      else if rpc_method req = ''ping'' then ([RpcResult (rpc_request_id req) (JObj [])], b)
      else if rpc_request_id req \<noteq> None then
        ([RpcError (rpc_request_id req) (- 32601) (''method not found: '' @ rpc_method req)], b)
      else ([], b))"

text \<open>\<open>Serve\<close>: the messages of one input line; empty lines and lines that are no request are
  skipped. \<open>parse\<close> is the JSON decoder of requests.\<close>

definition serve_line ::
    "(string \<Rightarrow> error + rpc_request) \<Rightarrow> (string option \<Rightarrow> error + string \<times> json) \<Rightarrow> int \<Rightarrow>
     string \<Rightarrow> bridge \<Rightarrow> rpc_message list \<times> bridge" where
  "serve_line parse decode now line b =
     (if line = [] then ([], b)
      else (case parse line of Inl e \<Rightarrow> ([], b) | Inr req \<Rightarrow> handleMessage decode now req b))"

fun Serve ::
    "(string \<Rightarrow> error + rpc_request) \<Rightarrow> (string option \<Rightarrow> error + string \<times> json) \<Rightarrow>
     (int \<times> string) list \<Rightarrow> bridge \<Rightarrow> rpc_message list \<times> bridge" where
  "Serve parse decode [] b = ([], b)"
| "Serve parse decode ((now, line) # ls) b =
     (let (out, b') = serve_line parse decode now line b;
          (outs, b'') = Serve parse decode ls b' in
      (out @ outs, b''))"

text \<open>\<open>writeJSON\<close>: a message as one line; one that cannot be encoded is only logged. Writing to the
  standard output does not fail.\<close>

definition writeJSON :: "(rpc_message \<Rightarrow> error + string) \<Rightarrow> rpc_message \<Rightarrow> string" where
  "writeJSON marshal v = (case marshal v of Inl e \<Rightarrow> [] | Inr data \<Rightarrow> data @ [CHR 0x0A])"

section \<open>Sessions\<close>

text \<open>The observations a line of input causes.\<close>

definition line_ops ::
    "(string \<Rightarrow> error + rpc_request) \<Rightarrow> (string option \<Rightarrow> error + string \<times> json) \<Rightarrow>
     (string \<times> downstream_tool) list \<Rightarrow> int \<times> string \<Rightarrow> dr_op list" where
  "line_ops parse decode tools nl =
     (case nl of (now, line) \<Rightarrow>
      if line = [] then []
      else (case parse line of Inl e \<Rightarrow> [] | Inr req \<Rightarrow>
        if rpc_method req \<noteq> ''tools/call'' then []
        else (case decode (rpc_params req) of Inl e \<Rightarrow> [] | Inr (name, args) \<Rightarrow>
          (case map_of tools name of None \<Rightarrow> []
           | Some ds \<Rightarrow> map (\<lambda>c. DObserve c now) (t_capabilities (ds_tool ds))))))"

lemma dr_run_append: "dr_run d xs d' \<Longrightarrow> dr_run d' ys d'' \<Longrightarrow> dr_run d (xs @ ys) d''"
  by (induction rule: dr_run.induct) (auto intro: dr_run.intros)

lemma dr_run_observe_all: "dr_run d (map (\<lambda>c. DObserve c now) cs) (observe_all now cs d)"
  by (induction cs arbitrary: d) (auto simp: observe_all_def intro: dr_run.intros)

text \<open>What no message changes.\<close>

definition same_setup :: "bridge \<Rightarrow> bridge \<Rightarrow> bool" where
  "same_setup b b' \<longleftrightarrow> br_reg b' = br_reg b \<and> br_tools b' = br_tools b \<and> br_forward b' = br_forward b"

lemma handleToolsList_state:
  "same_setup b (snd (handleToolsList req b)) \<and> br_resolver (snd (handleToolsList req b)) = br_resolver b"
  by (auto simp: handleToolsList_def same_setup_def Let_def split: sum.split)

lemma handleToolsCall_state:
  "same_setup b (snd (handleToolsCall decode now req b)) \<and>
   br_resolver (snd (handleToolsCall decode now req b)) =
     (case decode (rpc_params req) of Inl e \<Rightarrow> br_resolver b | Inr (name, args) \<Rightarrow>
       (case map_of (br_tools b) name of None \<Rightarrow> br_resolver b
        | Some ds \<Rightarrow> observe_all now (t_capabilities (ds_tool ds)) (br_resolver b)))"
  by (auto simp: handleToolsCall_def same_setup_def Let_def split: sum.split option.split)

lemma serve_line_state:
  "same_setup b (snd (serve_line parse decode now line b)) \<and>
   dr_run (br_resolver b) (line_ops parse decode (br_tools b) (now, line))
     (br_resolver (snd (serve_line parse decode now line b)))"
proof (cases "line = []")
  case True
  then show ?thesis by (simp add: serve_line_def line_ops_def same_setup_def dr_run.nil)
next
  case line: False
  show ?thesis
  proof (cases "parse line")
    case (Inl e)
    with line show ?thesis by (simp add: serve_line_def line_ops_def same_setup_def dr_run.nil)
  next
    case (Inr req)
    show ?thesis
    proof (cases "rpc_method req = ''tools/call''")
      case True
      then have "serve_line parse decode now line b = handleToolsCall decode now req b"
        using line Inr by (simp add: serve_line_def handleMessage_def)
      with True show ?thesis
        using handleToolsCall_state [of b decode now req] line Inr dr_run_observe_all
        by (auto simp: line_ops_def dr_run.nil split: sum.splits option.splits prod.splits)
    next
      case False
      have "same_setup b (snd (handleMessage decode now req b)) \<and>
          br_resolver (snd (handleMessage decode now req b)) = br_resolver b"
        using False handleToolsList_state [of b req] by (simp add: handleMessage_def same_setup_def)
      with False show ?thesis using line Inr by (simp add: serve_line_def line_ops_def dr_run.nil)
    qed
  qed
qed

lemma Serve_state:
  "same_setup b (snd (Serve parse decode ls b)) \<and>
   dr_run (br_resolver b) (concat (map (line_ops parse decode (br_tools b)) ls))
     (br_resolver (snd (Serve parse decode ls b)))"
proof (induction parse decode ls b rule: Serve.induct)
  case (2 parse decode now line ls b)
  let ?b' = "snd (serve_line parse decode now line b)"
  have step: "same_setup b ?b'" "dr_run (br_resolver b) (line_ops parse decode (br_tools b) (now, line))
      (br_resolver ?b')"
    using serve_line_state by blast+
  moreover have "same_setup ?b' (snd (Serve parse decode ls ?b')) \<and>
      dr_run (br_resolver ?b') (concat (map (line_ops parse decode (br_tools ?b')) ls))
        (br_resolver (snd (Serve parse decode ls ?b')))"
    by (rule 2) (simp_all add: prod_eq_iff)
  ultimately show ?case
    by (auto simp: same_setup_def split_beta intro: dr_run_append)
qed (simp add: same_setup_def dr_run.nil)

lemma Lookup_cong: "set caps = set caps' \<Longrightarrow> Lookup r caps = Lookup r caps'"
proof -
  assume s: "set caps = set caps'"
  then have n: "set (normalizeSet caps) = set (normalizeSet caps')"
    by (auto simp: set_normalizeSet)
  then have "tool_matches (normalizeSet caps) = tool_matches (normalizeSet caps')"
    by (intro ext) (simp add: tool_matches_def)
  moreover from n have "normalizeSet caps = [] \<longleftrightarrow> normalizeSet caps' = []"
    by (metis set_empty)
  ultimately show ?thesis by (simp add: Lookup_def Let_def)
qed

lemma Lookup_Nil [simp]: "Lookup r [] = []"
  by (simp add: Lookup_def normalizeSet_def)

text \<open>What the bridge resolves, in any state of its resolver.\<close>

lemma handleToolsList_reply:
  "fst (handleToolsList req b) = [RpcResult (rpc_request_id req) (JObj [(''tools'', JArr (map toolToMCP
     (Lookup (br_reg b)
        (if int (length (d_window (br_resolver b))) < d_narrow_threshold (br_resolver b)
         then d_all_capabilities (br_resolver b) else observedCaps (br_resolver b)))))])]"
  unfolding handleToolsList_def DeferredResolve_def finish_def Let_def
  by (auto simp: hint_tags_def intro!: arg_cong [where f = "map toolToMCP"] Lookup_cong)

section \<open>Types of the mini-language\<close>

text \<open>The types the MCP source can produce for which the bridge promises the inverse: scalars, arrays
  of them, and enumerations of non-empty lists of values without the separator.\<close>

datatype compact_type = CScalar string | CEnum "string list" | CArray compact_type

fun print_type :: "compact_type \<Rightarrow> string" where
  "print_type (CScalar s) = s"
| "print_type (CEnum vs) = ''enum:'' @ Join ''|'' vs"
| "print_type (CArray t) = print_type t @ ''[]''"

fun scalar_based :: "compact_type \<Rightarrow> bool" where
  "scalar_based (CScalar s) \<longleftrightarrow> s \<in> set [''string'', ''int'', ''float'', ''bool'', ''json'']"
| "scalar_based (CEnum vs) \<longleftrightarrow> False"
| "scalar_based (CArray t) \<longleftrightarrow> scalar_based t"

definition printable :: "compact_type \<Rightarrow> bool" where
  "printable t \<longleftrightarrow> (case t of
     CEnum vs \<Rightarrow> vs \<noteq> [] \<and> list_all (\<lambda>v. CHR ''|'' \<notin> set v) vs \<and> \<not> HasSuffix (print_type t) ''?''
   | _ \<Rightarrow> scalar_based t)"

lemma HasSuffix_append_single [simp]: "HasSuffix (s @ [c]) [d] \<longleftrightarrow> c = d"
  by (simp add: HasSuffix_def HasPrefix_def)

lemma TrimSuffix_no: "\<not> HasSuffix s p \<Longrightarrow> TrimSuffix s p = s"
  by (simp add: TrimSuffix_def)

lemma scalar_based_head: "scalar_based t \<Longrightarrow> print_type t \<noteq> [] \<and> hd (print_type t) \<noteq> CHR ''e''"
  by (induction t) auto

lemma scalar_based_shape:
  assumes "scalar_based t"
  shows "\<not> HasSuffix (print_type t) ''?'' \<and> \<not> HasPrefix (print_type t) ''enum:''"
proof
  show "\<not> HasPrefix (print_type t) ''enum:''"
    using scalar_based_head [OF assms] by (auto simp: HasPrefix_iff)
  show "\<not> HasSuffix (print_type t) ''?''"
  proof (cases t)
    case (CArray u)
    have "\<not> HasSuffix ((print_type u @ ''['') @ [CHR '']'']) [CHR ''?'']"
      by (simp only: HasSuffix_append_single) simp
    then show ?thesis by (simp add: CArray)
  qed (use assms in \<open>auto simp: HasSuffix_def HasPrefix_def\<close>)
qed

lemma compact_scalar:
  "scalar_based t \<Longrightarrow> compactField (compactToJSONSchema (print_type t)) = print_type t"
proof (induction t)
  case (CScalar s)
  then show ?case
    by (auto simp: compactToJSONSchema.simps [of s] compactField.simps [of "JObj _"] TrimSuffix_def
        HasSuffix_def HasPrefix_def Let_def field_def as_string_def)
next
  case (CEnum vs)
  then show ?case by simp
next
  case (CArray t)
  note sh = scalar_based_shape [OF CArray.prems]
  have "compactToJSONSchema (print_type (CArray t)) =
      JObj [(''items'', compactToJSONSchema (print_type t)), (''type'', JStr ''array'')]"
    using sh by (simp add: compactToJSONSchema.simps [of "print_type t @ ''[]''"] TrimSuffix_no Let_def
        HasSuffix_iff)
  with CArray show ?case
    by (simp add: compactField.simps [of "JObj _"] field_def as_string_def)
qed

lemma compact_optional:
  assumes "\<not> HasSuffix p ''?''"
  shows "compactToJSONSchema (p @ ''?'') = compactToJSONSchema p"
proof -
  have "TrimSuffix p ''?'' = p" by (rule TrimSuffix_no [OF assms])
  then show ?thesis
    by (simp only: compactToJSONSchema.simps [of "p @ ''?''"] compactToJSONSchema.simps [of p]
        TrimSuffix_append)
qed

lemma compact_enum:
  assumes "printable (CEnum vs)"
  shows "compactField (compactToJSONSchema (print_type (CEnum vs))) = print_type (CEnum vs)"
proof -
  have vs: "vs \<noteq> []" "list_all (\<lambda>v. CHR ''|'' \<notin> set v) vs"
    "\<not> HasSuffix (''enum:'' @ Join ''|'' vs) ''?''"
    using assms by (simp_all add: printable_def)
  have "compactToJSONSchema (''enum:'' @ Join ''|'' vs) =
      JObj [(''enum'', JArr (map JStr vs)), (''type'', JStr ''string'')]"
    by (simp only: compactToJSONSchema.simps [of "''enum:'' @ Join ''|'' vs"] TrimSuffix_no [OF vs(3)]
        Let_def HasPrefix_append TrimPrefix_append Split_Join [OF vs(1,2)] if_True)
  moreover have "map Sprint (map JStr vs) = vs" by (induction vs) simp_all
  moreover obtain v vs' where "vs = v # vs'" using vs(1) by (cases vs) auto
  ultimately show ?thesis
    by (simp add: compactField.simps [of "JObj _"] field_def)
qed

lemma compact_inverse:
  "printable t \<Longrightarrow> compactField (compactToJSONSchema (print_type t)) = print_type t"
  using compact_enum compact_scalar by (cases t) (simp_all only: printable_def compact_type.case)

lemma printable_no_question: "printable t \<Longrightarrow> \<not> HasSuffix (print_type t) ''?''"
  by (cases t) (simp_all add: printable_def scalar_based_shape del: print_type.simps scalar_based.simps)

text \<open>A field of a schema: its name, type, and whether it is optional.\<close>

definition print_field :: "string \<times> compact_type \<times> bool \<Rightarrow> string \<times> string" where
  "print_field f = (case f of (n, t, opt) \<Rightarrow> (n, print_type t @ (if opt then ''?'' else [])))"

lemma optional_suffix:
  "printable t \<Longrightarrow> HasSuffix (print_type t @ (if opt then ''?'' else [])) ''?'' \<longleftrightarrow> opt"
  using printable_no_question [of t] by (auto simp: HasSuffix_iff)

definition required_names :: "(string \<times> string) list \<Rightarrow> string list" where
  "required_names schema = map fst (filter (\<lambda>(fld, typ). \<not> HasSuffix typ ''?'') schema)"

lemma map_filter_JStr: "List.map_filter as_string (map JStr ns) = ns"
  by (induction ns) (simp_all add: map_filter_def as_string_def)

lemma required_inputSchema: "requiredSet (inputSchema t) = required_names (t_schema t)"
proof -
  have "field (inputSchema t) ''required'' =
      (if required_names (t_schema t) = [] then JNull else JArr (map JStr (required_names (t_schema t))))"
    unfolding inputSchema_def Let_def required_names_def [symmetric] by (simp add: field_def)
  then show ?thesis
    unfolding requiredSet_def as_array_def by (simp add: map_filter_JStr split: if_splits)
qed

lemma properties_inputSchema:
  "as_object (field (inputSchema t) ''properties'') =
     Some (map (\<lambda>(fld, typ). (fld, compactToJSONSchema typ)) (sort_key fst (t_schema t)))"
  unfolding inputSchema_def Let_def by (simp add: field_def as_object_def)

lemma fst_print_field: "fst (print_field f) = fst f"
  by (simp add: print_field_def case_prod_beta')

lemma required_print_field:
  assumes "distinct (map fst fs)" and "list_all (\<lambda>(n, ty, opt). printable ty) fs"
    and "(n, ty, opt) \<in> set fs"
  shows "n \<in> set (required_names (map print_field fs)) \<longleftrightarrow> \<not> opt"
proof -
  have opts: "\<not> HasSuffix (snd (print_field f)) ''?'' \<longleftrightarrow> \<not> snd (snd f)" if "f \<in> set fs" for f
  proof -
    obtain m ty' opt' where f: "f = (m, ty', opt')" by (cases f)
    with that assms(2) have "printable ty'" by (auto simp: list_all_iff)
    from optional_suffix [OF this, of opt'] show ?thesis
      by (simp only: f print_field_def prod.case snd_conv)
  qed
  have "set (required_names (map print_field fs)) =
      fst ` {x \<in> print_field ` set fs. \<not> HasSuffix (snd x) ''?''}"
    by (simp add: required_names_def case_prod_beta')
  also have "{x \<in> print_field ` set fs. \<not> HasSuffix (snd x) ''?''} =
      print_field ` {f \<in> set fs. \<not> HasSuffix (snd (print_field f)) ''?''}"
    by auto
  also have "{f \<in> set fs. \<not> HasSuffix (snd (print_field f)) ''?''} = {f \<in> set fs. \<not> snd (snd f)}"
    using opts by blast
  finally have "set (required_names (map print_field fs)) = fst ` {f \<in> set fs. \<not> snd (snd f)}"
    by (simp add: image_image fst_print_field)
  moreover have "n \<in> fst ` {f \<in> set fs. \<not> snd (snd f)} \<longleftrightarrow> \<not> opt"
    using assms(3) eq_key_imp_eq_value [OF assms(1)] by (auto simp: image_iff) blast+
  ultimately show ?thesis by blast
qed

section \<open>Properties\<close>

text \<open>the bridge's schema is the inverse of the MCP source's compaction: for a tool whose schema
  consists of optional and required fields of scalar, array and enumeration types, compacting the
  JSON schema that the bridge sends gives back the tool's schema, field by field and sorted by their names.\<close>

theorem schema_roundtrip:
  assumes "t_schema t = map print_field fs" and "distinct (map fst fs)"
    and "list_all (\<lambda>(n, ty, opt). printable ty) fs"
  shows "compactSchema (Some (inputSchema t)) = sort_key fst (t_schema t)"
proof -
  let ?req = "required_names (map print_field fs)"
  have entry: "(fst f, compactField (compactToJSONSchema (snd (print_field f))) @
      (if fst f \<in> set ?req then [] else ''?'')) = print_field f" if "f \<in> set fs" for f
  proof -
    obtain n ty opt where f: "f = (n, ty, opt)" by (cases f)
    with that assms(3) have "printable ty" by (auto simp: list_all_iff)
    moreover have "n \<in> set ?req \<longleftrightarrow> \<not> opt"
      by (rule required_print_field [OF assms(2,3)]) (use that f in simp)
    ultimately show ?thesis
      using compact_inverse [of ty] compact_optional [of "print_type ty"] printable_no_question [of ty]
      by (cases opt) (simp_all only: f print_field_def prod.case fst_conv snd_conv if_True if_False
          append_Nil2 not_False_eq_True not_True_eq_False)
  qed
  let ?again = "\<lambda>p. (fst p, compactField (compactToJSONSchema (snd p)) @
      (if fst p \<in> set ?req then [] else ''?''))"
  have entry: "?again p = p" if "p \<in> set (sort_key fst (map print_field fs))" for p
  proof -
    from that obtain f where f: "f \<in> set fs" "p = print_field f" by auto
    show ?thesis using entry [OF f(1)] unfolding f(2) fst_print_field .
  qed
  have "compactSchema (Some (inputSchema t)) = map ?again (sort_key fst (map print_field fs))"
    unfolding compactSchema_def option.case properties_inputSchema required_inputSchema assms(1)
    by (simp add: case_prod_beta')
  also have "\<dots> = sort_key fst (map print_field fs)" using entry by (intro map_idI)
  finally show ?thesis by (simp add: assms(1))
qed

definition demo_fields :: "(string \<times> compact_type \<times> bool) list" where
  "demo_fields = [(''path'', CScalar ''string'', False), (''lines'', CArray (CScalar ''int''), True),
     (''mode'', CEnum [''fast'', ''slow''], True)]"

definition demo_tool :: "string \<Rightarrow> string \<Rightarrow> tool" where
  "demo_tool i c = (hd seed_tools) \<lparr> t_id := i, t_capabilities := [c],
     t_schema := map print_field demo_fields \<rparr>"

theorem schema_roundtrip_witness:
  "compactSchema (Some (inputSchema (demo_tool ''x'' ''a''))) =
     [(''lines'', ''int[]?''), (''mode'', ''enum:fast|slow?''), (''path'', ''string'')]"
proof -
  have "t_schema (demo_tool ''x'' ''a'') = map print_field demo_fields"
    by (simp add: demo_tool_def)
  moreover have "distinct (map fst demo_fields)" "list_all (\<lambda>(n, ty, opt). printable ty) demo_fields"
    by code_simp+
  ultimately have "compactSchema (Some (inputSchema (demo_tool ''x'' ''a''))) =
      sort_key fst (t_schema (demo_tool ''x'' ''a''))"
    by (rule schema_roundtrip)
  also have "\<dots> = [(''lines'', ''int[]?''), (''mode'', ''enum:fast|slow?''), (''path'', ''string'')]"
    by code_simp
  finally show ?thesis .
qed

text \<open>it is not the inverse for an array of enumerations: the MCP source prints one as
  \<open>enum:a|b[]\<close>, which the bridge reads as an enumeration whose last value is \<open>b[]\<close>; and the type
  \<open>bytes\<close>, which only the bridge knows, comes back as \<open>string\<close>.\<close>

theorem enum_array_misread:
  "let schema = JObj [(''type'', JStr ''array''), (''items'',
        JObj [(''type'', JStr ''string''), (''enum'', JArr [JStr ''a'', JStr ''b''])])] in
   compactField schema = ''enum:a|b[]'' \<and>
   compactToJSONSchema (compactField schema) =
     JObj [(''enum'', JArr [JStr ''a'', JStr ''b[]'']), (''type'', JStr ''string'')] \<and>
   compactField (compactToJSONSchema ''bytes'') = ''string''"
  by code_simp

text \<open>C27: what \<open>tools/list\<close> shows after any session: while the window holds fewer observations than
  the threshold the tools of every capability, afterwards exactly the tools that carry one of the
  last \<open>WindowSize\<close> capabilities of the tools called in the session, each called tool counting all
  of its capabilities, whatever other messages, unknown tools and malformed lines were in between.\<close>

theorem tools_list_after_session:
  assumes "br_resolver b = NewDeferredResolver opts"
  shows "let history = observed [] (concat (map (line_ops parse decode (br_tools b)) ls));
      W = nat (d_window_size (NewDeferredResolver opts));
      caps = (if min W (length history) < nat (d_narrow_threshold (NewDeferredResolver opts))
              then do_all_capabilities opts else last_n W history) in
    fst (handleToolsList req (snd (Serve parse decode ls b))) =
      [RpcResult (rpc_request_id req)
         (JObj [(''tools'', JArr (map toolToMCP (Lookup (br_reg b) caps)))])]"
proof -
  let ?d0 = "NewDeferredResolver opts"
  let ?b' = "snd (Serve parse decode ls b)"
  let ?ops = "concat (map (line_ops parse decode (br_tools b)) ls)"
  have run: "dr_run ?d0 ?ops (br_resolver ?b')" and reg: "br_reg ?b' = br_reg b"
    using Serve_state [of b parse decode ls] assms by (auto simp: same_setup_def)
  have settings: "d_all_capabilities (br_resolver ?b') = sort (do_all_capabilities opts)"
    "d_narrow_threshold (br_resolver ?b') = d_narrow_threshold ?d0"
    using same_settings_run [OF run] by (simp_all add: same_settings_def) (simp add: NewDeferredResolver_def)
  have cold: "int (length (d_window (br_resolver ?b'))) < d_narrow_threshold ?d0 \<longleftrightarrow>
      min (nat (d_window_size ?d0)) (length (observed [] ?ops)) < nat (d_narrow_threshold ?d0)"
    unfolding run_count [OF run] using New_sizes [of opts] by linarith
  have "Lookup (br_reg b) (sort (do_all_capabilities opts)) = Lookup (br_reg b) (do_all_capabilities opts)"
    by (rule Lookup_cong) simp
  then show ?thesis
    unfolding Let_def handleToolsList_reply reg settings cold run_window [OF run]
    by (simp split: if_splits)
qed

definition demo_deferred :: deferred_options where
  "demo_deferred = \<lparr> do_all_capabilities = [''b'', ''a''], do_fallback = None, do_window_size = 1,
     do_narrow_threshold = 1 \<rparr>"

definition demo_bridge :: bridge where
  "demo_bridge =
     RegisterTool ''s'' ''y'' (demo_tool ''s.y'' ''b'') (RegisterTool ''s'' ''x'' (demo_tool ''s.x'' ''a'')
       (NewBridge (snd (register_each Register [demo_tool ''s.x'' ''a'', demo_tool ''s.y'' ''b''] []))
          (NewDeferredResolver demo_deferred) None))"

text \<open>A line \<open>list\<close> is a list request, any other line a call of the tool it names.\<close>

definition demo_rpc :: "string \<Rightarrow> error + rpc_request" where
  "demo_rpc line = Inr \<lparr> rpc_request_id = Some ''1'',
     rpc_method = (if line = ''list'' then ''tools/list'' else ''tools/call''),
     rpc_params = Some line \<rparr>"

definition demo_decode :: "string option \<Rightarrow> error + string \<times> json" where
  "demo_decode p = (case p of None \<Rightarrow> Inl (Errorf ''EOF'') | Some n \<Rightarrow> Inr (n, JNull))"

definition demo_list :: rpc_request where
  "demo_list = \<lparr> rpc_request_id = Some ''9'', rpc_method = ''tools/list'', rpc_params = None \<rparr>"

theorem tools_list_after_session_witness:
  "fst (handleToolsList demo_list
     (snd (Serve demo_rpc demo_decode [(1, ''list''), (2, ''s.x''), (3, ''nope''), (4, ''s.y'')] demo_bridge))) =
   [RpcResult (Some ''9'') (JObj [(''tools'', JArr [toolToMCP (demo_tool ''s.y'' ''b'')])])]"
proof -
  let ?ls = "[(1, ''list''), (2, ''s.x''), (3, ''nope''), (4 :: int, ''s.y'')]"
  have b: "br_resolver demo_bridge = NewDeferredResolver demo_deferred"
    by (simp add: demo_bridge_def RegisterTool_def NewBridge_def)
  have h: "observed [] (concat (map (line_ops demo_rpc demo_decode (br_tools demo_bridge)) ?ls)) = [''a'', ''b'']"
    and W: "nat (d_window_size (NewDeferredResolver demo_deferred)) = 1"
      "nat (d_narrow_threshold (NewDeferredResolver demo_deferred)) = 1"
    and L: "Lookup (br_reg demo_bridge) [''b''] = [demo_tool ''s.y'' ''b'']"
      "last_n 1 [''a'', ''b''] = [''b'']" "rpc_request_id demo_list = Some ''9''"
    by code_simp+
  show ?thesis
    using tools_list_after_session [OF b, of demo_rpc demo_decode ?ls demo_list]
    unfolding Let_def h W L by (simp add: L)
qed

text \<open>The id a reply carries, and the notification of a changed list.\<close>

definition reply_id :: "rpc_message \<Rightarrow> rpc_id option" where
  "reply_id m = (case m of RpcResult i _ \<Rightarrow> Some i | RpcError i _ _ \<Rightarrow> Some i | RpcNotification _ \<Rightarrow> None)"

definition list_changed :: rpc_message where
  "list_changed = RpcNotification ''notifications/tools/list_changed''"

lemma maybeNotify_cases: "maybeNotifyListChanged b = [] \<or> maybeNotifyListChanged b = [list_changed]"
  by (simp add: maybeNotifyListChanged_def list_changed_def split: sum.split)

lemma handleToolsCall_replies:
  "\<exists>notes m. fst (handleToolsCall decode now req b) = notes @ [m] \<and>
     reply_id m = Some (rpc_request_id req) \<and> notes \<in> {[], [list_changed]}"
proof (cases "decode (rpc_params req)")
  case (Inl e)
  then show ?thesis by (simp add: handleToolsCall_def reply_id_def)
next
  case (Inr na)
  obtain name args where na: "na = (name, args)" by (cases na)
  show ?thesis
  proof (cases "map_of (br_tools b) name")
    case None
    then show ?thesis by (simp add: handleToolsCall_def Inr na reply_id_def)
  next
    case (Some ds)
    then show ?thesis
      using maybeNotify_cases by (simp add: handleToolsCall_def Inr na reply_id_def Let_def)
  qed
qed

lemma handleMessage_replies:
  "if rpc_method req = ''notifications/initialized'' \<or>
      rpc_method req \<notin> {''initialize'', ''tools/list'', ''tools/call'', ''ping''} \<and> rpc_request_id req = None
   then handleMessage decode now req b = ([], b)
   else \<exists>notes m. fst (handleMessage decode now req b) = notes @ [m] \<and>
     reply_id m = Some (rpc_request_id req) \<and>
     (notes = [] \<or> notes = [list_changed] \<and> rpc_method req = ''tools/call'')"
proof (cases "rpc_method req = ''tools/call''")
  case True
  then show ?thesis
    using handleToolsCall_replies [of decode now req b] by (auto simp: handleMessage_def)
next
  case False
  have "\<exists>m. fst (handleToolsList req b) = [m] \<and> reply_id m = Some (rpc_request_id req)"
    by (simp add: handleToolsList_reply reply_id_def)
  with False show ?thesis
    by (auto simp: handleMessage_def reply_id_def)
qed

text \<open>the discipline of replies. A message without need of an answer (the initialized
  notification, an unknown method without an id) is answered with nothing; every other message
  with exactly one reply, which carries the id of the request, and which only a \<open>tools/call\<close> may
  precede with a single \<open>tools/list_changed\<close> notification. A known method is answered even when
  the message has no id, that is, when it is a notification.\<close>

theorem one_reply_per_request:
  "if rpc_method req = ''notifications/initialized'' \<or>
      rpc_method req \<notin> {''initialize'', ''tools/list'', ''tools/call'', ''ping''} \<and> rpc_request_id req = None
   then handleMessage decode now req b = ([], b)
   else \<exists>notes m. fst (handleMessage decode now req b) = notes @ [m] \<and>
     reply_id m = Some (rpc_request_id req) \<and>
     (notes = [] \<or> notes = [list_changed] \<and> rpc_method req = ''tools/call'')"
  by (rule handleMessage_replies)

text \<open>a change of the listed tools that keeps their number is not announced: the client that
  has listed one tool calls another, the list is a different one afterwards, and no
  \<open>list_changed\<close> is sent.\<close>

theorem same_size_change_unnoticed:
  "let b = snd (Serve demo_rpc demo_decode [(1, ''s.x''), (2, ''list'')] demo_bridge);
       (out, b') = Serve demo_rpc demo_decode [(3, ''s.y'')] b in
   fst (handleToolsList demo_list b) \<noteq> fst (handleToolsList demo_list b') \<and>
   list_all (\<lambda>m. m \<noteq> list_changed) out"
  by code_simp


subsection \<open>Every advertised schema is a JSON schema\<close>

text \<open>The JSON schemas the bridge can speak about.\<close>

inductive valid_schema :: "json \<Rightarrow> bool" where
  plain: "ty \<in> {''string'', ''integer'', ''number'', ''boolean'', ''object''} \<Longrightarrow>
    valid_schema (JObj [(''type'', JStr ty)])"
| bytes: "valid_schema (JObj [(''format'', JStr ''byte''), (''type'', JStr ''string'')])"
| enum: "vs \<noteq> [] \<Longrightarrow>
    valid_schema (JObj [(''enum'', JArr (map JStr vs)), (''type'', JStr ''string'')])"
| array: "valid_schema s \<Longrightarrow> valid_schema (JObj [(''items'', s), (''type'', JStr ''array'')])"

lemma valid_schema_types:
  "valid_schema (JObj [(''type'', JStr ''string'')])"
  "valid_schema (JObj [(''type'', JStr ''integer'')])"
  "valid_schema (JObj [(''type'', JStr ''number'')])"
  "valid_schema (JObj [(''type'', JStr ''boolean'')])"
  "valid_schema (JObj [(''type'', JStr ''object'')])"
  by (rule plain, simp)+

lemma valid_schema_if:
  "(P \<Longrightarrow> valid_schema a) \<Longrightarrow> (\<not> P \<Longrightarrow> valid_schema b) \<Longrightarrow> valid_schema (if P then a else b)"
  by simp

lemma valid_compactToJSONSchema: "valid_schema (compactToJSONSchema c)"
proof (induction c rule: compactToJSONSchema.induct)
  case (1 s)
  show ?case
    by (subst compactToJSONSchema.simps)
      (unfold Let_def, (rule valid_schema_if enum [OF Split_not_Nil] array bytes valid_schema_types 1 [OF refl] | assumption)+)
qed

lemma sort_key_map_fst: "map fst (sort_key fst ps) = sort (map fst ps)"
proof (rule properties_for_sort [symmetric])
  show "sorted (map fst (sort_key fst ps))" by (rule sorted_sort_key)
qed simp

text \<open>C37: what the bridge advertises is well typed. For every tool, whatever its compact schema looks
  like, the input schema is an object schema with one valid property schema per field and with the
  required fields among its properties: exactly those whose compact type has no question mark.\<close>

theorem advertised_schema_valid:
  "\<exists>properties required. inputSchema t =
      [(''properties'', JObj properties)] @
      (if required = [] then [] else [(''required'', JArr (map JStr required))]) @
      [(''type'', JStr ''object'')] \<and>
    map fst properties = sort (map fst (t_schema t)) \<and> list_all (\<lambda>(fld, s). valid_schema s) properties \<and>
    set required = {fld. \<exists>typ. (fld, typ) \<in> set (t_schema t) \<and> \<not> HasSuffix typ ''?''} \<and>
    set required \<subseteq> set (map fst properties)"
proof (intro exI conjI)
  let ?p = "map (\<lambda>(fld, typ). (fld, compactToJSONSchema typ)) (sort_key fst (t_schema t))"
  let ?r = "map fst (filter (\<lambda>(fld, typ). \<not> HasSuffix typ ''?'') (t_schema t))"
  show "inputSchema t = [(''properties'', JObj ?p)] @
      (if ?r = [] then [] else [(''required'', JArr (map JStr ?r))]) @ [(''type'', JStr ''object'')]"
    by (simp add: inputSchema_def Let_def)
  show "map fst ?p = sort (map fst (t_schema t))"
    by (simp add: sort_key_map_fst comp_def case_prod_beta')
  show "list_all (\<lambda>(fld, s). valid_schema s) ?p"
    by (auto simp: list_all_iff valid_compactToJSONSchema)
  show "set ?r = {fld. \<exists>typ. (fld, typ) \<in> set (t_schema t) \<and> \<not> HasSuffix typ ''?''}" by force
  show "set ?r \<subseteq> set (map fst ?p)" by force
qed

end
