(* ===== verification/StdioClient.thy ===== *)
theory StdioClient
  imports Json "HOL-Library.Word"
begin

text \<open>
  The downstream client of \<open>internal/mcpclient/stdio.go\<close>: JSON-RPC requests over the pipes of a
  child process, and the manager that routes a call to the client of its source. A request is a
  relation between the state before, the result and the state after, because cancellation may
  strike at any read and because a cancelled read leaves a goroutine behind that competes for the
  next line. Starting processes, the JSON encoder and decoder (theory BridgeJson has
  them), and writing to the pipe are arguments.
\<close>

section \<open>Messages and state\<close>

definition defaultProtocolVersion :: string where
  "defaultProtocolVersion = ''2025-03-26''"

datatype stdio_message =
  Request "64 word" string "json option"
| Notification string "json option"

text \<open>\<open>jsonrpcResponse\<close>: the raw text of the id, the raw result and the message of the error
  object.\<close>

record stdio_response =
  rs_id :: "string option"
  rs_result :: raw_message
  rs_error :: "string option"

record stdio_io =
  io_marshal :: "stdio_message \<Rightarrow> error + string"
  io_write :: "string \<Rightarrow> error option"
  io_parse :: "string \<Rightarrow> error + stdio_response"

text \<open>
  \<open>StdioClient\<close>: the counter of request ids, what the calls of \<open>ReadBytes\<close> are still going to
  return (a line or an error, in order), the number of goroutines that cancelled calls of \<open>readLine\<close>
  left waiting in \<open>ReadBytes\<close>, and what was written. The mutex makes \<open>request\<close> and \<open>notify\<close>
  atomic with respect to each other, so calls follow each other; the waiting goroutines do not
  hold it.
\<close>

record stdio_client =
  sc_next_id :: "64 word"
  sc_unread :: "(error + string) list"
  sc_leaked :: nat
  sc_written :: "string list"

definition NewStdioClient :: "(error + string) list \<Rightarrow> stdio_client" where
  "NewStdioClient input =
     \<lparr> sc_next_id = 0, sc_unread = input, sc_leaked = 0, sc_written = [] \<rparr>"

section \<open>Writing and reading\<close>

definition stdio_write :: "stdio_io \<Rightarrow> stdio_message \<Rightarrow> stdio_client \<Rightarrow> error option \<times> stdio_client" where
  "stdio_write io v c =
     (case io_marshal io v of
        Inl e \<Rightarrow> (Some (Wrap ''mcpclient: marshal request: '' e), c)
      | Inr data \<Rightarrow>
          (let out = data @ [CHR 0x0A] in
           case io_write io out of
             Some e \<Rightarrow> (Some (Wrap ''mcpclient: write request: '' e), c)
           | None \<Rightarrow> (None, c \<lparr> sc_written := sc_written c @ [out] \<rparr>)))"

definition ctx_errors :: "error set" where
  "ctx_errors = {Errorf ''context canceled'', Errorf ''context deadline exceeded''}"

text \<open>
  \<open>readLine\<close> starts a goroutine that reads and waits for it or for the end of the context. The rule
  \<open>stolen\<close>: what the pipe delivers goes to a goroutine that an earlier call left behind, whose
  channel nobody receives from. (Two concurrent \<open>ReadBytes\<close> on one \<open>bufio.Reader\<close> are a data race;
  the model lets one of them have the whole line.)
\<close>

inductive readLine :: "stdio_client \<Rightarrow> error + string \<Rightarrow> stdio_client \<Rightarrow> bool" where
  got: "sc_unread c = Inr l # ls \<Longrightarrow> readLine c (Inr l) (c \<lparr> sc_unread := ls \<rparr>)"
| failed: "sc_unread c = Inl e # ls \<Longrightarrow>
    readLine c (Inl (Wrap ''mcpclient: read response: '' e)) (c \<lparr> sc_unread := ls \<rparr>)"
| cancelled: "e \<in> ctx_errors \<Longrightarrow> readLine c (Inl e) (c \<lparr> sc_leaked := sc_leaked c + 1 \<rparr>)"
| stolen: "sc_leaked c = Suc n \<Longrightarrow> sc_unread c = x # ls \<Longrightarrow>
    readLine (c \<lparr> sc_unread := ls, sc_leaked := n \<rparr>) r c' \<Longrightarrow> readLine c r c'"

section \<open>Requests\<close>

text \<open>What the loop of \<open>request\<close> makes of a line: \<open>None\<close> to go on reading.\<close>

definition response_to :: "stdio_io \<Rightarrow> 64 word \<Rightarrow> string \<Rightarrow> string \<Rightarrow> (error + raw_message) option" where
  "response_to io i meth line =
     (case io_parse io line of
        Inl e \<Rightarrow> None
      | Inr resp \<Rightarrow>
          if rs_id resp \<noteq> Some (fmt_d (sint i)) then None
          else (case rs_error resp of
            Some msg \<Rightarrow> Some (Inl (Errorf (''mcpclient: '' @ meth @ '' failed: '' @ msg)))
          | None \<Rightarrow> Some (Inr (rs_result resp))))"

inductive await :: "stdio_io \<Rightarrow> 64 word \<Rightarrow> string \<Rightarrow> stdio_client \<Rightarrow> error + raw_message \<Rightarrow>
    stdio_client \<Rightarrow> bool" for io i meth where
  no_line: "readLine c (Inl e) c' \<Longrightarrow> await io i meth c (Inl e) c'"
| skip: "readLine c (Inr line) c1 \<Longrightarrow> response_to io i meth line = None \<Longrightarrow>
    await io i meth c1 r c' \<Longrightarrow> await io i meth c r c'"
| answer: "readLine c (Inr line) c' \<Longrightarrow> response_to io i meth line = Some r \<Longrightarrow>
    await io i meth c r c'"

inductive stdio_request :: "stdio_io \<Rightarrow> string \<Rightarrow> json option \<Rightarrow> stdio_client \<Rightarrow> error + raw_message \<Rightarrow>
    stdio_client \<Rightarrow> bool" for io meth params where
  unsent: "i = sc_next_id c + 1 \<Longrightarrow>
    stdio_write io (Request i meth params) (c \<lparr> sc_next_id := i \<rparr>) = (Some e, c') \<Longrightarrow>
    stdio_request io meth params c (Inl e) c'"
| sent: "i = sc_next_id c + 1 \<Longrightarrow>
    stdio_write io (Request i meth params) (c \<lparr> sc_next_id := i \<rparr>) = (None, c1) \<Longrightarrow>
    await io i meth c1 r c' \<Longrightarrow> stdio_request io meth params c r c'"

definition stdio_notify ::
    "stdio_io \<Rightarrow> string \<Rightarrow> json option \<Rightarrow> stdio_client \<Rightarrow> error option \<times> stdio_client" where
  "stdio_notify io meth params c = stdio_write io (Notification meth params) c"

text \<open>The maps list their keys in the order in which they are marshalled.\<close>

definition initialize_params :: json where
  "initialize_params =
     JObj [(''capabilities'', JObj []),
           (''clientInfo'', JObj [(''name'', JStr ''acp-bridge''), (''version'', JStr ''0.2.0'')]),
           (''protocolVersion'', JStr defaultProtocolVersion)]"

inductive stdio_initialize :: "stdio_io \<Rightarrow> stdio_client \<Rightarrow> error option \<Rightarrow> stdio_client \<Rightarrow> bool"
    for io where
  refused: "stdio_request io ''initialize'' (Some initialize_params) c (Inl e) c' \<Longrightarrow>
    stdio_initialize io c (Some e) c'"
| accepted: "stdio_request io ''initialize'' (Some initialize_params) c (Inr res) c1 \<Longrightarrow>
    stdio_notify io ''notifications/initialized'' None c1 = (err, c') \<Longrightarrow>
    stdio_initialize io c err c'"

definition CallTool ::
    "stdio_io \<Rightarrow> string \<Rightarrow> json \<Rightarrow> stdio_client \<Rightarrow> error + raw_message \<Rightarrow> stdio_client \<Rightarrow> bool" where
  "CallTool io name args =
     stdio_request io ''tools/call'' (Some (JObj [(''arguments'', args), (''name'', JStr name)]))"

definition decode_list :: "(json \<Rightarrow> error + 'd) \<Rightarrow> error + raw_message \<Rightarrow> error + 'd" where
  "decode_list decode r =
     (case r of Inl e \<Rightarrow> Inl e
      | Inr res \<Rightarrow> (case (case res of None \<Rightarrow> Inl (Errorf ''unexpected end of JSON input'')
            | Some j \<Rightarrow> decode j) of
          Inl e \<Rightarrow> Inl (Wrap ''mcpclient: decode tools/list: '' e) | Inr ds \<Rightarrow> Inr ds))"

definition ListTools ::
    "stdio_io \<Rightarrow> (json \<Rightarrow> error + 'd) \<Rightarrow> stdio_client \<Rightarrow> error + 'd \<Rightarrow> stdio_client \<Rightarrow> bool" where
  "ListTools io decode c out c' \<longleftrightarrow>
     (\<exists>r. stdio_request io ''tools/list'' (Some (JObj [])) c r c' \<and> out = decode_list decode r)"

section \<open>Starting a process\<close>

definition mergeEnv :: "string list \<Rightarrow> (string \<times> string) list \<Rightarrow> string list" where
  "mergeEnv environ overrides =
     environ @ map (\<lambda>(key, value). key @ ''='' @ value) (sort_key fst overrides)"

record stdio_command =
  cm_command :: string
  cm_args :: "string list"
  cm_env :: "(string \<times> string) list"

text \<open>\<open>pipe\<close> opens one of the three pipes of the process, with an error if it fails; \<open>start\<close> starts
  it and gives what it is going to print.\<close>

fun open_pipes :: "(string \<Rightarrow> error option) \<Rightarrow> string list \<Rightarrow> error option" where
  "open_pipes pipe [] = None"
| "open_pipes pipe (p # ps) =
     (case pipe p of
        Some e \<Rightarrow> Some (Wrap (''mcpclient: '' @ p @ '' pipe: '') e)
      | None \<Rightarrow> open_pipes pipe ps)"

definition Spawn ::
    "(string \<Rightarrow> error option) \<Rightarrow>
     (string \<Rightarrow> string list \<Rightarrow> string list \<Rightarrow> error + (error + string) list) \<Rightarrow> string list \<Rightarrow>
     stdio_command \<Rightarrow> error + stdio_client" where
  "Spawn pipe start environ cfg =
     (let command = TrimSpace (cm_command cfg) in
      if command = [] then Inl (Errorf ''mcpclient: stdio command is required'')
      else (case open_pipes pipe [''stderr'', ''stdout'', ''stdin''] of
          Some e \<Rightarrow> Inl e
        | None \<Rightarrow>
      (case start command (cm_args cfg) (mergeEnv environ (cm_env cfg)) of
          Inl e \<Rightarrow> Inl (Wrap (''mcpclient: start '' @ command @ '': '') e)
        | Inr output \<Rightarrow> Inr (NewStdioClient output))))"

text \<open>\<open>Close\<close>: what it does, in order, and its result. Errors of closing and killing are ignored;
  \<open>waited\<close> is what waiting for the process returns.\<close>

datatype close_step = ClosePipes | KillProcess | WaitProcess

definition StdioClose :: "bool \<Rightarrow> bool \<Rightarrow> error option \<Rightarrow> close_step list \<times> error option" where
  "StdioClose hasCloser hasProcess waited =
     (let closing = (if hasCloser then [ClosePipes] else []) in
      if \<not> hasProcess then (closing, None)
      else (closing @ [KillProcess, WaitProcess], waited))"

section \<open>The manager\<close>

text \<open>The timeout is in nanoseconds; \<open>client\<close> is \<open>None\<close> for a nil interface.\<close>

record 'c manager =
  mg_clients :: "(string \<times> 'c) list"
  mg_timeout :: int

definition NewManager :: "int \<Rightarrow> 'c manager" where
  "NewManager timeout =
     \<lparr> mg_clients = [], mg_timeout = (if timeout \<le> 0 then 30 * 1000000000 else timeout) \<rparr>"

definition ManagerRegister :: "string \<Rightarrow> 'c option \<Rightarrow> 'c manager \<Rightarrow> error + 'c manager" where
  "ManagerRegister source client m =
     (if TrimSpace source = [] then Inl (Errorf ''mcpclient: source name is required'')
      else (case client of
          None \<Rightarrow> Inl (Errorf ''mcpclient: client is required'')
        | Some c \<Rightarrow> Inr (m \<lparr> mg_clients := AList.update source c (mg_clients m) \<rparr>)))"

definition ManagerCount :: "'c manager \<Rightarrow> nat" where
  "ManagerCount m = length (mg_clients m)"

text \<open>\<open>call timeout\<close> is \<open>CallTool\<close> of a client under a context with that timeout.\<close>

definition ManagerCall ::
    "(int \<Rightarrow> 'c \<Rightarrow> string \<Rightarrow> json \<Rightarrow> error + raw_message) \<Rightarrow> 'c manager \<Rightarrow> string \<Rightarrow> string \<Rightarrow>
     json \<Rightarrow> error + raw_message" where
  "ManagerCall call m source tool_name args =
     (case map_of (mg_clients m) source of
        None \<Rightarrow> Inl (Errorf (''mcpclient: no downstream client for source '' @ fmt_q source))
      | Some c \<Rightarrow> call (mg_timeout m) c tool_name args)"

text \<open>\<open>Close\<close>: every client is closed, in the order of one visit of the map; the errors but
  \<open>os.ErrProcessDone\<close> are joined.\<close>

definition ManagerClose :: "('c \<Rightarrow> error option) \<Rightarrow> error \<Rightarrow> 'c manager \<Rightarrow> error list" where
  "ManagerClose close process_done m =
     filter (\<lambda>e. e \<noteq> process_done) (List.map_filter (close \<circ> snd) (mg_clients m))"

text \<open>The interface the bridge's start-up relies on: a pool of clients by source name.\<close>

locale client_pool =
  fixes empty :: 'm
    and register :: "string \<Rightarrow> 'c option \<Rightarrow> 'm \<Rightarrow> error + 'm"
    and client_of :: "'m \<Rightarrow> string \<Rightarrow> 'c option"
  assumes client_of_empty: "client_of empty s = None"
    and register_client: "TrimSpace s \<noteq> [] \<Longrightarrow> \<exists>m'. register s (Some c) m = Inr m'"
    and client_of_register: "register s (Some c) m = Inr m' \<Longrightarrow>
      client_of m' s' = (if s' = s then Some c else client_of m s')"

definition client_of :: "'c manager \<Rightarrow> string \<Rightarrow> 'c option" where
  "client_of m source = map_of (mg_clients m) source"

interpretation manager: client_pool "NewManager t" ManagerRegister client_of for t
  by unfold_locales
    (auto simp: client_of_def NewManager_def ManagerRegister_def update_conv' split: if_splits)

section \<open>Lemmas\<close>

inductive_cases readLineE: "readLine c r c'"

lemma stdio_write_sel:
  "stdio_write io v c = (err, c') \<Longrightarrow>
     sc_unread c' = sc_unread c \<and> sc_leaked c' = sc_leaked c \<and> sc_next_id c' = sc_next_id c"
  by (auto simp: stdio_write_def Let_def split: sum.splits option.splits)

text \<open>Reading consumes what is unread from the front; a line that is returned was there.\<close>

lemma readLine_unread:
  "readLine c r c' \<Longrightarrow> (\<exists>n. sc_unread c' = drop n (sc_unread c)) \<and> sc_next_id c' = sc_next_id c \<and>
     (\<forall>l. r = Inr l \<longrightarrow> Inr l \<in> set (sc_unread c))"
proof (induction rule: readLine.induct)
  case (got c l ls)
  then show ?case by (auto intro: exI [of _ 1])
next
  case (failed c e ls)
  then show ?case by (auto intro: exI [of _ 1])
next
  case (cancelled e c)
  then show ?case by (auto intro: exI [of _ 0])
next
  case (stolen c n x ls r c')
  then obtain k where "sc_unread c' = drop k ls" by auto
  with stolen show ?case by (auto intro: exI [of _ "Suc k"])
qed

lemma await_unread:
  "await io i meth c r c' \<Longrightarrow> (\<exists>n. sc_unread c' = drop n (sc_unread c)) \<and> sc_next_id c' = sc_next_id c \<and>
     (\<forall>v. r = Inr v \<longrightarrow>
        (\<exists>l. Inr l \<in> set (sc_unread c) \<and> response_to io i meth l = Some (Inr v)))"
proof (induction rule: await.induct)
  case (no_line c e c')
  then show ?case using readLine_unread by blast
next
  case (skip c line c1 r c')
  from readLine_unread [OF skip(1)] obtain n where n: "sc_unread c1 = drop n (sc_unread c)"
    and i: "sc_next_id c1 = sc_next_id c" by blast
  with skip.IH show ?case by (auto dest: in_set_dropD)
next
  case (answer c line c' r)
  then show ?case using readLine_unread [OF answer(1)] by blast
qed

lemma request_unread:
  assumes "stdio_request io meth params c r c'"
  shows "(\<exists>n. sc_unread c' = drop n (sc_unread c)) \<and> sc_next_id c' = sc_next_id c + 1 \<and>
    (\<forall>v. r = Inr v \<longrightarrow> (\<exists>l. Inr l \<in> set (sc_unread c) \<and>
       response_to io (sc_next_id c + 1) meth l = Some (Inr v)))"
  using assms
proof (cases rule: stdio_request.cases)
  case (unsent i e)
  from stdio_write_sel [OF unsent(3)] unsent(1,2) show ?thesis by (auto intro: exI [of _ 0])
next
  case (sent i c1)
  from stdio_write_sel [OF sent(2)] await_unread [OF sent(3)] sent(1) show ?thesis by simp
qed

lemma response_to_Inr:
  "response_to io i meth l = Some (Inr v) \<longleftrightarrow> (\<exists>resp. io_parse io l = Inr resp \<and>
     rs_id resp = Some (fmt_d (sint i)) \<and> rs_error resp = None \<and> rs_result resp = v)"
  by (auto simp: response_to_def split: sum.split option.split)

text \<open>What ends a request: an answer to it, or an error of the pipe.\<close>

definition ends_with :: "stdio_io \<Rightarrow> 64 word \<Rightarrow> string \<Rightarrow> error + string \<Rightarrow> error + raw_message \<Rightarrow> bool" where
  "ends_with io i meth x r \<longleftrightarrow>
     (case x of Inl e \<Rightarrow> r = Inl (Wrap ''mcpclient: read response: '' e)
      | Inr line \<Rightarrow> response_to io i meth line = Some r)"

text \<open>Without a goroutine left behind, a read that is not cancelled returns what comes next.\<close>

lemma readLine_alone:
  assumes "readLine c r c'" and "sc_leaked c = 0" and "sc_unread c = x # ls"
  shows "c' = c \<lparr> sc_unread := ls \<rparr> \<and>
      r = (case x of Inl e \<Rightarrow> Inl (Wrap ''mcpclient: read response: '' e) | Inr l \<Rightarrow> Inr l) \<or> r \<in> Inl ` ctx_errors"
  using assms by (cases x) (auto elim: readLineE)

lemma await_alone:
  assumes "await io i meth c r' c'" and "sc_leaked c = 0"
    and "sc_unread c = map Inr skipped @ x # rest"
    and "\<forall>l \<in> set skipped. response_to io i meth l = None"
    and "ends_with io i meth x r"
  shows "r' = r \<and> c' = c \<lparr> sc_unread := rest \<rparr> \<or> r' \<in> Inl ` ctx_errors"
  using assms
proof (induction arbitrary: skipped rule: await.induct)
  case (no_line c e c')
  show ?case
  proof (cases skipped)
    case Nil
    with no_line readLine_alone [OF no_line(1), of x rest] show ?thesis
      by (cases x) (auto simp: ends_with_def)
  next
    case (Cons s ss)
    with no_line readLine_alone [OF no_line(1), of "Inr s" "map Inr ss @ x # rest"] show ?thesis by auto
  qed
next
  case (skip c l c1 r'' c')
  show ?case
  proof (cases skipped)
    case Nil
    with skip readLine_alone [OF skip(1), of x rest] show ?thesis
      by (cases x) (auto simp: ends_with_def)
  next
    case (Cons s ss)
    with skip readLine_alone [OF skip(1), of "Inr s" "map Inr ss @ x # rest"]
    have "c1 = c \<lparr> sc_unread := map Inr ss @ x # rest \<rparr>" by auto
    with skip.IH [of ss] skip.prems Cons show ?thesis by auto
  qed
next
  case (answer c l c' r'')
  show ?case
  proof (cases skipped)
    case Nil
    with answer readLine_alone [OF answer(1), of x rest] show ?thesis
      by (cases x) (auto simp: ends_with_def)
  next
    case (Cons s ss)
    with answer readLine_alone [OF answer(1), of "Inr s" "map Inr ss @ x # rest"] show ?thesis by auto
  qed
qed

lemma await_finds:
  assumes "sc_unread c = map Inr skipped @ x # rest"
    and "\<forall>l \<in> set skipped. response_to io i meth l = None"
    and "ends_with io i meth x r"
  shows "await io i meth c r (c \<lparr> sc_unread := rest \<rparr>)"
  using assms
proof (induction skipped arbitrary: c)
  case Nil
  then show ?case
    by (cases x) (auto simp: ends_with_def intro: await.answer await.no_line readLine.got readLine.failed)
next
  case (Cons s ss)
  let ?c = "c \<lparr> sc_unread := map Inr ss @ x # rest \<rparr>"
  have "readLine c (Inr s) ?c" using Cons.prems(1) by (auto intro: readLine.got)
  moreover have "await io i meth ?c r (?c \<lparr> sc_unread := rest \<rparr>)"
    using Cons.prems by (intro Cons.IH) auto
  ultimately show ?case using Cons.prems(2) by (auto intro: await.skip)
qed

lemma request_alone:
  assumes "sc_leaked c = 0" and "sc_unread c = map Inr skipped @ x # rest"
    and "\<forall>l \<in> set skipped. response_to io (sc_next_id c + 1) meth l = None"
    and "ends_with io (sc_next_id c + 1) meth x r"
    and "fst (stdio_write io (Request (sc_next_id c + 1) meth params) c) = None"
  shows "(\<exists>c'. stdio_request io meth params c r c' \<and> sc_unread c' = rest \<and> sc_leaked c' = 0) \<and>
    (\<forall>r' c'. stdio_request io meth params c r' c' \<longrightarrow>
       r' = r \<and> sc_unread c' = rest \<and> sc_leaked c' = 0 \<or> r' \<in> Inl ` ctx_errors)"
proof -
  let ?i = "sc_next_id c + 1"
  let ?c0 = "c \<lparr> sc_next_id := ?i \<rparr>"
  obtain c1 where w: "stdio_write io (Request ?i meth params) ?c0 = (None, c1)"
    using assms(5) by (auto simp: stdio_write_def Let_def split: sum.splits option.splits)
  note sel = stdio_write_sel [OF w]
  have "await io ?i meth c1 r (c1 \<lparr> sc_unread := rest \<rparr>)"
    using assms(2-4) sel by (intro await_finds [of _ skipped x rest]) auto
  with w have "stdio_request io meth params c r (c1 \<lparr> sc_unread := rest \<rparr>)"
    by (intro stdio_request.sent) auto
  then have ex: "\<exists>c'. stdio_request io meth params c r c' \<and> sc_unread c' = rest \<and> sc_leaked c' = 0"
    using sel assms(1) by (intro exI [of _ "c1 \<lparr> sc_unread := rest \<rparr>"]) simp
  have "r' = r \<and> sc_unread c' = rest \<and> sc_leaked c' = 0 \<or> r' \<in> Inl ` ctx_errors"
    if "stdio_request io meth params c r' c'" for r' c'
    using that
  proof (cases rule: stdio_request.cases)
    case (unsent i e)
    with w show ?thesis by simp
  next
    case (sent i c2)
    with w have "await io ?i meth c1 r' c'" by simp
    from await_alone [OF this, of skipped x rest r] assms(1-4) sel show ?thesis by auto
  qed
  with ex show ?thesis by auto
qed

text \<open>The requests of a client, one after the other.\<close>

inductive client_session ::
    "stdio_io \<Rightarrow> stdio_client \<Rightarrow> (string \<times> json option) list \<Rightarrow> (error + raw_message) list \<Rightarrow>
     stdio_client \<Rightarrow> bool" for io where
  session_end: "client_session io c [] [] c"
| session_step: "stdio_request io meth params c r c1 \<Longrightarrow> client_session io c1 reqs rs c' \<Longrightarrow>
    client_session io c ((meth, params) # reqs) (r # rs) c'"

lemma session_responses:
  assumes "client_session io c reqs rs c'" and "i < length rs" and "rs ! i = Inr v"
  shows "\<exists>l. Inr l \<in> set (sc_unread c) \<and>
    response_to io (sc_next_id c + 1 + of_nat i) (fst (reqs ! i)) l = Some (Inr v)"
  using assms
proof (induction arbitrary: i rule: client_session.induct)
  case (session_step meth params c r c1 reqs rs c')
  note req = request_unread [OF session_step(1)]
  show ?case
  proof (cases i)
    case 0
    with session_step.prems req show ?thesis by auto
  next
    case (Suc k)
    with session_step.IH [of k] session_step.prems obtain l where
      l: "Inr l \<in> set (sc_unread c1)"
      "response_to io (sc_next_id c1 + 1 + of_nat k) (fst (reqs ! k)) l = Some (Inr v)" by auto
    from l(1) req have "Inr l \<in> set (sc_unread c)" by (auto dest: in_set_dropD)
    moreover have "sc_next_id c1 + 1 + of_nat k = sc_next_id c + 1 + of_nat i"
      using req Suc by (simp add: ac_simps)
    with l(2) have "response_to io (sc_next_id c + 1 + of_nat i) (fst (((meth, params) # reqs) ! i)) l =
        Some (Inr v)" by (simp only: Suc nth_Cons_Suc)
    ultimately show ?thesis by blast
  qed
qed simp

lemma session_length: "client_session io c reqs rs c' \<Longrightarrow> length rs = length reqs"
  by (induction rule: client_session.induct) simp_all

lemma sint_of_small: "n < 2 ^ 63 \<Longrightarrow> sint (of_nat n :: 64 word) = int n"
  by (simp add: signed_of_nat signed_take_bit_int_eq_self)

section \<open>Properties\<close>

text \<open>C23: requests and responses are matched by id. In every session of a new client with fewer than
  \<open>2 ^ 63\<close> requests, whatever is cancelled and however the lines of the server come, the result of
  the \<open>k\<close>-th request is the result of a line the server sent whose id is the decimal number \<open>k\<close> and
  which is no error response; so no request gets what the server answered to another one.\<close>

theorem responses_match_requests:
  assumes "client_session io (NewStdioClient input) reqs rs c'" and "length reqs < 2 ^ 63"
    and "i < length rs" and "rs ! i = Inr v"
  shows "\<exists>l resp. Inr l \<in> set input \<and> io_parse io l = Inr resp \<and>
    rs_id resp = Some (dec (i + 1)) \<and> rs_error resp = None \<and> rs_result resp = v \<and>
    (\<forall>j < length reqs. j \<noteq> i \<longrightarrow> response_to io (of_nat (j + 1)) (fst (reqs ! j)) l = None)"
proof -
  from session_responses [OF assms(1,3,4)] obtain l where l: "Inr l \<in> set input"
    "response_to io (of_nat (i + 1)) (fst (reqs ! i)) l = Some (Inr v)"
    by (auto simp: NewStdioClient_def)
  have len: "length rs = length reqs" by (rule session_length [OF assms(1)])
  have num: "fmt_d (sint (of_nat (j + 1) :: 64 word)) = dec (j + 1)" if "j < length reqs" for j
    using that assms(2) sint_of_small [of "j + 1"] by (simp add: fmt_d_def nat_add_distrib)
  from l(2) obtain resp where r: "io_parse io l = Inr resp" "rs_id resp = Some (dec (i + 1))"
    "rs_error resp = None" "rs_result resp = v"
    unfolding response_to_Inr using num [of i] assms(3) len by auto
  have "response_to io (of_nat (j + 1)) (fst (reqs ! j)) l = None" if "j < length reqs" "j \<noteq> i" for j
    using that r num [OF that(1)] unfolding response_to_def by simp
  with l(1) r show ?thesis by blast
qed

text \<open>a request gets its answer. When no cancelled read is left over, the server sends the answer
  after any number of other lines, and the write succeeds, the request can return it, and the only
  other outcome is that its context ends.\<close>

theorem request_finds_answer:
  assumes "sc_leaked c = 0" and "sc_unread c = map Inr skipped @ Inr line # rest"
    and "\<forall>l \<in> set skipped. response_to io (sc_next_id c + 1) meth l = None"
    and "response_to io (sc_next_id c + 1) meth line = Some r"
    and "fst (stdio_write io (Request (sc_next_id c + 1) meth params) c) = None"
  shows "(\<exists>c'. stdio_request io meth params c r c' \<and> sc_unread c' = rest) \<and>
    (\<forall>r' c'. stdio_request io meth params c r' c' \<longrightarrow>
       r' = r \<and> sc_unread c' = rest \<or> r' \<in> Inl ` ctx_errors)"
  using request_alone [OF assms(1-3) _ assms(5), of r] assms(4) by (auto simp: ends_with_def)


text \<open>A client whose messages are their ids: a line is an answer with the line as its id.\<close>

definition demo_io :: stdio_io where
  "demo_io = \<lparr> io_marshal = (\<lambda>v. case v of Request i m p \<Rightarrow> Inr (fmt_d (sint i)) | Notification m p \<Rightarrow> Inr m),
     io_write = (\<lambda>s. None),
     io_parse = (\<lambda>l. if l = ''?'' then Inl (Errorf ''bad'') else
       Inr \<lparr> rs_id = Some l, rs_result = Some (JStr (''for '' @ l)), rs_error = None \<rparr>) \<rparr>"

definition demo_client :: stdio_client where
  "demo_client = NewStdioClient [Inr ''?'', Inr ''1'', Inr ''2'']"

lemma demo_first:
  "stdio_request demo_io ''ping'' None demo_client (Inr (Some (JStr ''for 1'')))
     \<lparr> sc_next_id = 1, sc_unread = [Inr ''2''], sc_leaked = 0, sc_written = [[CHR ''1'', CHR 0x0A]] \<rparr>"
proof -
  let ?c = "\<lparr> sc_next_id = 1, sc_unread = [Inr ''?'', Inr ''1'', Inr ''2''], sc_leaked = 0,
    sc_written = [[CHR ''1'', CHR 0x0A]] \<rparr>"
  have "stdio_write demo_io (Request 1 ''ping'' None) (demo_client \<lparr> sc_next_id := 1 \<rparr>) = (None, ?c)"
    by code_simp
  moreover have "response_to demo_io 1 ''ping'' ''?'' = None"
    "response_to demo_io 1 ''ping'' ''1'' = Some (Inr (Some (JStr ''for 1'')))" by code_simp+
  then have "await demo_io 1 ''ping'' ?c (Inr (Some (JStr ''for 1''))) (?c \<lparr> sc_unread := [Inr ''2''] \<rparr>)"
    by (intro await_finds [of _ "[''?'']" "Inr ''1''"]) (simp_all add: ends_with_def)
  ultimately show ?thesis
    by (intro stdio_request.sent [of 1]) (simp_all add: demo_client_def NewStdioClient_def)
qed

theorem responses_match_requests_witness:
  "\<exists>c'. client_session demo_io demo_client [(''ping'', None)] [Inr (Some (JStr ''for 1''))] c' \<and>
     (\<exists>l. Inr l \<in> set (sc_unread demo_client) \<and>
        rs_id (sum.projr (io_parse demo_io l)) = Some (dec 1))"
proof -
  have s: "\<exists>c'. client_session demo_io demo_client [(''ping'', None)] [Inr (Some (JStr ''for 1''))] c'"
    using demo_first by (blast intro: session_step session_end)
  then obtain c' where
    s: "client_session demo_io demo_client [(''ping'', None)] [Inr (Some (JStr ''for 1''))] c'" ..
  from responses_match_requests [OF s [unfolded demo_client_def], of 0 "Some (JStr ''for 1'')"]
  obtain l resp where "Inr l \<in> set [Inr ''?'', Inr ''1'', Inr ''2'' :: error + string]"
    "io_parse demo_io l = Inr resp" "rs_id resp = Some (dec 1)" by auto
  then have "Inr l \<in> set (sc_unread demo_client) \<and> rs_id (sum.projr (io_parse demo_io l)) = Some (dec 1)"
    by (simp add: demo_client_def NewStdioClient_def)
  with s show ?thesis by blast
qed

theorem request_finds_answer_witness:
  "\<exists>c'. stdio_request demo_io ''ping'' None demo_client (Inr (Some (JStr ''for 1''))) c' \<and>
     sc_unread c' = [Inr ''2'']"
proof -
  have "sc_leaked demo_client = 0"
    "sc_unread demo_client = map Inr [''?''] @ Inr ''1'' # [Inr ''2'']"
    "response_to demo_io (sc_next_id demo_client + 1) ''ping'' ''?'' = None"
    "response_to demo_io (sc_next_id demo_client + 1) ''ping'' ''1'' = Some (Inr (Some (JStr ''for 1'')))"
    "fst (stdio_write demo_io (Request (sc_next_id demo_client + 1) ''ping'' None) demo_client) = None"
    by code_simp+
  from request_finds_answer [OF this(1,2) _ this(4,5)] this(3) show ?thesis by simp
qed


text \<open>a request whose context ends leaves a goroutine waiting for a line, and that one can take
  the answer to the next request: there is a run of two requests in which the first is cancelled,
  the server answers the second, the answer is consumed, and the second is not answered.\<close>

theorem cancelled_read_loses_answer:
  assumes "e \<in> ctx_errors" and "response_to io 2 meth line = Some r"
    and "\<And>v c. fst (stdio_write io v c) = None"
  shows "\<exists>c1 c2. stdio_request io meth params (NewStdioClient [Inr line]) (Inl e) c1 \<and>
    sc_unread c1 = [Inr line] \<and> stdio_request io meth params c1 (Inl e) c2 \<and> sc_unread c2 = []"
proof -
  have req: "\<exists>c2. stdio_request io meth params c (Inl e) c2 \<and> sc_leaked c2 = sc_leaked c + 1 \<and>
      sc_unread c2 = sc_unread c" for c
  proof -
    let ?i = "sc_next_id c + 1"
    obtain c1 where w: "stdio_write io (Request ?i meth params) (c \<lparr> sc_next_id := ?i \<rparr>) = (None, c1)"
      using assms(3) [of "Request ?i meth params" "c \<lparr> sc_next_id := ?i \<rparr>"]
      by (metis prod.collapse)
    have "await io ?i meth c1 (Inl e) (c1 \<lparr> sc_leaked := sc_leaked c1 + 1 \<rparr>)"
      by (intro await.no_line readLine.cancelled assms(1))
    with w have "stdio_request io meth params c (Inl e) (c1 \<lparr> sc_leaked := sc_leaked c1 + 1 \<rparr>)"
      by (intro stdio_request.sent) auto
    with stdio_write_sel [OF w] show ?thesis
      by (intro exI [of _ "c1 \<lparr> sc_leaked := sc_leaked c1 + 1 \<rparr>"] conjI) simp_all
  qed
  obtain c1 where c1: "stdio_request io meth params (NewStdioClient [Inr line]) (Inl e) c1"
    "sc_leaked c1 = 1" "sc_unread c1 = [Inr line]"
    using req [of "NewStdioClient [Inr line]"] by (auto simp: NewStdioClient_def)
  let ?i = "sc_next_id c1 + 1"
  obtain c where w: "stdio_write io (Request ?i meth params) (c1 \<lparr> sc_next_id := ?i \<rparr>) = (None, c)"
    using assms(3) [of "Request ?i meth params" "c1 \<lparr> sc_next_id := ?i \<rparr>"]
    by (metis prod.collapse)
  note sel = stdio_write_sel [OF w]
  let ?c = "c \<lparr> sc_unread := [], sc_leaked := 0 \<rparr>"
  have "readLine c (Inl e) (?c \<lparr> sc_leaked := sc_leaked ?c + 1 \<rparr>)"
    using sel c1 by (intro readLine.stolen [of c 0 "Inr line" "[]"] readLine.cancelled assms(1)) simp_all
  with w have "stdio_request io meth params c1 (Inl e) (?c \<lparr> sc_leaked := sc_leaked ?c + 1 \<rparr>)"
    by (intro stdio_request.sent await.no_line) auto
  with c1 show ?thesis
    by (intro exI [of _ c1] exI [of _ "?c \<lparr> sc_leaked := sc_leaked ?c + 1 \<rparr>"] conjI) simp_all
qed

theorem cancelled_read_loses_answer_witness:
  "\<exists>c1 c2. stdio_request demo_io ''ping'' None (NewStdioClient [Inr ''2''])
       (Inl (Errorf ''context canceled'')) c1 \<and> sc_unread c1 = [Inr ''2''] \<and>
     stdio_request demo_io ''ping'' None c1 (Inl (Errorf ''context canceled'')) c2 \<and> sc_unread c2 = []"
proof (rule cancelled_read_loses_answer)
  show "Errorf ''context canceled'' \<in> ctx_errors" by (simp add: ctx_errors_def)
  show "response_to demo_io 2 ''ping'' ''2'' = Some (Inr (Some (JStr ''for 2'')))" by code_simp
  show "fst (stdio_write demo_io v c) = None" for v c
    by (cases v) (simp_all add: stdio_write_def demo_io_def Let_def)
qed

end
