(* ===== verification/LineScanner.thy ===== *)
theory LineScanner
  imports Prelude
begin

text \<open>
  \<open>bufio.Scanner\<close> with its line splitter, as both MCP servers read their input: a line ends with a newline
  or with the input, a carriage return before the end is dropped, and a line that does not fit into
  the buffer, whose size is the limit, ends the reading with an error. And \<open>bufio.Reader\<close> up to each newline, as the
  client of a server reads.
\<close>

definition drop_cr :: "string \<Rightarrow> string" where
  "drop_cr s = (if s \<noteq> [] \<and> last s = CHR 0x0D then butlast s else s)"

text \<open>The lines, and whether one was too long.\<close>

function scan_lines :: "nat \<Rightarrow> string \<Rightarrow> string list \<times> bool" where
  "scan_lines limit s =
     (if s = [] then ([], False)
      else
        let line = takeWhile (\<lambda>c. c \<noteq> CHR 0x0A) s in
        if limit \<le> length line then ([], True)
        else if line = s then ([drop_cr s], False)
        else (case scan_lines limit (tl (dropWhile (\<lambda>c. c \<noteq> CHR 0x0A) s)) of
            (ls, e) \<Rightarrow> (drop_cr line # ls, e)))"
  by pat_completeness auto
termination
proof (relation "measure (\<lambda>(l, s). length s)")
  fix limit :: nat and s line :: string
  assume "s \<noteq> []"
  then have "0 < length s" by simp
  moreover have "length (dropWhile (\<lambda>c. c \<noteq> CHR 0x0A) s) \<le> length s" by (rule length_dropWhile_le)
  ultimately have "length (tl (dropWhile (\<lambda>c. c \<noteq> CHR 0x0A) s)) < length s" unfolding length_tl by linarith
  then show "((limit, tl (dropWhile (\<lambda>c. c \<noteq> CHR 0x0A) s)), limit, s) \<in> measure (\<lambda>(l, s). length s)" by simp
qed simp

declare scan_lines.simps [simp del]

lemma set_drop_cr: "set (drop_cr s) \<subseteq> set s"
  by (auto simp: drop_cr_def dest: in_set_butlastD)

text \<open>No line contains a newline, and every line is shorter than the limit.\<close>

lemma scan_lines_lines:
  "l \<in> set (fst (scan_lines limit s)) \<Longrightarrow> CHR 0x0A \<notin> set l \<and> length l < limit"
proof (induction limit s rule: scan_lines.induct)
  case (1 limit s)
  define line where "line = takeWhile (\<lambda>c. c \<noteq> CHR 0x0A) s"
  define rest where "rest = tl (dropWhile (\<lambda>c. c \<noteq> CHR 0x0A) s)"
  have eq: "scan_lines limit s = (if s = [] then ([], False) else if limit \<le> length line then ([], True)
      else if line = s then ([drop_cr s], False)
      else (drop_cr line # fst (scan_lines limit rest), snd (scan_lines limit rest)))"
    unfolding scan_lines.simps [of limit s] Let_def line_def rest_def case_prod_unfold by (rule refl)
  have "CHR 0x0A \<notin> set line" using set_takeWhileD [of "CHR 0x0A" "\<lambda>c. c \<noteq> CHR 0x0A" s] by (auto simp: line_def)
  then have cr: "CHR 0x0A \<notin> set (drop_cr line) \<and> length (drop_cr line) \<le> length line"
    using set_drop_cr [of line] by (fastforce simp: drop_cr_def)
  have s: "s \<noteq> []" "\<not> limit \<le> length line" using "1.prems" by (simp_all add: eq split: if_splits)
  show ?case
  proof (cases "line = s")
    case True
    then have "l = drop_cr line" using "1.prems" s by (simp add: eq)
    with cr s show ?thesis by simp
  next
    case False
    then have "l = drop_cr line \<or> l \<in> set (fst (scan_lines limit rest))" using "1.prems" s by (simp add: eq)
    moreover have "l \<in> set (fst (scan_lines limit rest)) \<Longrightarrow> CHR 0x0A \<notin> set l \<and> length l < limit"
      by (rule "1.IH" [OF s(1) line_def s(2) False, folded rest_def])
    ultimately show ?thesis using cr s(2) by (elim disjE) simp_all
  qed
qed

text \<open>Lines that were written with a newline after each are read back.\<close>

lemma scan_lines_concat:
  assumes "list_all (\<lambda>l. CHR 0x0A \<notin> set l \<and> length l < limit \<and> drop_cr l = l) ls"
  shows "scan_lines limit (concat (map (\<lambda>l. l @ [CHR 0x0A]) ls)) = (ls, False)"
  using assms
proof (induction ls)
  case (Cons l ls)
  let ?s = "l @ CHR 0x0A # concat (map (\<lambda>l. l @ [CHR 0x0A]) ls)"
  have "takeWhile (\<lambda>c. c \<noteq> CHR 0x0A) ?s = l" "dropWhile (\<lambda>c. c \<noteq> CHR 0x0A) ?s = CHR 0x0A # concat (map (\<lambda>l. l @ [CHR 0x0A]) ls)"
    using Cons.prems by (auto simp: takeWhile_append dropWhile_append)
  with Cons show ?case by (simp add: scan_lines.simps [of limit ?s] Let_def)
qed (simp add: scan_lines.simps)

section \<open>Streams of lines\<close>

text \<open>What successive calls of \<open>ReadBytes\<close> up to the newline return of a stream; an incomplete last line
  is not returned.\<close>

fun stream_lines :: "string \<Rightarrow> string list" where
  "stream_lines [] = []"
| "stream_lines (c # cs) =
     (if c = CHR 0x0A then [c] # stream_lines cs
      else (case stream_lines cs of [] \<Rightarrow> [] | l # ls \<Rightarrow> (c # l) # ls))"

lemma stream_lines_line: "CHR 0x0A \<notin> set d \<Longrightarrow> stream_lines (d @ CHR 0x0A # s) = (d @ [CHR 0x0A]) # stream_lines s"
  by (induction d) auto

end
