(* ===== verification/BridgeSession.thy ===== *)
theory BridgeSession
  imports Bridge StdioClient LineScanner
begin

text \<open>
  The stdio client of \<open>internal/mcpclient\<close> connected to the bridge of \<open>internal/bridge\<close>: the lines the
  client writes are the bridge's input, the bytes the bridge writes are what the client reads. That
  the two JSON codecs agree on the messages exchanged is a hypothesis, which theory BridgeJson discharges.
\<close>

section \<open>The pipe\<close>

definition bridge_stream :: "(rpc_message \<Rightarrow> error + string) \<Rightarrow> rpc_message list \<Rightarrow> string" where
  "bridge_stream marshal msgs = concat (map (writeJSON marshal) msgs)"

text \<open>What the client writes for a list of requests, its counter being at \<open>i\<close>.\<close>

fun sent_lines :: "stdio_io \<Rightarrow> 64 word \<Rightarrow> (string \<times> json option) list \<Rightarrow> string list" where
  "sent_lines io i [] = []"
| "sent_lines io i ((meth, params) # reqs) =
     sum.projr (io_marshal io (Request (i + 1) meth params)) # sent_lines io (i + 1) reqs"

text \<open>What a message of the bridge is for the client.\<close>

fun response_of :: "rpc_message \<Rightarrow> stdio_response" where
  "response_of (RpcResult i v) = \<lparr> rs_id = i, rs_result = Some v, rs_error = None \<rparr>"
| "response_of (RpcError i code msg) = \<lparr> rs_id = i, rs_result = None, rs_error = Some msg \<rparr>"
| "response_of (RpcNotification m) = \<lparr> rs_id = None, rs_result = None, rs_error = None \<rparr>"

fun reply_result :: "string \<Rightarrow> rpc_message \<Rightarrow> error + raw_message" where
  "reply_result meth (RpcResult i v) = Inr (Some v)"
| "reply_result meth (RpcError i code msg) = Inl (Errorf (''mcpclient: '' @ meth @ '' failed: '' @ msg))"
| "reply_result meth (RpcNotification m) = Inr None"

text \<open>The codecs agree: the client reads a message of the bridge as it was meant, and the bridge a
  request of the client.\<close>

definition message_ok :: "(rpc_message \<Rightarrow> error + string) \<Rightarrow> stdio_io \<Rightarrow> rpc_message \<Rightarrow> bool" where
  "message_ok marshal io m \<longleftrightarrow>
     (case marshal m of Inl e \<Rightarrow> False
      | Inr data \<Rightarrow> CHR 0x0A \<notin> set data \<and> io_parse io (data @ [CHR 0x0A]) = Inr (response_of m))"

definition request_ok ::
    "stdio_io \<Rightarrow> (string \<Rightarrow> error + rpc_request) \<Rightarrow> 64 word \<Rightarrow> string \<Rightarrow> json option \<Rightarrow> bool" where
  "request_ok io parse i meth params \<longleftrightarrow> meth \<noteq> ''notifications/initialized'' \<and>
     (case io_marshal io (Request i meth params) of Inl e \<Rightarrow> False
      | Inr line \<Rightarrow> line \<noteq> [] \<and> io_write io (line @ [CHR 0x0A]) = None \<and>
          (case parse line of Inl e \<Rightarrow> False
           | Inr req \<Rightarrow> rpc_request_id req = Some (fmt_d (sint i)) \<and> rpc_method req = meth))"

fun requests_ok ::
    "stdio_io \<Rightarrow> (string \<Rightarrow> error + rpc_request) \<Rightarrow> 64 word \<Rightarrow> (string \<times> json option) list \<Rightarrow> bool" where
  "requests_ok io parse i [] \<longleftrightarrow> True"
| "requests_ok io parse i ((meth, params) # reqs) \<longleftrightarrow>
     request_ok io parse (i + 1) meth params \<and> requests_ok io parse (i + 1) reqs"

section \<open>Lemmas\<close>

text \<open>The lines of a stream of messages are the messages.\<close>

definition wire_line :: "(rpc_message \<Rightarrow> error + string) \<Rightarrow> rpc_message \<Rightarrow> string" where
  "wire_line marshal m = sum.projr (marshal m) @ [CHR 0x0A]"

lemma stream_lines_messages:
  "list_all (message_ok marshal io) ms \<Longrightarrow>
     stream_lines (bridge_stream marshal ms @ s) = map (wire_line marshal) ms @ stream_lines s"
proof (induction ms)
  case (Cons m ms)
  then obtain data where "marshal m = Inr data" "CHR 0x0A \<notin> set data"
    by (auto simp: message_ok_def split: sum.splits)
  with Cons show ?case
    by (simp add: bridge_stream_def writeJSON_def wire_line_def stream_lines_line)
qed (simp add: bridge_stream_def)

lemma response_to_wire:
  assumes "message_ok marshal io m"
  shows "response_to io i meth (wire_line marshal m) =
    (if reply_id m = Some (Some (fmt_d (sint i))) then Some (reply_result meth m) else None)"
proof -
  have "io_parse io (wire_line marshal m) = Inr (response_of m)"
    using assms by (auto simp: message_ok_def wire_line_def split: sum.splits)
  then show ?thesis by (cases m) (auto simp: response_to_def reply_id_def)
qed

definition served ::
    "stdio_io \<Rightarrow> (string \<Rightarrow> error + rpc_request) \<Rightarrow> (string option \<Rightarrow> error + string \<times> json) \<Rightarrow> int \<Rightarrow>
     64 word \<Rightarrow> string \<Rightarrow> json option \<Rightarrow> bridge \<Rightarrow> rpc_message list" where
  "served io parse decode now i meth params b =
     fst (serve_line parse decode now (sum.projr (io_marshal io (Request i meth params))) b)"

text \<open>One line of the client at the bridge: one reply, after at most a notification.\<close>

lemma served_request:
  assumes "request_ok io parse i meth params"
  shows "\<exists>pre m. served io parse decode now i meth params b = pre @ [m] \<and> reply_id m = Some (Some (fmt_d (sint i))) \<and>
    list_all (\<lambda>n. reply_id n = None) pre"
proof -
  obtain line req where req: "io_marshal io (Request i meth params) = Inr line" "line \<noteq> []"
      "parse line = Inr req" "rpc_request_id req = Some (fmt_d (sint i))"
      "rpc_method req \<noteq> ''notifications/initialized''"
    using assms(1) by (auto simp: request_ok_def split: sum.splits)
  have ms: "served io parse decode now i meth params b = fst (handleMessage decode now req b)"
    using req(1-3) by (simp add: served_def serve_line_def)
  show ?thesis
    using handleMessage_replies [of req decode now b] req(4,5) unfolding ms
    by (auto simp: list_changed_def reply_id_def list_all_iff)
qed


lemma bridge_request:
  assumes req: "request_ok io parse (sc_next_id c + 1) meth params"
    and ok: "list_all (message_ok marshal io) (served io parse decode now (sc_next_id c + 1) meth params b)"
    and leaked: "sc_leaked c = 0"
    and unread: "sc_unread c = map Inr (stream_lines (bridge_stream marshal (served io parse decode now (sc_next_id c + 1) meth params b) @ s))"
  shows "(\<exists>c'. stdio_request io meth params c (reply_result meth (last (served io parse decode now (sc_next_id c + 1) meth params b))) c') \<and>
    (\<forall>r c'. stdio_request io meth params c r c' \<longrightarrow> r \<in> Inl ` ctx_errors \<or>
       r = reply_result meth (last (served io parse decode now (sc_next_id c + 1) meth params b)) \<and>
       sc_unread c' = map Inr (stream_lines s) \<and> sc_leaked c' = 0 \<and> sc_next_id c' = sc_next_id c + 1)"
proof -
  let ?i = "sc_next_id c + 1"
  let ?ms = "served io parse decode now ?i meth params b"
  obtain pre m where nm: "?ms = pre @ [m]" "reply_id m = Some (Some (fmt_d (sint ?i)))"
      "list_all (\<lambda>n. reply_id n = None) pre"
    using served_request [OF req, of decode now b] by blast
  note oks = ok [unfolded nm(1) list_all_append, THEN conjunct1] ok [unfolded nm(1) list_all_append, THEN conjunct2]
  have skip: "\<forall>l \<in> set (map (wire_line marshal) pre). response_to io ?i meth l = None"
    using oks(1) nm(3) response_to_wire by (auto simp: list_all_iff)
  have ends: "ends_with io ?i meth (Inr (wire_line marshal m)) (reply_result meth m)"
    using oks(2) nm(2) response_to_wire [of marshal io m ?i meth] by (simp add: ends_with_def)
  have "sc_unread c = map Inr (map (wire_line marshal) pre) @ Inr (wire_line marshal m) # map Inr (stream_lines s)"
    unfolding unread using stream_lines_messages [OF ok, of s] by (simp add: nm(1))
  moreover have "fst (stdio_write io (Request ?i meth params) c) = None"
    using req by (auto simp: request_ok_def stdio_write_def Let_def split: sum.splits)
  ultimately show ?thesis
    using request_alone [OF leaked _ skip ends] request_unread unfolding nm(1) last_snoc by blast
qed

section \<open>Properties\<close>

text \<open>the client gets the bridge's answers. When a client's requests are served by a bridge, one after
  the other, and no context ends, the result of each is what the bridge's last message for that very
  request says: its result, or its error as an error of the client; whatever notifications come in
  between are skipped.\<close>

theorem client_gets_bridge_answers:
  assumes "client_session io c reqs rs c'" and "sc_leaked c = 0"
    and "requests_ok io parse (sc_next_id c) reqs" and "length nows = length reqs"
    and "ls = zip nows (sent_lines io (sc_next_id c) reqs)"
    and "list_all (message_ok marshal io) (fst (Serve parse decode ls b))"
    and "sc_unread c = map Inr (stream_lines (bridge_stream marshal (fst (Serve parse decode ls b))))"
    and "set rs \<inter> Inl ` ctx_errors = {}"
  shows "length rs = length reqs \<and> (\<forall>k < length reqs.
    rs ! k = reply_result (fst (reqs ! k)) (last (fst (serve_line parse decode (fst (ls ! k)) (snd (ls ! k))
      (snd (Serve parse decode (take k ls) b))))))"
  using assms
proof (induction arbitrary: nows ls b rule: client_session.induct)
  case (session_end c)
  then show ?case by simp
next
  case (session_step meth params c r c1 reqs rs c')
  let ?line = "sum.projr (io_marshal io (Request (sc_next_id c + 1) meth params))"
  obtain now nows' where nows: "nows = now # nows'" "length nows' = length reqs"
    using session_step.prems(3) by (cases nows) auto
  define ls' where "ls' = zip nows' (sent_lines io (sc_next_id c + 1) reqs)"
  have ls: "ls = (now, ?line) # ls'" using session_step.prems(4) by (simp add: nows(1) ls'_def)
  obtain out b' where line: "serve_line parse decode now ?line b = (out, b')" by (metis prod.exhaust)
  obtain outs b'' where rest: "Serve parse decode ls' b' = (outs, b'')" by (metis prod.exhaust)
  have serve: "fst (Serve parse decode ls b) = out @ outs" by (simp add: ls line rest)
  note bridge = bridge_request [of io parse c meth params marshal decode now b "bridge_stream marshal outs", unfolded served_def line fst_conv]
  have "request_ok io parse (sc_next_id c + 1) meth params" "list_all (message_ok marshal io) out"
    "sc_unread c = map Inr (stream_lines (bridge_stream marshal out @ bridge_stream marshal outs))"
    using session_step.prems unfolding serve by (simp_all add: bridge_stream_def)
  note bridge = bridge [OF this(1,2) session_step.prems(1) this(3)]
  have r: "r = reply_result meth (last out) \<and> sc_unread c1 = map Inr (stream_lines (bridge_stream marshal outs)) \<and>
      sc_leaked c1 = 0 \<and> sc_next_id c1 = sc_next_id c + 1"
    using bridge session_step.hyps(1) session_step.prems(7) by auto
  have "length rs = length reqs \<and> (\<forall>k < length reqs.
      rs ! k = reply_result (fst (reqs ! k)) (last (fst (serve_line parse decode (fst (ls' ! k)) (snd (ls' ! k))
        (snd (Serve parse decode (take k ls') b'))))))"
  proof (rule session_step.IH [of nows' ls' b'])
    show "list_all (message_ok marshal io) (fst (Serve parse decode ls' b'))"
      using session_step.prems(5) unfolding serve rest by simp
  qed (use r session_step.prems(2,7) nows(2) in \<open>simp_all add: ls'_def rest [unfolded ls'_def]\<close>)
  then show ?case
    using r line by (auto simp: ls nth_Cons case_prod_unfold Let_def split: nat.split)
qed


section \<open>Witness\<close>

text \<open>Codecs on which a request is its number and a reply the number of its request.\<close>

definition wire_io :: stdio_io where
  "wire_io = \<lparr> io_marshal = (\<lambda>v. case v of Request i m p \<Rightarrow> Inr (fmt_d (sint i)) | Notification m p \<Rightarrow> Inr m),
     io_write = (\<lambda>s. None),
     io_parse = (\<lambda>l. Inr \<lparr> rs_id = Some (TrimSuffix l [CHR 0x0A]), rs_result = Some (JObj []), rs_error = None \<rparr>) \<rparr>"

definition wire_marshal :: "rpc_message \<Rightarrow> error + string" where
  "wire_marshal m = (case m of RpcResult (Some i) v \<Rightarrow> Inr i | _ \<Rightarrow> Inl (Errorf ''unsupported''))"

definition wire_parse :: "string \<Rightarrow> error + rpc_request" where
  "wire_parse l = Inr \<lparr> rpc_request_id = Some l, rpc_method = ''ping'', rpc_params = None \<rparr>"

definition wire_bridge :: bridge where
  "wire_bridge = NewBridge NewMemoryRegistry (NewDeferredResolver \<lparr> do_all_capabilities = [], do_fallback = None,
     do_window_size = 0, do_narrow_threshold = 0 \<rparr>) None"

theorem client_gets_bridge_answers_witness:
  "\<exists>c'. client_session wire_io (NewStdioClient [Inr [CHR ''1'', CHR 0x0A]]) [(''ping'', None)] [Inr (Some (JObj []))] c' \<and>
     Inr (Some (JObj [])) = reply_result ''ping'' (last (fst (serve_line wire_parse (\<lambda>p. Inl (Errorf [])) 7 ''1'' wire_bridge)))"
proof -
  let ?c = "NewStdioClient [Inr [CHR ''1'', CHR 0x0A]]"
  let ?ls = "[(7 :: int, ''1'')]"
  let ?b = wire_bridge and ?dec = "\<lambda>p :: string option. Inl (Errorf []) :: error + string \<times> json"
  have c: "sc_leaked ?c = 0" "sc_unread ?c = map Inr [] @ Inr [CHR ''1'', CHR 0x0A] # []" "sc_next_id ?c = 0"
    "\<forall>l \<in> set []. response_to wire_io (sc_next_id ?c + 1) ''ping'' l = None"
    "ends_with wire_io (sc_next_id ?c + 1) ''ping'' (Inr [CHR ''1'', CHR 0x0A]) (Inr (Some (JObj [])))"
    "fst (stdio_write wire_io (Request (sc_next_id ?c + 1) ''ping'' None) ?c) = None"
    by (simp_all add: NewStdioClient_def ends_with_def) code_simp+
  obtain c' where "stdio_request wire_io ''ping'' None ?c (Inr (Some (JObj []))) c'"
    using request_alone [OF c(1,2,4,5,6)] by blast
  then have s: "client_session wire_io ?c [(''ping'', None)] [Inr (Some (JObj []))] c'"
    by (blast intro: session_step session_end)
  have ok: "requests_ok wire_io wire_parse (sc_next_id ?c) [(''ping'', None)]"
    "?ls = zip [7 :: int] (sent_lines wire_io (sc_next_id ?c) [(''ping'', None)])" by code_simp+
  have out: "fst (Serve wire_parse ?dec ?ls ?b) = [RpcResult (Some ''1'') (JObj [])]"
    by (simp add: serve_line_def wire_parse_def handleMessage_def)
  have msg: "list_all (message_ok wire_marshal wire_io) [RpcResult (Some ''1'') (JObj [])]"
    "sc_unread ?c = map Inr (stream_lines (bridge_stream wire_marshal [RpcResult (Some ''1'') (JObj [])]))"
    by code_simp+
  have no: "set [Inr (Some (JObj []))] \<inter> Inl ` ctx_errors = {}" by auto
  show ?thesis
    using client_gets_bridge_answers [OF s c(1) ok(1) _ ok(2), of wire_marshal ?dec ?b] msg no s
    unfolding out by auto
qed

end
