(* ===== verification/Builder.thy ===== *)
theory Builder
  imports Registry
begin

text \<open>
  The manifest builder of \<open>internal/builder/builder.go\<close>. It is a client of the interface
  \<open>tool_source\<close>: what it promises is proved inside that locale, for every tool source, and the
  properties use the interpretation by the registry's \<open>Lookup\<close>. The id that the \<open>IDSource\<close>
  mints in a call is an argument of the call.
\<close>

section \<open>Options\<close>

record build_options =
  bo_ttl :: string
  bo_feedback_endpoint :: string
  bo_max_tokens_per_action :: int
  bo_audit_level :: audit_level

definition DefaultOptions :: build_options where
  "DefaultOptions =
     \<lparr> bo_ttl = ''300s'', bo_feedback_endpoint = ''/v1/feedback'',
       bo_max_tokens_per_action = 15000, bo_audit_level = AuditFull \<rparr>"

text \<open>\<open>New\<close>: zero values fall back to the defaults.\<close>

definition NewOptions :: "build_options \<Rightarrow> build_options" where
  "NewOptions opts =
     \<lparr> bo_ttl = (if bo_ttl opts = [] then bo_ttl DefaultOptions else bo_ttl opts),
       bo_feedback_endpoint =
         (if bo_feedback_endpoint opts = [] then bo_feedback_endpoint DefaultOptions
          else bo_feedback_endpoint opts),
       bo_max_tokens_per_action =
         (if bo_max_tokens_per_action opts = 0 then bo_max_tokens_per_action DefaultOptions
          else bo_max_tokens_per_action opts),
       bo_audit_level =
         (if bo_audit_level opts = [] then bo_audit_level DefaultOptions
          else bo_audit_level opts) \<rparr>"

definition ErrNoMatchingTools :: error where
  "ErrNoMatchingTools = Errorf ''builder: no tools match resolved capabilities''"

section \<open>Build\<close>

text \<open>The short action ids \<open>a1\<close>, \<open>a2\<close>, \<open>\<dots>\<close> and the tools they are given to.\<close>

definition action_id :: "nat \<Rightarrow> string" where
  "action_id i = ''a'' @ dec (i + 1)"

definition with_ids :: "tool list \<Rightarrow> (string \<times> tool) list" where
  "with_ids ts = zip (map action_id [0..<length ts]) ts"

text \<open>\<open>availableCaps\<close>: the map from a lowercased capability to the ids that satisfy it.\<close>

type_synonym cap_index = "(string \<times> string list) list"

definition ids_of :: "cap_index \<Rightarrow> string \<Rightarrow> string list" where
  "ids_of m c = (case map_of m c of None \<Rightarrow> [] | Some ids \<Rightarrow> ids)"

fun add_caps :: "string \<Rightarrow> string list \<Rightarrow> cap_index \<Rightarrow> cap_index" where
  "add_caps i [] m = m"
| "add_caps i (c # cs) m =
     add_caps i cs (AList.update (ToLower c) (ids_of m (ToLower c) @ [i]) m)"

fun availableCaps :: "(string \<times> tool) list \<Rightarrow> cap_index \<Rightarrow> cap_index" where
  "availableCaps [] m = m"
| "availableCaps ((i, t) # rest) m = availableCaps rest (add_caps i (t_capabilities t) m)"

definition dependsOnFor :: "string \<Rightarrow> tool \<Rightarrow> cap_index \<Rightarrow> string list" where
  "dependsOnFor selfID t available =
     (if t_depends_on_caps t = [] then []
      else sorted_keys (filter (\<lambda>i. i \<noteq> selfID)
        (concat (map (\<lambda>c. ids_of available (ToLower c)) (t_depends_on_caps t)))))"

definition build_action :: "cap_index \<Rightarrow> string \<times> tool \<Rightarrow> action" where
  "build_action available it =
     (let (i, t) = it in
      \<lparr> a_id = i, a_type = t_type t, a_endpoint = t_endpoint t, a_method = t_method t,
        a_schema = t_schema t, a_auth = t_auth t, a_timeout = t_timeout t,
        a_depends_on = dependsOnFor i t available \<rparr>)"

definition Build ::
    "(string list \<Rightarrow> tool list) \<Rightarrow> build_options \<Rightarrow> string \<Rightarrow> context_request \<Rightarrow> string list \<Rightarrow>
     error + exec_manifest" where
  "Build tools opts newID req capabilities =
     (let found = tools capabilities in
      if found = [] then Inl ErrNoMatchingTools
      else
        let its = with_ids (sort_key t_id found);
            available = availableCaps its [] in
        Inr \<lparr> m_id = newID, m_version = ProtocolVersion, m_ttl = bo_ttl opts,
              m_actions = map (build_action available) its,
              m_boundaries =
                \<lparr> b_egress = sorted_keys (concat (map (\<lambda>(i, t). t_egress t) its)),
                  b_max_tokens_per_action = bo_max_tokens_per_action opts,
                  b_require_approval = map fst (filter (\<lambda>(i, t). t_require_approv t) its),
                  b_audit_level = bo_audit_level opts \<rparr>,
              m_feedback_endpoint = bo_feedback_endpoint opts \<rparr>)"

section \<open>Lemmas\<close>

lemma action_id_inject [simp]: "action_id i = action_id j \<longleftrightarrow> i = j"
  by (simp add: action_id_def)

lemma ids_of_Nil [simp]: "ids_of [] c = []"
  by (simp add: ids_of_def)

lemma set_ids_of_add_caps:
  "x \<in> set (ids_of (add_caps i cs m) c) \<longleftrightarrow>
     x \<in> set (ids_of m c) \<or> x = i \<and> c \<in> ToLower ` set cs"
  by (induction i cs m rule: add_caps.induct) (auto simp: ids_of_def update_conv')

lemma set_ids_of_availableCaps:
  "x \<in> set (ids_of (availableCaps its m) c) \<longleftrightarrow>
     x \<in> set (ids_of m c) \<or> (\<exists>t. (x, t) \<in> set its \<and> c \<in> ToLower ` set (t_capabilities t))"
  by (induction its m rule: availableCaps.induct) (auto simp: set_ids_of_add_caps)

lemma map_fst_with_ids [simp]: "map fst (with_ids ts) = map action_id [0..<length ts]"
  by (simp add: with_ids_def)

lemma map_snd_with_ids [simp]: "map snd (with_ids ts) = ts"
  by (simp add: with_ids_def)

lemma length_with_ids [simp]: "length (with_ids ts) = length ts"
  by (simp add: with_ids_def)

lemma set_with_ids: "(x, t) \<in> set (with_ids ts) \<longleftrightarrow> (\<exists>i < length ts. x = action_id i \<and> t = ts ! i)"
  by (force simp: with_ids_def set_zip)

lemma distinct_with_ids: "distinct (map fst (with_ids ts))"
  by (simp add: distinct_map inj_on_def)

lemma set_dependsOnFor:
  "x \<in> set (dependsOnFor i t available) \<longleftrightarrow>
     x \<noteq> i \<and> (\<exists>d \<in> set (t_depends_on_caps t). x \<in> set (ids_of available (ToLower d)))"
  by (auto simp: dependsOnFor_def)

text \<open>The manifest of a successful build, for the tools in id order.\<close>

definition built :: "tool list \<Rightarrow> build_options \<Rightarrow> string \<Rightarrow> exec_manifest" where
  "built ts opts newID =
     (let its = with_ids ts in
      \<lparr> m_id = newID, m_version = ProtocolVersion, m_ttl = bo_ttl opts,
        m_actions = map (build_action (availableCaps its [])) its,
        m_boundaries =
          \<lparr> b_egress = sorted_keys (concat (map (\<lambda>(i, t). t_egress t) its)),
            b_max_tokens_per_action = bo_max_tokens_per_action opts,
            b_require_approval = map fst (filter (\<lambda>(i, t). t_require_approv t) its),
            b_audit_level = bo_audit_level opts \<rparr>,
        m_feedback_endpoint = bo_feedback_endpoint opts \<rparr>)"

lemma Build_eq:
  "Build tools opts newID req caps =
     (if tools caps = [] then Inl ErrNoMatchingTools
      else Inr (built (sort_key t_id (tools caps)) opts newID))"
  by (simp add: Build_def built_def Let_def)

lemma Build_Inr:
  "Build tools opts newID req caps = Inr mf \<longleftrightarrow>
     tools caps \<noteq> [] \<and> mf = built (sort_key t_id (tools caps)) opts newID"
  by (auto simp: Build_eq)

text \<open>A tool depends on another one when it depends on a capability the other offers.\<close>

definition depends_on_tool :: "tool \<Rightarrow> tool \<Rightarrow> bool" where
  "depends_on_tool t u \<longleftrightarrow>
     list_ex (\<lambda>d. list_ex (\<lambda>c. ToLower d = ToLower c) (t_capabilities u)) (t_depends_on_caps t)"

lemma m_id_built [simp]: "m_id (built ts opts n) = n"
  by (simp add: built_def Let_def)

lemma length_built [simp]: "length (m_actions (built ts opts n)) = length ts"
  by (simp add: built_def Let_def)

lemma action_ids_built [simp]: "action_ids (built ts opts n) = map action_id [0..<length ts]"
proof -
  have "a_id (build_action m it) = fst it" for m it
    by (simp add: build_action_def split_beta)
  then have "action_ids (built ts opts n) = map fst (with_ids ts)"
    by (simp add: built_def Let_def o_def)
  then show ?thesis by simp
qed

lemma built_action:
  assumes "i < length ts"
  shows "m_actions (built ts opts n) ! i =
    build_action (availableCaps (with_ids ts) []) (action_id i, ts ! i)"
  using assms by (simp add: built_def Let_def) (simp add: with_ids_def)

lemma built_depends_on:
  assumes "i < length ts"
  shows "x \<in> set (a_depends_on (m_actions (built ts opts n) ! i)) \<longleftrightarrow>
    (\<exists>j < length ts. j \<noteq> i \<and> x = action_id j \<and> depends_on_tool (ts ! i) (ts ! j))"
proof -
  have "x \<in> set (a_depends_on (m_actions (built ts opts n) ! i)) \<longleftrightarrow>
      x \<noteq> action_id i \<and> (\<exists>d \<in> set (t_depends_on_caps (ts ! i)). \<exists>u.
        (x, u) \<in> set (with_ids ts) \<and> ToLower d \<in> ToLower ` set (t_capabilities u))"
    by (simp add: built_action assms build_action_def set_dependsOnFor set_ids_of_availableCaps)
  also have "\<dots> \<longleftrightarrow>
      (\<exists>j < length ts. j \<noteq> i \<and> x = action_id j \<and> depends_on_tool (ts ! i) (ts ! j))"
    unfolding set_with_ids depends_on_tool_def list_ex_iff image_iff by auto
  finally show ?thesis .
qed

lemma built_egress:
  "b_egress (m_boundaries (built ts opts n)) = sorted_keys (concat (map t_egress ts))"
proof -
  have "map (\<lambda>(i, t). t_egress t) (with_ids ts) = map t_egress (map snd (with_ids ts))"
    by (simp add: split_beta del: map_snd_with_ids)
  then show ?thesis by (simp only: map_snd_with_ids) (simp add: built_def Let_def)
qed

lemma built_approval:
  "x \<in> set (b_require_approval (m_boundaries (built ts opts n))) \<longleftrightarrow>
     (\<exists>i < length ts. x = action_id i \<and> t_require_approv (ts ! i))"
proof -
  have "x \<in> set (b_require_approval (m_boundaries (built ts opts n))) \<longleftrightarrow>
      (\<exists>t. (x, t) \<in> set (with_ids ts) \<and> t_require_approv t)"
    by (force simp: built_def Let_def)
  then show ?thesis unfolding set_with_ids by blast
qed

section \<open>What a client of a tool source gets\<close>

context tool_source begin

lemma sorted_tools_distinct: "inv r \<Longrightarrow> distinct (map t_id (sort_key t_id (lookup r caps)))"
  using lookup_distinct [of r caps] by (simp add: distinct_map)

lemma build_same_tools:
  assumes "inv r" and "inv r'" and "set (lookup r caps) = set (lookup r' caps)"
  shows "Build (lookup r) opts newID req caps = Build (lookup r') opts newID req caps"
proof -
  have "inj_on t_id (set (lookup r caps))" "distinct (lookup r caps)" "distinct (lookup r' caps)"
    using lookup_distinct assms(1,2) by (auto simp: distinct_map)
  then have "sort_key t_id (lookup r caps) = sort_key t_id (lookup r' caps)"
    by (intro sort_key_unique assms(3))
  moreover have "lookup r caps = [] \<longleftrightarrow> lookup r' caps = []"
    using assms(3) by (metis set_empty)
  ultimately show ?thesis by (simp add: Build_eq)
qed

lemma built_matches:
  assumes "inv r" and "i < length (lookup r caps)"
  shows "tool_matches (normalizeSet caps) (sort_key t_id (lookup r caps) ! i)"
proof -
  have "sort_key t_id (lookup r caps) ! i \<in> set (sort_key t_id (lookup r caps))"
    using assms(2) by (intro nth_mem) simp
  with assms(1) show ?thesis by (simp add: lookup_matches)
qed

end

lemma sort_Lookup [simp]: "sort_key t_id (Lookup r caps) = Lookup r caps"
  by (simp add: sort_key_id sorted_Lookup)

definition seeded :: registry where
  "seeded = snd (Seed Register NewMemoryRegistry)"

lemma registry_inv_seeded [simp]: "registry_inv seeded"
  unfolding seeded_def using memory_registry.seeded by auto

definition demo_request :: context_request where
  "demo_request = \<lparr> rq_intent = ''report'', rq_agent_id = ''agent'', rq_capabilities = [],
     rq_constraints = None \<rparr>"

definition seed_caps :: "string list" where
  "seed_caps = [''SQL'', ''template'', ''email '']"

definition seed_manifest :: exec_manifest where
  "seed_manifest = built (Lookup seeded seed_caps) DefaultOptions ''m1''"

lemma seed_manifest:
  "Build (Lookup seeded) DefaultOptions ''m1'' demo_request seed_caps = Inr seed_manifest"
proof -
  have "Lookup seeded seed_caps \<noteq> []" by code_simp
  then show ?thesis unfolding seed_manifest_def by (simp add: Build_eq)
qed

section \<open>The builder's interface\<close>

text \<open>What holds of every manifest a builder returns: the ids of its actions are distinct, its
  approval list and the dependencies of its actions name its actions, and none depends on itself.\<close>

definition wf_manifest :: "exec_manifest \<Rightarrow> bool" where
  "wf_manifest mf \<longleftrightarrow>
     distinct (action_ids mf) \<and>
     list_all (\<lambda>i. i \<in> set (action_ids mf)) (b_require_approval (m_boundaries mf)) \<and>
     list_all (\<lambda>a. list_all (\<lambda>d. d \<in> set (action_ids mf) \<and> d \<noteq> a_id a) (a_depends_on a)) (m_actions mf)"

text \<open>The interface \<open>Builder\<close> of the server: a manifest carries the minted id and is valid.\<close>

locale manifest_builder =
  fixes build :: "string \<Rightarrow> context_request \<Rightarrow> string list \<Rightarrow> error + exec_manifest"
    and valid :: "exec_manifest \<Rightarrow> bool"
  assumes build_id: "build newID req caps = Inr mf \<Longrightarrow> m_id mf = newID"
    and build_valid: "build newID req caps = Inr mf \<Longrightarrow> valid mf"

lemma wf_manifest_built: "wf_manifest (built ts opts n)"
proof -
  have "list_all (\<lambda>d. d \<in> set (action_ids (built ts opts n)) \<and> d \<noteq> a_id a) (a_depends_on a)"
    if "a \<in> set (m_actions (built ts opts n))" for a
  proof -
    from that obtain i where i: "i < length ts" "a = m_actions (built ts opts n) ! i"
      by (auto simp: in_set_conv_nth)
    moreover have "a_id a = action_id i" using i by (simp add: built_action build_action_def)
    ultimately show ?thesis
      unfolding action_ids_built using built_depends_on [OF i(1)] by (auto simp: list_all_iff)
  qed
  moreover have "list_all (\<lambda>i. i \<in> set (action_ids (built ts opts n)))
      (b_require_approval (m_boundaries (built ts opts n)))"
    unfolding action_ids_built by (auto simp: list_all_iff built_approval)
  moreover have "distinct (action_ids (built ts opts n))"
    unfolding action_ids_built by (simp add: distinct_map inj_on_def)
  ultimately show ?thesis by (simp add: wf_manifest_def list_all_iff)
qed

interpretation builder: manifest_builder "Build tools opts" wf_manifest for tools opts
  by unfold_locales (auto simp: Build_Inr wf_manifest_built)

section \<open>Properties\<close>

text \<open>C5: \<open>Build\<close> fails, with \<open>ErrNoMatchingTools\<close>, exactly when no tool matches. Otherwise the
  manifest has one action per matching tool, in the order of the tool ids, with the distinct short
  ids \<open>a1\<close>, \<open>a2\<close>, \<open>\<dots>\<close>, each a copy of its tool, and every tool carries a requested tag; the
  egress list is the sorted union of the tools' hosts, the approval list names exactly the actions
  of the tools that ask for it, and the rest comes from the options.\<close>

theorem Build_manifest:
  assumes "registry_inv r"
  shows "case Build (Lookup r) opts newID req caps of
      Inl e \<Rightarrow> e = ErrNoMatchingTools \<and> Lookup r caps = []
    | Inr mf \<Rightarrow> (let ts = Lookup r caps in
        ts \<noteq> [] \<and> length (m_actions mf) = length ts \<and> distinct (action_ids mf) \<and>
        (\<forall>i. i < length ts \<longrightarrow>
           (let a = m_actions mf ! i; t = ts ! i in
             a_id a = ''a'' @ dec (i + 1) \<and> a_type a = t_type t \<and> a_endpoint a = t_endpoint t \<and>
             a_method a = t_method t \<and> a_schema a = t_schema t \<and> a_auth a = t_auth t \<and>
             a_timeout a = t_timeout t \<and> tool_matches (normalizeSet caps) t \<and>
             (a_id a \<in> set (b_require_approval (m_boundaries mf)) \<longleftrightarrow> t_require_approv t))) \<and>
        set (b_require_approval (m_boundaries mf)) \<subseteq> set (action_ids mf) \<and>
        b_egress (m_boundaries mf) = sorted_keys (concat (map t_egress ts)) \<and>
        m_id mf = newID \<and> m_version mf = ProtocolVersion \<and> m_ttl mf = bo_ttl opts \<and>
        b_max_tokens_per_action (m_boundaries mf) = bo_max_tokens_per_action opts \<and>
        b_audit_level (m_boundaries mf) = bo_audit_level opts \<and>
        m_feedback_endpoint mf = bo_feedback_endpoint opts)"
proof (cases "Lookup r caps = []")
  case False
  let ?ts = "Lookup r caps"
  have "set (b_require_approval (m_boundaries (built ?ts opts newID))) \<subseteq>
      set (action_ids (built ?ts opts newID))"
    unfolding action_ids_built by (auto simp: built_approval)
  moreover have "tool_matches (normalizeSet caps) (?ts ! i)" if "i < length ?ts" for i
    using registry_source.built_matches [OF assms that] by simp
  moreover have "distinct (action_ids (built ?ts opts newID))"
    unfolding action_ids_built by (simp add: distinct_map inj_on_def)
  ultimately show ?thesis
    using False
    by (simp add: Build_eq Let_def built_action built_approval built_egress)
      (simp add: built_def build_action_def action_id_def Let_def)
qed (simp add: Build_eq)

theorem Build_manifest_witness:
  "Build (Lookup seeded) DefaultOptions ''m1'' demo_request seed_caps = Inr seed_manifest \<and>
   action_ids seed_manifest = [''a1'', ''a2'', ''a3''] \<and> distinct (action_ids seed_manifest) \<and>
   b_require_approval (m_boundaries seed_manifest) = [''a2'']"
proof -
  have "distinct (action_ids seed_manifest)"
    using Build_manifest [OF registry_inv_seeded, where caps = seed_caps and opts = DefaultOptions
      and newID = "''m1''" and req = demo_request]
    unfolding seed_manifest sum.case Let_def by (elim conjE)
  moreover have "action_ids seed_manifest = [''a1'', ''a2'', ''a3'']"
    and "b_require_approval (m_boundaries seed_manifest) = [''a2'']"
    by code_simp+
  ultimately show ?thesis using seed_manifest by (intro conjI)
qed

text \<open>C8: the dependencies of an action are exactly the ids of the other actions of the same
  manifest whose tool offers a capability that the action's tool depends on, sorted, each once;
  in particular no action depends on itself or on an id outside the manifest.\<close>

theorem depends_on_exact:
  assumes "registry_inv r" and "Build (Lookup r) opts newID req caps = Inr mf"
    and "i < length (m_actions mf)"
  shows "let a = m_actions mf ! i; ts = Lookup r caps in
    set (a_depends_on a) = {a_id (m_actions mf ! j) | j.
       j < length ts \<and> j \<noteq> i \<and> depends_on_tool (ts ! i) (ts ! j)} \<and>
    sorted (a_depends_on a) \<and> distinct (a_depends_on a) \<and>
    a_id a \<notin> set (a_depends_on a) \<and> set (a_depends_on a) \<subseteq> set (action_ids mf)"
proof -
  have mf: "mf = built (Lookup r caps) opts newID"
    using assms(2) by (simp add: Build_Inr)
  have i: "i < length (Lookup r caps)" using assms(3) by (simp add: mf)
  have ids: "a_id (m_actions mf ! j) = action_id j" if "j < length (Lookup r caps)" for j
    using that by (simp add: mf built_action build_action_def)
  have deps: "x \<in> set (a_depends_on (m_actions mf ! i)) \<longleftrightarrow> (\<exists>j < length (Lookup r caps). j \<noteq> i \<and>
      x = action_id j \<and> depends_on_tool (Lookup r caps ! i) (Lookup r caps ! j))" for x
    unfolding mf by (rule built_depends_on [OF i])
  have "sorted (a_depends_on (m_actions mf ! i)) \<and> distinct (a_depends_on (m_actions mf ! i))"
    by (simp add: mf built_action i build_action_def dependsOnFor_def)
  moreover have "set (a_depends_on (m_actions mf ! i)) \<subseteq> set (action_ids mf)"
    unfolding mf action_ids_built using deps [unfolded mf] by auto
  moreover have "a_id (m_actions mf ! i) \<notin> set (a_depends_on (m_actions mf ! i))"
    using deps ids [OF i] by auto
  moreover have "set (a_depends_on (m_actions mf ! i)) = {a_id (m_actions mf ! j) | j.
      j < length (Lookup r caps) \<and> j \<noteq> i \<and>
      depends_on_tool (Lookup r caps ! i) (Lookup r caps ! j)}"
    using deps ids by (auto intro: sym) metis
  ultimately show ?thesis unfolding Let_def by blast
qed

theorem depends_on_exact_witness:
  "a_depends_on (m_actions seed_manifest ! 1) = [''a1'', ''a3''] \<and>
   distinct (a_depends_on (m_actions seed_manifest ! 1)) \<and>
   a_id (m_actions seed_manifest ! 1) \<notin> set (a_depends_on (m_actions seed_manifest ! 1))"
proof -
  have "1 < length (m_actions seed_manifest)"
    and "a_depends_on (m_actions seed_manifest ! 1) = [''a1'', ''a3'']" by code_simp+
  with depends_on_exact [OF registry_inv_seeded seed_manifest, of 1]
  show ?thesis unfolding Let_def by blast
qed

text \<open>\<open>Build\<close> is pure and deterministic: two visits of the same registry, whose map is ranged
  over in random order, give the same manifest for the same minted id.\<close>

theorem Build_deterministic:
  assumes "registry_inv r" and "same_map r r'"
  shows "Build (Lookup r) opts newID req caps = Build (Lookup r') opts newID req caps"
proof (rule registry_source.build_same_tools)
  show "registry_inv r" by (rule assms(1))
  show "registry_inv r'"
    using assms by (auto simp: registry_inv_def same_map_def list_all_iff)
  show "set (Lookup r caps) = set (Lookup r' caps)"
    using assms(2) by (simp add: set_Lookup same_map_def)
qed

theorem Build_deterministic_witness:
  "Build (Lookup three_tools) DefaultOptions ''m'' demo_request [''sql''] =
   Build (Lookup (rev three_tools)) DefaultOptions ''m'' demo_request [''sql'']"
proof (rule Build_deterministic)
  show "registry_inv three_tools" by code_simp
  show "same_map three_tools (rev three_tools)"
    by (simp add: same_map_def wf_map_def rev_map [symmetric]) code_simp
qed

text \<open>The dependency relation of a manifest, and that of a set of tools.\<close>

definition dep_rel :: "exec_manifest \<Rightarrow> (string \<times> string) set" where
  "dep_rel mf = {(d, a_id a) | d a. a \<in> set (m_actions mf) \<and> d \<in> set (a_depends_on a)}"

definition tool_dep :: "tool list \<Rightarrow> (string \<times> string) set" where
  "tool_dep ts = {(t_id u, t_id t) | t u.
     t \<in> set ts \<and> u \<in> set ts \<and> t_id t \<noteq> t_id u \<and> depends_on_tool t u}"

lemma dep_rel_built:
  "dep_rel (built ts opts n) \<subseteq>
     {(action_id j, action_id i) | i j. i < length ts \<and> j < length ts \<and> i \<noteq> j \<and>
        depends_on_tool (ts ! i) (ts ! j)}"
proof
  fix p assume "p \<in> dep_rel (built ts opts n)"
  then obtain d a where a: "p = (d, a_id a)" "a \<in> set (m_actions (built ts opts n))"
    "d \<in> set (a_depends_on a)" by (auto simp: dep_rel_def)
  then obtain i where i: "i < length ts" "a = m_actions (built ts opts n) ! i"
    by (auto simp: in_set_conv_nth)
  moreover have "a_id a = action_id i" using i by (simp add: built_action build_action_def)
  ultimately show "p \<in> {(action_id j, action_id i) | i j. i < length ts \<and> j < length ts \<and>
      i \<noteq> j \<and> depends_on_tool (ts ! i) (ts ! j)}"
    using a built_depends_on [OF i(1), of d opts n] by auto
qed

lemma acyclic_built:
  assumes "distinct (map t_id ts)" and "acyclic (tool_dep ts)"
  shows "acyclic (dep_rel (built ts opts n))"
proof (rule acyclicI, rule allI, rule notI)
  define at where "at a = t_id (ts ! (THE i. a = action_id i))" for a
  have at: "at (action_id i) = t_id (ts ! i)" for i by (simp add: at_def)
  have at_step: "(at x, at y) \<in> tool_dep ts" if "(x, y) \<in> dep_rel (built ts opts n)" for x y
  proof -
    from subsetD [OF dep_rel_built that] obtain i j where ij: "x = action_id j" "y = action_id i"
      "i < length ts" "j < length ts" "i \<noteq> j" "depends_on_tool (ts ! i) (ts ! j)" by auto
    then have "t_id (ts ! i) \<noteq> t_id (ts ! j)"
      using nth_eq_iff_index_eq [OF assms(1), of i j] by simp
    with ij show ?thesis unfolding tool_dep_def at by (simp add: at) (metis nth_mem)
  qed
  have "(at x, at y) \<in> (tool_dep ts)\<^sup>+" if "(x, y) \<in> (dep_rel (built ts opts n))\<^sup>+" for x y
    using that
  proof (induction rule: trancl_induct)
    case (step y z)
    then show ?case using at_step by (blast intro: trancl_into_trancl)
  qed (auto intro: at_step)
  moreover fix x assume "(x, x) \<in> (dep_rel (built ts opts n))\<^sup>+"
  ultimately show False using assms(2) by (auto simp: acyclic_def)
qed

text \<open>C25: the \<open>depends_on\<close> relation of a manifest is a DAG whenever the capability dependencies
  between the matching tools are acyclic.\<close>

theorem depends_on_acyclic:
  assumes "registry_inv r" and "Build (Lookup r) opts newID req caps = Inr mf"
    and "acyclic (tool_dep (Lookup r caps))"
  shows "acyclic (dep_rel mf)"
proof -
  have "mf = built (Lookup r caps) opts newID"
    using assms(2) by (simp add: Build_Inr)
  then show ?thesis
    using acyclic_built [OF distinct_Lookup [OF assms(1)] assms(3)] by simp
qed

theorem depends_on_acyclic_witness: "acyclic (dep_rel seed_manifest)"
proof (rule depends_on_acyclic [OF registry_inv_seeded seed_manifest])
  let ?rank = "\<lambda>i. if i = ''db.query'' then 0 else if i = ''template.render'' then 1 else 2 :: nat"
  let ?ts = "Lookup seeded seed_caps"
  have "list_all (\<lambda>t. list_all (\<lambda>u. t_id t \<noteq> t_id u \<and> depends_on_tool t u \<longrightarrow>
      ?rank (t_id u) < ?rank (t_id t)) ?ts) ?ts"
    by code_simp
  then have "tool_dep ?ts \<subseteq> measure ?rank"
    by (auto simp: tool_dep_def list_all_iff)
  then show "acyclic (tool_dep ?ts)" by (rule acyclic_subset [OF wf_acyclic [OF wf_measure]])
qed

text \<open>Two tools, each of which depends on what the other offers.\<close>

definition cyclic_tools :: "tool list" where
  "cyclic_tools = map (\<lambda>(i, own, other).
      \<lparr> t_id = i, t_type = ''http'', t_endpoint = [], t_method = ''POST'', t_schema = [],
        t_auth = AuthNone, t_timeout = [], t_capabilities = [own], t_egress = [],
        t_depends_on_caps = [other], t_require_approv = False \<rparr>)
     [(''x'', ''p'', ''q''), (''y'', ''q'', ''p'')]"

text \<open>nothing in \<open>Register\<close> or \<open>Build\<close> rejects tools that depend on each other: such a
  registry is accepted and yields a manifest with a dependency cycle, which no agent can run.\<close>

theorem Build_can_return_a_cycle:
  "\<exists>r mf. register_each Register cyclic_tools NewMemoryRegistry = (None, r) \<and>
     (\<forall>req. Build (Lookup r) DefaultOptions ''m'' req [''p'', ''q''] = Inr mf) \<and>
     (''a1'', ''a2'') \<in> dep_rel mf \<and> (''a2'', ''a1'') \<in> dep_rel mf"
proof -
  define r where "r = snd (register_each Register cyclic_tools NewMemoryRegistry)"
  define mf where "mf = built (Lookup r [''p'', ''q'']) DefaultOptions ''m''"
  have "register_each Register cyclic_tools NewMemoryRegistry = (None, r)"
    unfolding r_def by code_simp
  moreover have "Lookup r [''p'', ''q''] \<noteq> []" unfolding r_def by code_simp
  then have "Build (Lookup r) DefaultOptions ''m'' req [''p'', ''q''] = Inr mf" for req
    by (simp add: Build_eq mf_def)
  moreover have acts: "map (\<lambda>a. (a_id a, a_depends_on a)) (m_actions mf) =
      [(''a1'', [''a2'']), (''a2'', [''a1''])]"
    unfolding mf_def r_def by code_simp
  have "(d, i) \<in> dep_rel mf"
    if "(i, ds) \<in> set (map (\<lambda>a. (a_id a, a_depends_on a)) (m_actions mf))" "d \<in> set ds" for i ds d
    using that unfolding dep_rel_def by auto
  then have "(''a1'', ''a2'') \<in> dep_rel mf" "(''a2'', ''a1'') \<in> dep_rel mf"
    unfolding acts by auto
  ultimately show ?thesis by blast
qed

end
