(* ===== verification/Http.thy ===== *)
theory Http
  imports Manifest
begin

text \<open>
  What the HTTP parts share: header maps with \<open>CanonicalHeaderKey\<close>, \<open>Get\<close>, \<open>Set\<close>, \<open>Add\<close> and
  \<open>Del\<close> of \<open>net/http\<close>, requests, and responses with the bodies the handlers write (by content:
  theory WireJson has the JSON text that carries it).
\<close>

section \<open>Headers\<close>

text \<open>A \<open>http.Header\<close> is a Go map from key to values.\<close>

type_synonym headers = "(string \<times> string list) list"

text \<open>\<open>validHeaderFieldByte\<close>: the bytes of an RFC 7230 token.\<close>

definition token_char :: "char \<Rightarrow> bool" where
  "token_char c \<longleftrightarrow> lower_letter c \<or> upper_letter c \<or> digit_char c \<or>
     c \<in> set [CHR ''!'', CHR ''#'', CHR ''$'', CHR ''%'', CHR ''&'', CHR 0x27, CHR ''*'', CHR ''+'',
       CHR ''-'', CHR ''.'', CHR ''^'', CHR ''_'', CHR 0x60, CHR ''|'', CHR ''~'']"

fun canonical_bytes :: "bool \<Rightarrow> string \<Rightarrow> string" where
  "canonical_bytes up [] = []"
| "canonical_bytes up (c # cs) =
     (if up then upper_char c else lower_char c) # canonical_bytes (c = CHR ''-'') cs"

definition CanonicalHeaderKey :: "string \<Rightarrow> string" where
  "CanonicalHeaderKey k = (if list_all token_char k then canonical_bytes True k else k)"

definition header_values :: "headers \<Rightarrow> string \<Rightarrow> string list" where
  "header_values h k = (case map_of h k of None \<Rightarrow> [] | Some vs \<Rightarrow> vs)"

definition HeaderGet :: "headers \<Rightarrow> string \<Rightarrow> string" where
  "HeaderGet h k = (case header_values h (CanonicalHeaderKey k) of [] \<Rightarrow> [] | v # _ \<Rightarrow> v)"

definition HeaderSet :: "string \<Rightarrow> string \<Rightarrow> headers \<Rightarrow> headers" where
  "HeaderSet k v h = AList.update (CanonicalHeaderKey k) [v] h"

definition HeaderAdd :: "string \<Rightarrow> string \<Rightarrow> headers \<Rightarrow> headers" where
  "HeaderAdd k v h =
     AList.update (CanonicalHeaderKey k) (header_values h (CanonicalHeaderKey k) @ [v]) h"

definition HeaderDel :: "string \<Rightarrow> headers \<Rightarrow> headers" where
  "HeaderDel k h = AList.delete (CanonicalHeaderKey k) h"

lemma header_values_Nil [simp]: "header_values [] k = []"
  by (simp add: header_values_def)

lemma header_values_Set [header_simps]:
  "header_values (HeaderSet k v h) j = (if j = CanonicalHeaderKey k then [v] else header_values h j)"
  by (simp add: header_values_def HeaderSet_def update_conv')

lemma header_values_Add [header_simps]:
  "header_values (HeaderAdd k v h) j =
     (if j = CanonicalHeaderKey k then header_values h j @ [v] else header_values h j)"
  by (simp add: header_values_def HeaderAdd_def update_conv')

lemma header_values_Del [header_simps]:
  "header_values (HeaderDel k h) j = (if j = CanonicalHeaderKey k then [] else header_values h j)"
  by (simp add: header_values_def HeaderDel_def delete_conv')

lemma of_char_upper_char:
  "(of_char (upper_char c) :: nat) = (if lower_letter c then of_char c - 32 else of_char c)"
proof (cases "lower_letter c")
  case True
  then have "(of_char c :: nat) \<le> 122" by (simp add: lower_letter_def less_eq_char_def)
  with True show ?thesis by (simp add: upper_char_def)
qed (simp add: upper_char_def)

lemma upper_char_dash: "upper_char c = CHR ''-'' \<longleftrightarrow> c = CHR ''-''"
proof (cases "lower_letter c")
  case True
  then have "97 \<le> (of_char c :: nat)" by (simp add: lower_letter_def less_eq_char_def)
  with True have "upper_char c \<noteq> CHR ''-''" "c \<noteq> CHR ''-''"
    using of_char_upper_char [of c] by auto
  then show ?thesis by simp
qed (simp add: upper_char_def)

lemma lower_char_dash: "lower_char c = CHR ''-'' \<longleftrightarrow> c = CHR ''-''"
proof (cases "upper_letter c")
  case True
  then have "65 \<le> (of_char c :: nat)" by (simp add: upper_letter_code)
  with True have "lower_char c \<noteq> CHR ''-''" "c \<noteq> CHR ''-''"
    using of_char_lower_char [of c] by auto
  then show ?thesis by simp
qed (simp add: lower_char_def)

lemma upper_letter_upper_char: "lower_letter c \<Longrightarrow> upper_letter (upper_char c)"
  using of_char_upper_char [of c]
  by (auto simp: upper_letter_code lower_letter_def less_eq_char_def)

lemma lower_letter_lower_char: "upper_letter c \<Longrightarrow> lower_letter (lower_char c)"
  using of_char_lower_char [of c]
  by (auto simp: upper_letter_code lower_letter_def less_eq_char_def)

lemma upper_char_idem: "upper_char (upper_char c) = upper_char c"
proof (cases "lower_letter c")
  case True
  then have "\<not> lower_letter (upper_char c)"
    using upper_letter_upper_char [OF True]
    by (auto simp: upper_letter_code lower_letter_def less_eq_char_def)
  then show ?thesis by (simp add: upper_char_def [of "upper_char c"])
qed (simp add: upper_char_def)

lemma token_upper_char: "token_char c \<Longrightarrow> token_char (upper_char c)"
  using upper_letter_upper_char [of c] upper_char_def [of c]
  by (cases "lower_letter c") (simp_all add: token_char_def)

lemma token_lower_char: "token_char c \<Longrightarrow> token_char (lower_char c)"
  using lower_letter_lower_char [of c] lower_char_def [of c]
  by (cases "upper_letter c") (simp_all add: token_char_def)

lemma CanonicalHeaderKey_idem [simp]:
  "CanonicalHeaderKey (CanonicalHeaderKey k) = CanonicalHeaderKey k"
proof -
  have "list_all token_char (canonical_bytes up k)" if "list_all token_char k" for up
    using that by (induction up k rule: canonical_bytes.induct)
      (simp_all add: token_upper_char token_lower_char)
  moreover have "canonical_bytes up (canonical_bytes up k) = canonical_bytes up k" for up
    by (induction up k rule: canonical_bytes.induct)
      (simp_all add: upper_char_idem upper_char_dash lower_char_dash)
  ultimately show ?thesis by (simp add: CanonicalHeaderKey_def)
qed

text \<open>Adding every value of a header map, in one order of its visit.\<close>

definition add_values :: "string \<Rightarrow> string list \<Rightarrow> headers \<Rightarrow> headers" where
  "add_values k vs h = fold (HeaderAdd k) vs h"

definition add_headers :: "headers \<Rightarrow> headers \<Rightarrow> headers" where
  "add_headers creds h = fold (\<lambda>(k, vs). add_values k vs) creds h"

definition values_for :: "headers \<Rightarrow> string \<Rightarrow> string list" where
  "values_for creds j = concat (map snd (filter (\<lambda>(k, vs). CanonicalHeaderKey k = j) creds))"

lemma header_values_add_values [header_simps]:
  "header_values (add_values k vs h) j =
     (if j = CanonicalHeaderKey k then header_values h j @ vs else header_values h j)"
  unfolding add_values_def
  by (induction vs arbitrary: h) (simp_all add: header_simps)

lemma header_values_add_headers [header_simps]:
  "header_values (add_headers creds h) j = header_values h j @ values_for creds j"
  unfolding add_headers_def
  by (induction creds arbitrary: h) (auto simp: header_simps values_for_def)

lemma values_for_not_canonical: "CanonicalHeaderKey k \<noteq> k \<Longrightarrow> values_for creds k = []"
  by (induction creds) (auto simp: values_for_def)

section \<open>Requests and responses\<close>

record request =
  r_method :: string
  r_path :: string
  r_escaped_path :: string
  r_raw_query :: string
  r_host :: string
  r_headers :: headers
  r_body :: string

text \<open>The bodies the handlers write.\<close>

datatype body =
  ErrorJson string
| StatusJson string
| ManifestJson exec_manifest
| Bytes string

record response =
  s_status :: nat
  s_headers :: headers
  s_body :: body

definition json_response :: "nat \<Rightarrow> body \<Rightarrow> response" where
  "json_response status b =
     \<lparr> s_status = status, s_headers = [(''Content-Type'', [''application/json''])], s_body = b \<rparr>"

abbreviation "StatusOK \<equiv> 200 :: nat"
abbreviation "StatusAccepted \<equiv> 202 :: nat"
abbreviation "StatusTemporaryRedirect \<equiv> 307 :: nat"
abbreviation "StatusBadRequest \<equiv> 400 :: nat"
abbreviation "StatusUnauthorized \<equiv> 401 :: nat"
abbreviation "StatusForbidden \<equiv> 403 :: nat"
abbreviation "StatusNotFound \<equiv> 404 :: nat"
abbreviation "StatusMethodNotAllowed \<equiv> 405 :: nat"
abbreviation "StatusUnprocessableEntity \<equiv> 422 :: nat"
abbreviation "StatusInternalServerError \<equiv> 500 :: nat"
abbreviation "StatusBadGateway \<equiv> 502 :: nat"

text \<open>\<open>url.URL\<close>, the fields the repository reads; \<open>url.Parse\<close> is an argument where it is called.\<close>

record url =
  u_scheme :: string
  u_host :: string
  u_path :: string
  u_raw_path :: string
  u_raw_query :: string

type_synonym url_parser = "string \<Rightarrow> error + url"

end
