(* ===== verification/Proxy.thy ===== *)
theory Proxy
  imports Http
begin

text \<open>
  The auth-injection proxy of \<open>internal/proxy/proxy.go\<close>: the in-memory manifest store, the
  approval gates, the static credential injector, and \<open>ServeHTTP\<close> as the decision the handler
  takes (\<open>exec_decision\<close>: a reply of its own, or a request for the upstream) followed by the
  round trip. \<open>url.Parse\<close>, the preparation of outgoing headers inside \<open>httputil.ReverseProxy\<close>
  and the network round trip are arguments.
\<close>

section \<open>The manifest store\<close>

type_synonym memory_store = "(string \<times> exec_manifest) list"

definition NewMemoryStore :: memory_store where
  "NewMemoryStore = []"

definition Put :: "exec_manifest option \<Rightarrow> memory_store \<Rightarrow> memory_store" where
  "Put mf s =
     (case mf of None \<Rightarrow> s
      | Some mf \<Rightarrow> if m_id mf = [] then s else AList.update (m_id mf) mf s)"

definition Get_manifest :: "memory_store \<Rightarrow> string \<Rightarrow> exec_manifest option" where
  "Get_manifest s i = map_of s i"

text \<open>
  What the server and the proxy together rely on: the store finds what was put under its id, and
  keeps the rest.
\<close>

locale manifest_store =
  fixes put :: "exec_manifest \<Rightarrow> 's \<Rightarrow> 's"
    and get :: "'s \<Rightarrow> string \<Rightarrow> exec_manifest option"
    and empty :: 's
  assumes get_put:
      "get (put mf s) i = (if i = m_id mf \<and> i \<noteq> [] then Some mf else get s i)"
    and get_empty: "get empty i = None"
begin

text \<open>Every manifest of a store filled by \<open>put\<close> was put under its own, non-empty id.\<close>

definition filled_from :: "exec_manifest list \<Rightarrow> 's \<Rightarrow> bool" where
  "filled_from mfs s \<longleftrightarrow> (\<forall>i mf. get s i = Some mf \<longrightarrow> mf \<in> set mfs \<and> m_id mf = i \<and> i \<noteq> [])"

lemma filled_from_empty: "filled_from [] empty"
  by (simp add: filled_from_def get_empty)

lemma filled_from_put: "filled_from mfs s \<Longrightarrow> filled_from (mf # mfs) (put mf s)"
  by (auto simp: filled_from_def get_put)

lemma filled_from_fold: "filled_from (rev mfs) (fold put mfs empty)"
  by (induction mfs rule: rev_induct) (simp_all add: filled_from_empty filled_from_put)

end

interpretation memory_store: manifest_store "\<lambda>mf. Put (Some mf)" Get_manifest NewMemoryStore
  by unfold_locales (simp_all add: Put_def Get_manifest_def NewMemoryStore_def update_conv')

section \<open>Approval gates and injectors\<close>

type_synonym approval_gate = "string \<Rightarrow> string \<Rightarrow> bool"
type_synonym injector = "string \<Rightarrow> action \<Rightarrow> error + headers"

definition AlwaysApprove :: approval_gate where
  "AlwaysApprove manifestID actionID = True"

definition AlwaysDeny :: approval_gate where
  "AlwaysDeny manifestID actionID = False"

record map_injector =
  mi_per_action :: "(string \<times> headers) list"
  mi_per_action_id :: "(string \<times> headers) list"

definition Inject :: "map_injector option \<Rightarrow> injector" where
  "Inject m manifestID a =
     (case m of None \<Rightarrow> Inr []
      | Some m \<Rightarrow>
        (case map_of (mi_per_action m) (manifestID @ ''|'' @ a_id a) of
           Some h \<Rightarrow> Inr h
         | None \<Rightarrow>
           (case map_of (mi_per_action_id m) (a_id a) of Some h \<Rightarrow> Inr h | None \<Rightarrow> Inr [])))"

section \<open>The handler\<close>

definition ExecPathPrefix :: string where
  "ExecPathPrefix = ''/v1/exec/''"

definition splitExecPath :: "string \<Rightarrow> (string \<times> string) option" where
  "splitExecPath rest =
     (case Split CHR ''/'' rest of
        m # a # _ \<Rightarrow> if m = [] \<or> a = [] then None else Some (m, a)
      | _ \<Rightarrow> None)"

definition findAction :: "exec_manifest \<Rightarrow> string \<Rightarrow> action option" where
  "findAction mf i = find (\<lambda>a. a_id a = i) (m_actions mf)"

definition requiresApproval :: "exec_manifest \<Rightarrow> string \<Rightarrow> bool" where
  "requiresApproval mf actionID \<longleftrightarrow>
     list_ex (\<lambda>i. i = actionID) (b_require_approval (m_boundaries mf))"

definition egressAllowed :: "exec_manifest \<Rightarrow> string \<Rightarrow> bool" where
  "egressAllowed mf host \<longleftrightarrow>
     list_ex (\<lambda>allowed. EqualFold allowed (before_byte CHR '':'' (ToLower host)))
       (b_egress (m_boundaries mf))"

text \<open>\<open>Config\<close> and \<open>Handler\<close>: \<open>New\<close> makes a missing gate deny; the other two are checked by the
  handler. Theory Telemetry has what is logged.\<close>

record 's proxy_config =
  p_store :: "('s \<Rightarrow> string \<Rightarrow> exec_manifest option) option"
  p_injector :: "injector option"
  p_approval :: "approval_gate option"

record 's proxy_handler =
  h_store :: "('s \<Rightarrow> string \<Rightarrow> exec_manifest option) option"
  h_injector :: "injector option"
  h_approval :: approval_gate

definition NewProxy :: "'s proxy_config \<Rightarrow> 's proxy_handler" where
  "NewProxy cfg =
     \<lparr> h_store = p_store cfg, h_injector = p_injector cfg,
       h_approval = (case p_approval cfg of None \<Rightarrow> AlwaysDeny | Some g \<Rightarrow> g) \<rparr>"

text \<open>\<open>writeError\<close> prints its JSON with \<open>%q\<close> and, unlike the server's encoder, without a newline; the messages
  are constants without a character that \<open>%q\<close> escapes.\<close>

definition proxyError :: "nat \<Rightarrow> string \<Rightarrow> response" where
  "proxyError status msg = json_response status (Bytes (''{\"error\":'' @ fmt_q msg @ ''}''))"

text \<open>The request the reverse proxy sends: \<open>pr.Out\<close> after \<open>Rewrite\<close>.\<close>

record out_request =
  out_method :: string
  out_url :: url
  out_host :: string
  out_headers :: headers
  out_body :: string

text \<open>\<open>SetXForwarded\<close>, with the client's address and whether it came over TLS.\<close>

record peer =
  peer_ip :: "string option"
  peer_tls :: bool

definition SetXForwarded :: "peer \<Rightarrow> request \<Rightarrow> headers \<Rightarrow> headers" where
  "SetXForwarded p r h =
     HeaderSet ''X-Forwarded-Proto'' (if peer_tls p then ''https'' else ''http'')
       (HeaderSet ''X-Forwarded-Host'' (r_host r)
         (case peer_ip p of
            None \<Rightarrow> HeaderDel ''X-Forwarded-For'' h
          | Some ip \<Rightarrow> HeaderSet ''X-Forwarded-For''
              (let prior = header_values h ''X-Forwarded-For'' in
               if prior = [] then ip else Join '', '' prior @ '', '' @ ip) h))"

text \<open>
  The query part of \<open>SetURL\<close> (its host and path are overwritten by the lines that follow it). The
  argument \<open>query\<close> is the request's query as the reverse proxy has cleaned it.
\<close>

definition joined_query :: "url \<Rightarrow> string \<Rightarrow> string" where
  "joined_query upstream query =
     (if u_raw_query upstream = [] \<or> query = [] then u_raw_query upstream @ query
      else u_raw_query upstream @ ''&'' @ query)"

text \<open>
  The \<open>Rewrite\<close> function. \<open>prepare\<close> is what \<open>ReverseProxy\<close> has made of the request's headers
  and query before it calls \<open>Rewrite\<close>: hop-by-hop and forwarding headers removed, unparsable
  query parameters removed.
\<close>

definition Rewrite ::
    "(request \<Rightarrow> headers \<times> string) \<Rightarrow> peer \<Rightarrow> url \<Rightarrow> headers \<Rightarrow> request \<Rightarrow> out_request" where
  "Rewrite prepare p upstream creds r =
     (let (h, query) = prepare r in
      \<lparr> out_method = r_method r,
        out_url = \<lparr> u_scheme = u_scheme upstream, u_host = u_host upstream,
                    u_path = u_path upstream, u_raw_path = u_raw_path upstream,
                    u_raw_query = joined_query upstream query \<rparr>,
        out_host = u_host upstream,
        out_headers = add_headers creds
          (HeaderDel ''Proxy-Authorization'' (HeaderDel ''Authorization'' (SetXForwarded p r h))),
        out_body = r_body r \<rparr>)"

datatype decision = Reply response | Forward string action url headers

text \<open>The guards of \<open>ServeHTTP\<close>, in the order of the code, up to the reverse proxy.\<close>

definition exec_decision :: "url_parser \<Rightarrow> 's proxy_handler \<Rightarrow> 's \<Rightarrow> string \<Rightarrow> decision" where
  "exec_decision parse h s path =
     (case (h_store h, h_injector h) of
        (Some get, Some inject) \<Rightarrow>
          if \<not> HasPrefix path ExecPathPrefix then
            Reply (proxyError StatusNotFound ''not found'')
          else
          (case splitExecPath (TrimPrefix path ExecPathPrefix) of
             None \<Rightarrow> Reply (proxyError StatusBadRequest
                      ''expected /v1/exec/{manifest_id}/{action_id}'')
           | Some (manifestID, actionID) \<Rightarrow>
          (case get s manifestID of
             None \<Rightarrow> Reply (proxyError StatusNotFound ''manifest not found or expired'')
           | Some mf \<Rightarrow>
          (case findAction mf actionID of
             None \<Rightarrow> Reply (proxyError StatusNotFound ''action not found in manifest'')
           | Some a \<Rightarrow>
          if requiresApproval mf actionID \<and>
             \<not> h_approval h manifestID actionID then
            Reply ((proxyError StatusForbidden ''action requires approval'')
              \<lparr> s_headers := HeaderSet ''X-ACP-Approval-Required'' ''true''
                 [(''Content-Type'', [''application/json''])] \<rparr>)
          else
          (case parse (a_endpoint a) of
             Inl e \<Rightarrow> Reply (proxyError StatusBadGateway ''invalid upstream endpoint'')
           | Inr upstream \<Rightarrow>
          if u_host upstream = [] then
            Reply (proxyError StatusBadGateway ''invalid upstream endpoint'')
          else if \<not> egressAllowed mf (u_host upstream) then
            Reply (proxyError StatusForbidden ''upstream host not in egress allow-list'')
          else
          (case inject manifestID a of
             Inl e \<Rightarrow> Reply (proxyError StatusBadGateway ''credential injection failed'')
           | Inr creds \<Rightarrow> Forward manifestID a upstream creds)))))
      | _ \<Rightarrow> Reply (proxyError StatusInternalServerError ''proxy not configured''))"

text \<open>
  What the proxy relies on outside the repository: \<open>url.Parse\<close>, the reverse proxy's preparation
  of the outgoing request, the peer of the connection, and the round trip to the upstream.
\<close>

record net =
  n_parse :: url_parser
  n_prepare :: "request \<Rightarrow> headers \<times> string"
  n_peer :: "request \<Rightarrow> peer"
  n_transport :: "out_request \<Rightarrow> error + response"

definition exec_sends :: "net \<Rightarrow> 's proxy_handler \<Rightarrow> 's \<Rightarrow> request \<Rightarrow> response + out_request" where
  "exec_sends n h s r =
     (case exec_decision (n_parse n) h s (r_path r) of
        Reply resp \<Rightarrow> Inl resp
      | Forward manifestID a upstream creds \<Rightarrow>
          Inr (Rewrite (n_prepare n) (n_peer n r) upstream creds r))"

definition ExecServeHTTP :: "net \<Rightarrow> 's proxy_handler \<Rightarrow> 's \<Rightarrow> request \<Rightarrow> response" where
  "ExecServeHTTP n h s r =
     (case exec_sends n h s r of
        Inl resp \<Rightarrow> resp
      | Inr out \<Rightarrow>
          (case n_transport n out of
             Inl e \<Rightarrow> proxyError StatusBadGateway ''upstream error''
           | Inr resp \<Rightarrow> resp))"

section \<open>Lemmas\<close>

lemma splitExecPath_iff:
  "splitExecPath rest = Some (m, a) \<longleftrightarrow>
     m \<noteq> [] \<and> a \<noteq> [] \<and> CHR ''/'' \<notin> set m \<and> CHR ''/'' \<notin> set a \<and>
     (\<exists>t. rest = m @ ''/'' @ a @ t \<and> (t = [] \<or> hd t = CHR ''/''))"
proof
  assume "splitExecPath rest = Some (m, a)"
  then obtain ps where ps: "Split CHR ''/'' rest = m # a # ps" and ne: "m \<noteq> []" "a \<noteq> []"
    by (auto simp: splitExecPath_def split: list.splits if_splits)
  have "CHR ''/'' \<notin> set m" "CHR ''/'' \<notin> set a"
    using Split_no_sep [of _ "CHR ''/''" rest] by (simp_all add: ps)
  moreover have "rest = m @ ''/'' @ a @ (if ps = [] then [] else ''/'' @ Join ''/'' ps)"
    using Join_Split [of "CHR ''/''" rest] by (cases ps) (simp_all add: ps)
  ultimately show "m \<noteq> [] \<and> a \<noteq> [] \<and> CHR ''/'' \<notin> set m \<and> CHR ''/'' \<notin> set a \<and>
     (\<exists>t. rest = m @ ''/'' @ a @ t \<and> (t = [] \<or> hd t = CHR ''/''))"
    using ne by (auto intro!: exI [of _ "if ps = [] then [] else ''/'' @ Join ''/'' ps"])
next
  assume "m \<noteq> [] \<and> a \<noteq> [] \<and> CHR ''/'' \<notin> set m \<and> CHR ''/'' \<notin> set a \<and>
     (\<exists>t. rest = m @ ''/'' @ a @ t \<and> (t = [] \<or> hd t = CHR ''/''))"
  then obtain t where t: "rest = m @ CHR ''/'' # a @ t" "t = [] \<or> hd t = CHR ''/''"
    and ne: "m \<noteq> []" "a \<noteq> []" "CHR ''/'' \<notin> set m" "CHR ''/'' \<notin> set a" by auto
  have "\<exists>ps. Split CHR ''/'' (a @ t) = a # ps"
    using t(2) ne(4) by (cases t) (auto simp: Split_segment Split_append)
  with t(1) ne show "splitExecPath rest = Some (m, a)"
    by (auto simp: splitExecPath_def Split_append)
qed

lemma findAction_Some:
  "findAction mf i = Some a \<Longrightarrow> a \<in> set (m_actions mf) \<and> a_id a = i"
  by (auto simp: findAction_def find_Some_iff)

lemma findAction_distinct:
  assumes "distinct (action_ids mf)" and "a \<in> set (m_actions mf)"
  shows "findAction mf (a_id a) = Some a"
proof -
  obtain b where b: "findAction mf (a_id a) = Some b"
    using assms(2) by (cases "findAction mf (a_id a)") (auto simp: findAction_def find_None_iff)
  with findAction_Some [OF b] assms show ?thesis by (auto simp: distinct_map inj_on_def)
qed

lemma requiresApproval_iff:
  "requiresApproval mf i \<longleftrightarrow> i \<in> set (b_require_approval (m_boundaries mf))"
  by (auto simp: requiresApproval_def list_ex_iff)

lemma exec_decision_Forward:
  "exec_decision parse h s path = Forward mid a up creds \<longleftrightarrow>
    (\<exists>get inject rest aid mf. h_store h = Some get \<and> h_injector h = Some inject \<and>
       path = ExecPathPrefix @ rest \<and> splitExecPath rest = Some (mid, aid) \<and>
       get s mid = Some mf \<and> findAction mf aid = Some a \<and>
       (requiresApproval mf aid \<longrightarrow> h_approval h mid aid) \<and>
       parse (a_endpoint a) = Inr up \<and> u_host up \<noteq> [] \<and> egressAllowed mf (u_host up) \<and>
       inject mid a = Inr creds)"
proof (cases "HasPrefix path ExecPathPrefix")
  case True
  then obtain rest where rest: "path = ExecPathPrefix @ rest" unfolding HasPrefix_iff by blast
  show ?thesis
    unfolding exec_decision_def rest TrimPrefix_append
    by (auto simp: HasPrefix_append split: option.splits sum.splits)
next
  case False
  then show ?thesis
    by (auto simp: exec_decision_def HasPrefix_append split: option.splits)
qed

lemma Forward_action:
  assumes "exec_decision parse h s path = Forward mid a up creds"
  obtains get mf where "h_store h = Some get" and "get s mid = Some mf"
    and "a \<in> set (m_actions mf)" and "egressAllowed mf (u_host up)"
    and "parse (a_endpoint a) = Inr up"
    and "requiresApproval mf (a_id a) \<Longrightarrow> h_approval h mid (a_id a)"
    and "\<exists>inject. h_injector h = Some inject \<and> inject mid a = Inr creds"
proof -
  obtain get inject rest aid mf where f: "h_store h = Some get" "h_injector h = Some inject"
    "get s mid = Some mf" "findAction mf aid = Some a"
    "requiresApproval mf aid \<longrightarrow> h_approval h mid aid" "parse (a_endpoint a) = Inr up"
    "egressAllowed mf (u_host up)" "inject mid a = Inr creds"
    using assms unfolding exec_decision_Forward by blast
  note act = findAction_Some [OF f(4)]
  show ?thesis by (rule that [OF f(1,3) _ f(7,6)]) (use f act in simp_all)
qed

lemma exec_sends_Inr:
  "exec_sends n h s r = Inr out \<longleftrightarrow>
    (\<exists>mid a up creds. exec_decision (n_parse n) h s (r_path r) = Forward mid a up creds \<and>
       out = Rewrite (n_prepare n) (n_peer n r) up creds r)"
  by (auto simp: exec_sends_def split: decision.splits)

text \<open>The canonical keys the proxy treats itself.\<close>

lemma canonical_keys [simp]:
  "CanonicalHeaderKey ''Authorization'' = ''Authorization''"
  "CanonicalHeaderKey ''Proxy-Authorization'' = ''Proxy-Authorization''"
  "CanonicalHeaderKey ''X-Forwarded-For'' = ''X-Forwarded-For''"
  "CanonicalHeaderKey ''X-Forwarded-Host'' = ''X-Forwarded-Host''"
  "CanonicalHeaderKey ''X-Forwarded-Proto'' = ''X-Forwarded-Proto''"
  "CanonicalHeaderKey ''Content-Type'' = ''Content-Type''"
  by code_simp+

lemma SetXForwarded_other:
  "k \<notin> {''X-Forwarded-For'', ''X-Forwarded-Host'', ''X-Forwarded-Proto''} \<Longrightarrow>
     header_values (SetXForwarded p r h) k = header_values h k"
  by (auto simp: SetXForwarded_def header_simps split: option.splits)

lemma Rewrite_out_headers:
  "out_headers (Rewrite prepare p up creds r) = add_headers creds
     (HeaderDel ''Proxy-Authorization'' (HeaderDel ''Authorization''
        (SetXForwarded p r (fst (prepare r)))))"
  by (simp add: Rewrite_def split_beta)

lemma header_keys:
  "fst ` set (HeaderSet k v h) = insert (CanonicalHeaderKey k) (fst ` set h)"
  "fst ` set (HeaderAdd k v h) = insert (CanonicalHeaderKey k) (fst ` set h)"
  "fst ` set (HeaderDel k h) = fst ` set h - {CanonicalHeaderKey k}"
  by (simp_all add: HeaderSet_def HeaderAdd_def HeaderDel_def dom_update)
    (auto simp: AList.delete_keys simp flip: set_map)

section \<open>Properties\<close>

text \<open>A concrete manifest, parser and configuration for the witnesses.\<close>

definition demo_action :: action where
  "demo_action = \<lparr> a_id = ''a1'', a_type = ''http'', a_endpoint = ''https://email-gw.svc:443/send'',
     a_method = ''POST'', a_schema = [], a_auth = AuthPreInjected, a_timeout = ''15s'',
     a_depends_on = [] \<rparr>"

definition demo_manifest :: exec_manifest where
  "demo_manifest = \<lparr> m_id = ''m-1'', m_version = ProtocolVersion, m_ttl = ''300s'',
     m_actions = [demo_action],
     m_boundaries = \<lparr> b_egress = [''Email-GW.svc''], b_max_tokens_per_action = 15000,
       b_require_approval = [''a1''], b_audit_level = AuditFull \<rparr>,
     m_feedback_endpoint = ''/v1/feedback'' \<rparr>"

definition demo_url :: url where
  "demo_url = \<lparr> u_scheme = ''https'', u_host = ''email-gw.svc:443'', u_path = ''/send'',
     u_raw_path = [], u_raw_query = [] \<rparr>"

definition demo_parse :: url_parser where
  "demo_parse ep = (if ep = ''https://email-gw.svc:443/send'' then Inr demo_url
     else Inl (Errorf ''parse error''))"

definition demo_injector :: map_injector where
  "demo_injector = \<lparr> mi_per_action = [],
     mi_per_action_id = [(''a1'', [(''authorization'', [''Bearer s3cret'']), (''X-Api-Key'', [''k''])])] \<rparr>"

definition demo_handler :: "memory_store proxy_handler" where
  "demo_handler = NewProxy \<lparr> p_store = Some Get_manifest, p_injector = Some (Inject (Some demo_injector)),
     p_approval = Some AlwaysApprove \<rparr>"

definition demo_store :: memory_store where
  "demo_store = Put (Some demo_manifest) NewMemoryStore"

definition demo_net :: net where
  "demo_net = \<lparr> n_parse = demo_parse, n_prepare = (\<lambda>r. (r_headers r, r_raw_query r)),
     n_peer = (\<lambda>r. \<lparr> peer_ip = Some ''10.0.0.9'', peer_tls = False \<rparr>),
     n_transport = (\<lambda>out. Inr \<lparr> s_status = 200, s_headers = [], s_body = Bytes ''sent'' \<rparr>) \<rparr>"

definition demo_exec :: request where
  "demo_exec = \<lparr> r_method = ''POST'', r_path = ''/v1/exec/m-1/a1/x'',
     r_escaped_path = ''/v1/exec/m-1/a1/x'', r_raw_query = [],
     r_host = ''acp'', r_headers = [(''Authorization'', [''Bearer stolen'']), (''X-Api-Key'', [''mine'']),
       (''Accept'', [''*/*''])],
     r_body = ''hi'' \<rparr>"

text \<open>C1: the proxy is complete mediation. It contacts an upstream exactly when it is configured,
  the path names a manifest and an action, the store holds that manifest and the manifest that
  action, a gated action is approved, the action's endpoint parses to a URL with a host on the
  manifest's egress list, and the injector answers; and what it contacts is that endpoint.\<close>

theorem exec_forwards_iff:
  "exec_decision parse h s path = Forward mid a up creds \<longleftrightarrow>
    (\<exists>get inject mf t. h_store h = Some get \<and> h_injector h = Some inject \<and>
       path = ''/v1/exec/'' @ mid @ ''/'' @ a_id a @ t \<and> (t = [] \<or> hd t = CHR ''/'') \<and>
       mid \<noteq> [] \<and> CHR ''/'' \<notin> set mid \<and> a_id a \<noteq> [] \<and> CHR ''/'' \<notin> set (a_id a) \<and>
       get s mid = Some mf \<and> find (\<lambda>b. a_id b = a_id a) (m_actions mf) = Some a \<and>
       (a_id a \<in> set (b_require_approval (m_boundaries mf)) \<longrightarrow> h_approval h mid (a_id a)) \<and>
       parse (a_endpoint a) = Inr up \<and> u_host up \<noteq> [] \<and>
       (\<exists>e \<in> set (b_egress (m_boundaries mf)).
          EqualFold e (before_byte CHR '':'' (ToLower (u_host up)))) \<and>
       inject mid a = Inr creds)"
proof -
  have act: "(\<exists>rest aid. path = ExecPathPrefix @ rest \<and> splitExecPath rest = Some (mid, aid) \<and>
        findAction mf aid = Some a \<and> P aid) \<longleftrightarrow>
      findAction mf (a_id a) = Some a \<and> P (a_id a) \<and>
      (\<exists>rest. path = ExecPathPrefix @ rest \<and> splitExecPath rest = Some (mid, a_id a))" for mf P
    using findAction_Some [of mf] by blast
  have "exec_decision parse h s path = Forward mid a up creds \<longleftrightarrow>
      (\<exists>get inject mf. h_store h = Some get \<and> h_injector h = Some inject \<and> get s mid = Some mf \<and>
        (\<exists>rest aid. path = ExecPathPrefix @ rest \<and> splitExecPath rest = Some (mid, aid) \<and>
           findAction mf aid = Some a \<and> (requiresApproval mf aid \<longrightarrow> h_approval h mid aid)) \<and>
        parse (a_endpoint a) = Inr up \<and> u_host up \<noteq> [] \<and> egressAllowed mf (u_host up) \<and>
        inject mid a = Inr creds)"
    unfolding exec_decision_Forward by blast
  moreover have "(\<exists>rest. path = ExecPathPrefix @ rest \<and> splitExecPath rest = Some (mid, a_id a)) \<longleftrightarrow>
      mid \<noteq> [] \<and> CHR ''/'' \<notin> set mid \<and> a_id a \<noteq> [] \<and> CHR ''/'' \<notin> set (a_id a) \<and>
      (\<exists>t. path = ''/v1/exec/'' @ mid @ ''/'' @ a_id a @ t \<and> (t = [] \<or> hd t = CHR ''/''))"
    unfolding splitExecPath_iff ExecPathPrefix_def by blast
  ultimately have "exec_decision parse h s path = Forward mid a up creds \<longleftrightarrow>
      (\<exists>get inject mf. h_store h = Some get \<and> h_injector h = Some inject \<and> get s mid = Some mf \<and>
        (findAction mf (a_id a) = Some a \<and> (requiresApproval mf (a_id a) \<longrightarrow> h_approval h mid (a_id a)) \<and>
         (mid \<noteq> [] \<and> CHR ''/'' \<notin> set mid \<and> a_id a \<noteq> [] \<and> CHR ''/'' \<notin> set (a_id a) \<and>
          (\<exists>t. path = ''/v1/exec/'' @ mid @ ''/'' @ a_id a @ t \<and> (t = [] \<or> hd t = CHR ''/'')))) \<and>
        parse (a_endpoint a) = Inr up \<and> u_host up \<noteq> [] \<and> egressAllowed mf (u_host up) \<and>
        inject mid a = Inr creds)"
    by (simp only: act)
  then show ?thesis
    unfolding requiresApproval_iff egressAllowed_def list_ex_iff findAction_def by blast
qed

theorem exec_forwards_iff_witness:
  "exec_decision demo_parse demo_handler demo_store ''/v1/exec/m-1/a1/x'' =
     Forward ''m-1'' demo_action demo_url [(''authorization'', [''Bearer s3cret'']), (''X-Api-Key'', [''k''])]"
proof -
  have "h_store demo_handler = Some Get_manifest"
    "h_injector demo_handler = Some (Inject (Some demo_injector))"
    by (simp_all add: demo_handler_def NewProxy_def)
  moreover have "''/v1/exec/m-1/a1/x'' = ''/v1/exec/'' @ ''m-1'' @ ''/'' @ a_id demo_action @ ''/x''"
    "Get_manifest demo_store ''m-1'' = Some demo_manifest"
    "find (\<lambda>b. a_id b = a_id demo_action) (m_actions demo_manifest) = Some demo_action"
    "h_approval demo_handler ''m-1'' (a_id demo_action)"
    "demo_parse (a_endpoint demo_action) = Inr demo_url" "u_host demo_url \<noteq> []"
    "\<exists>e \<in> set (b_egress (m_boundaries demo_manifest)).
       EqualFold e (before_byte CHR '':'' (ToLower (u_host demo_url)))"
    "Inject (Some demo_injector) ''m-1'' demo_action =
       Inr [(''authorization'', [''Bearer s3cret'']), (''X-Api-Key'', [''k''])]"
    by code_simp+
  moreover have "''m-1'' \<noteq> [] \<and> CHR ''/'' \<notin> set ''m-1'' \<and> a_id demo_action \<noteq> [] \<and>
    CHR ''/'' \<notin> set (a_id demo_action) \<and> (''/x'' = [] \<or> hd ''/x'' = CHR ''/'')"
    by (simp add: demo_action_def)
  ultimately show ?thesis unfolding exec_forwards_iff by blast
qed

text \<open>C9: the agent's credentials never reach an upstream, whatever the agent sends: in a forwarded
  request every header whose name means \<open>Authorization\<close> or \<open>Proxy-Authorization\<close> holds exactly
  what the injector returned for that name.\<close>

theorem no_agent_credentials:
  assumes "exec_sends n h s r = Inr out"
    and "CanonicalHeaderKey k = ''Authorization'' \<or> CanonicalHeaderKey k = ''Proxy-Authorization''"
    and "\<forall>j \<in> fst ` set (fst (n_prepare n r)). CanonicalHeaderKey j = j"
  shows "\<exists>inject mid a creds. h_injector h = Some inject \<and> inject mid a = Inr creds \<and>
    header_values (out_headers out) k =
      (if CanonicalHeaderKey k = k then values_for creds k else [])"
proof -
  obtain mid a up creds where d: "exec_decision (n_parse n) h s (r_path r) = Forward mid a up creds"
    and out: "out = Rewrite (n_prepare n) (n_peer n r) up creds r"
    using assms(1) unfolding exec_sends_Inr by blast
  from d obtain inject where inj: "h_injector h = Some inject" "inject mid a = Inr creds"
    by (rule Forward_action) blast
  let ?h = "HeaderDel ''Proxy-Authorization'' (HeaderDel ''Authorization''
    (SetXForwarded (n_peer n r) r (fst (n_prepare n r))))"
  have "header_values ?h k = []"
  proof (cases "CanonicalHeaderKey k = k")
    case True
    with assms(2) show ?thesis by (auto simp: header_simps)
  next
    case False
    have "fst ` set (SetXForwarded (n_peer n r) r (fst (n_prepare n r))) \<subseteq>
        fst ` set (fst (n_prepare n r)) \<union>
        {''X-Forwarded-For'', ''X-Forwarded-Host'', ''X-Forwarded-Proto''}"
      by (auto simp: SetXForwarded_def header_keys split: option.splits)
    moreover have "k \<notin> fst ` set (fst (n_prepare n r))" using assms(3) False by blast
    moreover have "k \<notin> {''X-Forwarded-For'', ''X-Forwarded-Host'', ''X-Forwarded-Proto''}"
      using False by auto
    ultimately have "k \<notin> fst ` set ?h"
      unfolding header_keys by blast
    then have "map_of ?h k = None" by (simp add: map_of_eq_None_iff)
    then show ?thesis by (simp add: header_values_def)
  qed
  then have "header_values (out_headers out) k =
      (if CanonicalHeaderKey k = k then values_for creds k else [])"
    unfolding out Rewrite_out_headers by (simp add: header_simps values_for_not_canonical)
  with inj show ?thesis by blast
qed

definition demo_sent :: out_request where
  "demo_sent = Rewrite (n_prepare demo_net) (n_peer demo_net demo_exec) demo_url
     [(''authorization'', [''Bearer s3cret'']), (''X-Api-Key'', [''k''])] demo_exec"

lemma demo_sent: "exec_sends demo_net demo_handler demo_store demo_exec = Inr demo_sent"
proof -
  have "exec_decision demo_parse demo_handler demo_store ''/v1/exec/m-1/a1/x'' =
     Forward ''m-1'' demo_action demo_url [(''authorization'', [''Bearer s3cret'']), (''X-Api-Key'', [''k''])]"
    by code_simp
  then show ?thesis
    by (simp add: exec_sends_def demo_sent_def demo_net_def demo_exec_def)
qed

theorem no_agent_credentials_witness:
  "header_values (out_headers demo_sent) ''authorization'' = [] \<and>
   header_values (out_headers demo_sent) ''Authorization'' = [''Bearer s3cret'']"
proof -
  have "CanonicalHeaderKey ''authorization'' = ''Authorization''" by code_simp
  moreover have "\<forall>j \<in> fst ` set (fst (n_prepare demo_net demo_exec)). CanonicalHeaderKey j = j"
    by code_simp
  ultimately have "header_values (out_headers demo_sent) ''authorization'' = []"
    using no_agent_credentials [OF demo_sent, of "''authorization''"] by auto
  moreover have "header_values (out_headers demo_sent) ''Authorization'' = [''Bearer s3cret'']"
    by code_simp
  ultimately show ?thesis by blast
qed

text \<open>only those two headers are stripped. A credential the injector puts in any other header
  is appended to the values the agent sent under that name, so an upstream that reads the header
  with \<open>Get\<close> sees the agent's value, not the injected one.\<close>

theorem agent_header_shadows_credential:
  assumes "exec_decision (n_parse n) h s (r_path r) = Forward mid a up creds"
    and "exec_sends n h s r = Inr out"
    and "CanonicalHeaderKey k \<notin> {''Authorization'', ''Proxy-Authorization'', ''X-Forwarded-For'',
           ''X-Forwarded-Host'', ''X-Forwarded-Proto''}"
  shows "let sent_by_agent = header_values (fst (n_prepare n r)) (CanonicalHeaderKey k) in
    header_values (out_headers out) (CanonicalHeaderKey k) =
      sent_by_agent @ values_for creds (CanonicalHeaderKey k) \<and>
    (sent_by_agent \<noteq> [] \<longrightarrow> HeaderGet (out_headers out) k = hd sent_by_agent)"
proof -
  have "out = Rewrite (n_prepare n) (n_peer n r) up creds r"
    using assms(1,2) by (simp add: exec_sends_def)
  moreover have "header_values (SetXForwarded p r g) (CanonicalHeaderKey k) =
      header_values g (CanonicalHeaderKey k)" for p r g
    using assms(3) by (intro SetXForwarded_other) auto
  ultimately have v: "header_values (out_headers out) (CanonicalHeaderKey k) =
      header_values (fst (n_prepare n r)) (CanonicalHeaderKey k) @
      values_for creds (CanonicalHeaderKey k)"
    using assms(3) by (simp add: Rewrite_out_headers header_simps)
  then show ?thesis
    by (cases "header_values (fst (n_prepare n r)) (CanonicalHeaderKey k)")
      (simp_all add: Let_def HeaderGet_def)
qed

theorem agent_header_shadows_credential_witness:
  "HeaderGet (out_headers demo_sent) ''x-api-key'' = ''mine'' \<and>
   header_values (out_headers demo_sent) ''X-Api-Key'' = [''mine'', ''k'']"
proof -
  have "exec_decision (n_parse demo_net) demo_handler demo_store (r_path demo_exec) =
     Forward ''m-1'' demo_action demo_url [(''authorization'', [''Bearer s3cret'']), (''X-Api-Key'', [''k''])]"
    by code_simp
  moreover have k: "CanonicalHeaderKey ''x-api-key'' = ''X-Api-Key''" by code_simp
  moreover have "header_values (fst (n_prepare demo_net demo_exec)) ''X-Api-Key'' = [''mine'']"
    by code_simp
  moreover have "values_for [(''authorization'', [''Bearer s3cret'']), (''X-Api-Key'', [''k''])]
      ''X-Api-Key'' = [''k'']"
    by code_simp
  ultimately show ?thesis
    using agent_header_shadows_credential [OF _ demo_sent, of "''m-1''" demo_action demo_url _ "''x-api-key''"]
    by (simp add: Let_def)
qed

text \<open>the TTL of a manifest is never enforced: changing it, in any way, in every stored manifest
  changes no decision of the proxy, although the proxy's message says \<open>expired\<close>.\<close>

theorem ttl_is_not_enforced:
  "exec_decision parse (h \<lparr> h_store := map_option (\<lambda>get s i.
       map_option (\<lambda>mf. mf \<lparr> m_ttl := ttl mf \<rparr>) (get s i)) (h_store h) \<rparr>) s path =
   exec_decision parse h s path"
proof -
  have same: "findAction (mf \<lparr> m_ttl := t \<rparr>) = findAction mf"
    "requiresApproval (mf \<lparr> m_ttl := t \<rparr>) = requiresApproval mf"
    "egressAllowed (mf \<lparr> m_ttl := t \<rparr>) = egressAllowed mf" for mf t
    by (intro ext; simp add: findAction_def requiresApproval_def egressAllowed_def)+
  show ?thesis
    unfolding exec_decision_def
    by (auto simp: same split: option.split sum.split)
qed

text \<open>nor are the token budget per action and the audit level among the boundaries.\<close>

theorem budgets_are_not_enforced:
  "exec_decision parse (h \<lparr> h_store := map_option (\<lambda>get s i. map_option (\<lambda>mf. mf \<lparr>
       m_boundaries := (m_boundaries mf) \<lparr> b_max_tokens_per_action := budget mf, b_audit_level := level mf \<rparr> \<rparr>)
     (get s i)) (h_store h) \<rparr>) s path =
   exec_decision parse h s path"
proof -
  have same: "findAction (mf \<lparr> m_boundaries := b \<rparr>) = findAction mf"
    "requiresApproval (mf \<lparr> m_boundaries := (m_boundaries mf) \<lparr> b_max_tokens_per_action := k, b_audit_level := l \<rparr> \<rparr>) =
      requiresApproval mf"
    "egressAllowed (mf \<lparr> m_boundaries := (m_boundaries mf) \<lparr> b_max_tokens_per_action := k, b_audit_level := l \<rparr> \<rparr>) =
      egressAllowed mf" for mf b k l
    by (intro ext; simp add: findAction_def requiresApproval_def egressAllowed_def)+
  show ?thesis
    unfolding exec_decision_def
    by (auto simp: same split: option.split sum.split)
qed



text \<open>the egress check compares hosts without their port and without regard to case; an entry
  is matched as a whole, so a list entry that carries a port never matches.\<close>

theorem egressAllowed_exact:
  assumes "ascii host" and "list_all ascii (b_egress (m_boundaries mf))"
  shows "(egressAllowed mf host \<longleftrightarrow>
      (\<exists>e \<in> set (b_egress (m_boundaries mf)).
         map lower_char e = map lower_char (before_byte CHR '':'' host))) \<and>
    (egressAllowed mf host \<longrightarrow> (\<exists>e \<in> set (b_egress (m_boundaries mf)). CHR '':'' \<notin> set e))"
proof -
  have colon: "lower_char c = CHR '':'' \<longleftrightarrow> c = CHR '':''" for c
  proof (cases "upper_letter c")
    case True
    then have "97 \<le> (of_char (lower_char c) :: nat)" "65 \<le> (of_char c :: nat)"
      by (simp_all add: of_char_lower_char upper_letter_code)
    then have "lower_char c \<noteq> CHR '':''" "c \<noteq> CHR '':''" by auto
    then show ?thesis by simp
  qed (simp add: lower_char_def)
  have lower: "before_byte CHR '':'' (ToLower host) = map lower_char (before_byte CHR '':'' host)"
    unfolding before_byte_def ToLower_ascii [OF assms(1)] takeWhile_map o_def colon ..
  have asc: "ascii (map lower_char (before_byte CHR '':'' host))"
    using assms(1) by (intro ascii_map_lower) (auto simp: ascii_def before_byte_def list_all_iff
        dest: set_takeWhileD)
  have eq: "egressAllowed mf host \<longleftrightarrow> (\<exists>e \<in> set (b_egress (m_boundaries mf)).
         map lower_char e = map lower_char (before_byte CHR '':'' host))"
    using assms(2) asc unfolding egressAllowed_def list_ex_iff lower list_all_iff
    by (auto simp: EqualFold_def o_def)
  have no_colon: "CHR '':'' \<notin> set (before_byte CHR '':'' host)"
    by (auto simp: before_byte_def dest: set_takeWhileD)
  have "CHR '':'' \<notin> set e" if "map lower_char e = map lower_char (before_byte CHR '':'' host)" for e
  proof -
    have "lower_char ` set e = lower_char ` set (before_byte CHR '':'' host)"
      using arg_cong [OF that, of set] by simp
    with no_colon show ?thesis using colon by (metis imageE image_eqI)
  qed
  with eq show ?thesis by blast
qed

theorem egressAllowed_exact_witness:
  "egressAllowed demo_manifest ''EMAIL-gw.svc:443'' \<and>
   \<not> egressAllowed demo_manifest ''email-gw.svc.evil.example''"
proof -
  have "ascii ''EMAIL-gw.svc:443'' \<and> ascii ''email-gw.svc.evil.example'' \<and>
      list_all ascii (b_egress (m_boundaries demo_manifest))" by code_simp
  then have "egressAllowed demo_manifest ''EMAIL-gw.svc:443'' \<longleftrightarrow>
      (\<exists>e \<in> set (b_egress (m_boundaries demo_manifest)).
         map lower_char e = map lower_char (before_byte CHR '':'' ''EMAIL-gw.svc:443''))"
    and "egressAllowed demo_manifest ''email-gw.svc.evil.example'' \<longleftrightarrow>
      (\<exists>e \<in> set (b_egress (m_boundaries demo_manifest)).
         map lower_char e = map lower_char (before_byte CHR '':'' ''email-gw.svc.evil.example''))"
    using egressAllowed_exact by blast+
  moreover have "\<exists>e \<in> set (b_egress (m_boundaries demo_manifest)).
       map lower_char e = map lower_char (before_byte CHR '':'' ''EMAIL-gw.svc:443'')"
    "\<not> (\<exists>e \<in> set (b_egress (m_boundaries demo_manifest)).
       map lower_char e = map lower_char (before_byte CHR '':'' ''email-gw.svc.evil.example''))"
    by code_simp+
  ultimately show ?thesis by blast
qed

text \<open>the cut at the first colon breaks IPv6 literals: an endpoint whose host is on the list,
  in the form a URL has it, is refused, and an entry that no one means as a host lets every address
  of its first group pass.\<close>

theorem egress_ipv6:
  "let mf = (\<lambda>es. demo_manifest \<lparr> m_boundaries := (m_boundaries demo_manifest) \<lparr> b_egress := es \<rparr> \<rparr>) in
   \<not> egressAllowed (mf [''[2001:db8::1]'', ''2001:db8::1'', ''[2001:db8::1]:443'']) ''[2001:db8::1]:443'' \<and>
   egressAllowed (mf [''[2001'']) ''[2001:db8::1]:443'' \<and>
   egressAllowed (mf [''[2001'']) ''[2001:bad::2]:443''"
  by code_simp

end
