(* ===== verification/Server.thy ===== *)
theory Server
  imports Builder Resolver Proxy "HOL-Library.Word"
begin

text \<open>
  The HTTP server of \<open>internal/server/server.go\<close>: the routes of its \<open>http.ServeMux\<close>, the bearer
  check, and the handlers of \<open>/healthz\<close>, \<open>/v1/context\<close> and \<open>/v1/feedback\<close>. The collaborators
  are the fields of \<open>Config\<close>; the state is the one they share, the manifest store and the
  feedback counter. The id minted during a request and the JSON decoders (theory WireJson has them) are
  arguments; theory Telemetry adds the spans and the log lines, ServerSteps the interleaving of requests.
\<close>

section \<open>Routing\<close>

text \<open>
  \<open>http.ServeMux\<close> as the server uses it: it cleans the escaped path (but not that of a
  \<open>CONNECT\<close>), answers a path it had to change with a redirect, and matches the unescaped segments
  with the registered patterns. \<open>clean_segs\<close> is \<open>path.Clean\<close> on a rooted path; \<open>pathUnescape\<close>
  leaves a segment with a broken escape as it is.
\<close>

fun clean_segs :: "string list \<Rightarrow> string list \<Rightarrow> string list" where
  "clean_segs acc [] = rev acc"
| "clean_segs acc (s # ss) =
     (if s = [] \<or> s = ''.'' then clean_segs acc ss
      else if s = ''..'' then clean_segs (drop 1 acc) ss
      else clean_segs (s # acc) ss)"

definition cleanPath :: "string \<Rightarrow> string" where
  "cleanPath p =
     (let segs = clean_segs [] (Split CHR ''/'' p) in
      ''/'' @ Join ''/'' segs @ (if segs \<noteq> [] \<and> HasSuffix p ''/'' then ''/'' else []))"

fun unescape :: "string \<Rightarrow> string option" where
  "unescape [] = Some []"
| "unescape (c # cs) =
     (if c = CHR ''%'' then
        (case cs of
           a # b # ds \<Rightarrow>
             if hex_digit a \<and> hex_digit b then
               map_option (\<lambda>r. char_of (16 * hex_value a + hex_value b) # r) (unescape ds)
             else None
         | _ \<Rightarrow> None)
      else map_option (\<lambda>r. c # r) (unescape cs))"

definition pathUnescape :: "string \<Rightarrow> string" where
  "pathUnescape s = (case unescape s of None \<Rightarrow> s | Some t \<Rightarrow> t)"

datatype route = Healthz | Context | Feedback | Exec | Redirect string | NotFound

text \<open>The patterns \<open>New\<close> registers; \<open>/v1/exec/\<close> only with a proxy.\<close>

definition match_segs :: "bool \<Rightarrow> string list \<Rightarrow> route option" where
  "match_segs has_proxy segs =
     (if segs = [''healthz''] then Some Healthz
      else if segs = [''v1'', ''context''] then Some Context
      else if segs = [''v1'', ''feedback''] then Some Feedback
      else if has_proxy \<and> 2 < length segs \<and> take 2 segs = [''v1'', ''exec''] then Some Exec
      else None)"

definition path_segs :: "string \<Rightarrow> string list" where
  "path_segs p = map pathUnescape (tl (Split CHR ''/'' p))"

definition mux_route :: "bool \<Rightarrow> request \<Rightarrow> route" where
  "mux_route has_proxy r =
     (let escaped = r_escaped_path r;
          path = (if r_method r = ''CONNECT'' then escaped else cleanPath escaped) in
      if has_proxy \<and> path_segs path = [''v1'', ''exec''] then Redirect (cleanPath (r_path r) @ ''/'')
      else if path \<noteq> escaped then Redirect path
      else (case match_segs has_proxy (path_segs path) of None \<Rightarrow> NotFound | Some rt \<Rightarrow> rt))"

section \<open>Configuration and state\<close>

text \<open>\<open>LoggingFeedbackSink\<close>: its counter, an \<open>int64\<close>.\<close>

definition Record :: "feedback_event \<Rightarrow> 64 word \<Rightarrow> error option \<times> 64 word" where
  "Record event n = (None, n + 1)"

definition Count :: "64 word \<Rightarrow> int" where
  "Count n = sint n"

record 's server_state =
  sv_store :: 's
  sv_feedback :: "64 word"

record 's server_config =
  cfg_resolver :: "string \<Rightarrow> string list \<Rightarrow> error + string list"
  cfg_builder :: "string \<Rightarrow> context_request \<Rightarrow> string list \<Rightarrow> error + exec_manifest"
  cfg_feedback :: "(feedback_event \<Rightarrow> 64 word \<Rightarrow> error option \<times> 64 word) option"
  cfg_persister :: "(exec_manifest \<Rightarrow> 's \<Rightarrow> 's) option"
  cfg_proxy :: "('s \<Rightarrow> request \<Rightarrow> response) option"
  cfg_auth_token :: string

text \<open>The JSON decoders of the two request types.\<close>

record codec =
  decode_context :: "string \<Rightarrow> error + context_request"
  decode_feedback :: "string \<Rightarrow> error + feedback_event"

definition writeError :: "nat \<Rightarrow> string \<Rightarrow> response" where
  "writeError status msg = json_response status (ErrorJson msg)"

section \<open>Handlers\<close>

definition handleHealthz :: "request \<Rightarrow> response" where
  "handleHealthz r =
     (if r_method r \<noteq> ''GET'' then writeError StatusMethodNotAllowed ''method not allowed''
      else json_response StatusOK (StatusJson ''ok''))"

definition handleContext ::
    "codec \<Rightarrow> 's server_config \<Rightarrow> string \<Rightarrow> request \<Rightarrow> 's server_state \<Rightarrow>
     response \<times> 's server_state" where
  "handleContext cd cfg newID r st =
     (if r_method r \<noteq> ''POST'' then
        (writeError StatusMethodNotAllowed ''method not allowed'', st)
      else (case decode_context cd (r_body r) of
        Inl e \<Rightarrow> (writeError StatusBadRequest (''invalid json: '' @ Error e), st)
      | Inr req \<Rightarrow>
        if TrimSpace (rq_intent req) = [] \<and> rq_capabilities req = [] then
          (writeError StatusBadRequest ''intent or capabilities required'', st)
        else if TrimSpace (rq_agent_id req) = [] then
          (writeError StatusBadRequest ''agent_id is required'', st)
        else (case cfg_resolver cfg (rq_intent req) (rq_capabilities req) of
          Inl e \<Rightarrow> (writeError StatusUnprocessableEntity (Error e), st)
        | Inr caps \<Rightarrow>
          (case cfg_builder cfg newID req caps of
            Inl e \<Rightarrow> (writeError StatusUnprocessableEntity (Error e), st)
          | Inr out \<Rightarrow>
              (json_response StatusOK (ManifestJson out),
               (case cfg_persister cfg of None \<Rightarrow> st
                | Some put \<Rightarrow> st \<lparr> sv_store := put out (sv_store st) \<rparr>))))))"

definition handleFeedback ::
    "codec \<Rightarrow> 's server_config \<Rightarrow> request \<Rightarrow> 's server_state \<Rightarrow> response \<times> 's server_state" where
  "handleFeedback cd cfg r st =
     (if r_method r \<noteq> ''POST'' then
        (writeError StatusMethodNotAllowed ''method not allowed'', st)
      else (case decode_feedback cd (r_body r) of
        Inl e \<Rightarrow> (writeError StatusBadRequest (''invalid json: '' @ Error e), st)
      | Inr event \<Rightarrow>
        if TrimSpace (f_manifest_id event) = [] then
          (writeError StatusBadRequest ''manifest_id is required'', st)
        else if TrimSpace (f_action_id event) = [] then
          (writeError StatusBadRequest ''action_id is required'', st)
        else (case cfg_feedback cfg of
          None \<Rightarrow> (json_response StatusAccepted (StatusJson ''accepted''), st)
        | Some rec \<Rightarrow>
          (let (err, n) = rec event (sv_feedback st); st' = st \<lparr> sv_feedback := n \<rparr> in
           (case err of
              Some e \<Rightarrow> (writeError StatusInternalServerError (Error e), st')
            | None \<Rightarrow> (json_response StatusAccepted (StatusJson ''accepted''), st'))))))"

definition requireAuth ::
    "string \<Rightarrow> (request \<Rightarrow> 's \<Rightarrow> response \<times> 's) \<Rightarrow> request \<Rightarrow> 's \<Rightarrow> response \<times> 's" where
  "requireAuth authToken next r st =
     (if authToken = [] then next r st
      else
        let got = TrimSpace (HeaderGet (r_headers r) ''Authorization'') in
        if \<not> HasPrefix got ''Bearer '' then
          (writeError StatusUnauthorized ''missing bearer token'', st)
        else if TrimSpace (TrimPrefix got ''Bearer '') \<noteq> authToken then
          (writeError StatusUnauthorized ''invalid bearer token'', st)
        else next r st)"

text \<open>The mux's own replies: \<open>http.NotFound\<close>, and a redirect, of which only the status is modelled.\<close>

definition http_not_found :: response where
  "http_not_found =
     \<lparr> s_status = StatusNotFound,
       s_headers = [(''Content-Type'', [''text/plain; charset=utf-8'']), (''X-Content-Type-Options'', [''nosniff''])],
       s_body = Bytes (''404 page not found'' @ [CHR 0x0A]) \<rparr>"

text \<open>\<open>Server.ServeHTTP\<close>. The toolchain of \<open>go.mod\<close> redirects with 307.\<close>

definition ServeHTTP ::
    "codec \<Rightarrow> 's server_config \<Rightarrow> string \<Rightarrow> request \<Rightarrow> 's server_state \<Rightarrow>
     response \<times> 's server_state" where
  "ServeHTTP cd cfg newID r st =
     (case mux_route (cfg_proxy cfg \<noteq> None) r of
        Healthz \<Rightarrow> (handleHealthz r, st)
      | Context \<Rightarrow> requireAuth (cfg_auth_token cfg) (handleContext cd cfg newID) r st
      | Feedback \<Rightarrow> requireAuth (cfg_auth_token cfg) (handleFeedback cd cfg) r st
      | Exec \<Rightarrow>
          requireAuth (cfg_auth_token cfg)
            (\<lambda>r st. (case cfg_proxy cfg of
               None \<Rightarrow> (writeError StatusNotFound [], st) | Some p \<Rightarrow> (p (sv_store st) r, st))) r st
      | Redirect p \<Rightarrow> (\<lparr> s_status = StatusTemporaryRedirect, s_headers = [], s_body = Bytes [] \<rparr>, st)
      | NotFound \<Rightarrow> (http_not_found, st))"

section \<open>Lemmas\<close>

text \<open>The routes behind the bearer check, and what is behind it.\<close>

definition protected_route :: "route \<Rightarrow> bool" where
  "protected_route rt \<longleftrightarrow> rt \<in> {Context, Feedback, Exec}"

definition authorized :: "string \<Rightarrow> request \<Rightarrow> bool" where
  "authorized authToken r \<longleftrightarrow>
     (let got = TrimSpace (HeaderGet (r_headers r) ''Authorization'') in
      HasPrefix got ''Bearer '' \<and> TrimSpace (TrimPrefix got ''Bearer '') = authToken)"

lemma requireAuth_reject:
  "authToken \<noteq> [] \<Longrightarrow> \<not> authorized authToken r \<Longrightarrow>
     \<exists>msg. requireAuth authToken next r st = (writeError StatusUnauthorized msg, st)"
  by (auto simp: requireAuth_def authorized_def Let_def)

lemma requireAuth_accept:
  "authToken = [] \<or> authorized authToken r \<Longrightarrow> requireAuth authToken next r st = next r st"
  by (auto simp: requireAuth_def authorized_def Let_def)

lemma requireAuth_cases:
  obtains "requireAuth authToken next r st = next r st"
  | msg where "requireAuth authToken next r st = (writeError StatusUnauthorized msg, st)"
  using requireAuth_accept requireAuth_reject by metis

lemma status_writeError [status_simps]: "s_status (writeError code msg) = code"
  by (simp add: writeError_def json_response_def)

lemma status_json_response [status_simps]: "s_status (json_response code b) = code"
  by (simp add: json_response_def)

text \<open>What \<open>/v1/context\<close> does to the state.\<close>

lemma handleContext_state:
  "snd (handleContext cd cfg newID r st) = st \<or>
   (\<exists>req caps out put. r_method r = ''POST'' \<and> decode_context cd (r_body r) = Inr req \<and>
      cfg_resolver cfg (rq_intent req) (rq_capabilities req) = Inr caps \<and>
      cfg_builder cfg newID req caps = Inr out \<and> cfg_persister cfg = Some put \<and>
      snd (handleContext cd cfg newID r st) = st \<lparr> sv_store := put out (sv_store st) \<rparr>)"
  unfolding handleContext_def
  by (auto split: sum.split option.split)

lemma handleFeedback_state:
  "sv_store (snd (handleFeedback cd cfg r st)) = sv_store st"
  unfolding handleFeedback_def
  by (auto simp: Let_def split: sum.split option.split prod.split)

lemma ServeHTTP_store:
  "sv_store (snd (ServeHTTP cd cfg newID r st)) = sv_store st \<or>
   (\<exists>req caps out put. cfg_resolver cfg (rq_intent req) (rq_capabilities req) = Inr caps \<and>
      cfg_builder cfg newID req caps = Inr out \<and> cfg_persister cfg = Some put \<and>
      sv_store (snd (ServeHTTP cd cfg newID r st)) = put out (sv_store st))"
proof (cases "mux_route (cfg_proxy cfg \<noteq> None) r")
  case Context
  show ?thesis
    by (rule requireAuth_cases [of "cfg_auth_token cfg" "handleContext cd cfg newID" r st])
      (use Context handleContext_state [of cd cfg newID r st] in \<open>fastforce simp: ServeHTTP_def\<close>)+
next
  case Feedback
  show ?thesis
    by (rule requireAuth_cases [of "cfg_auth_token cfg" "handleFeedback cd cfg" r st])
      (use Feedback in \<open>simp_all add: ServeHTTP_def handleFeedback_state\<close>)
next
  case Exec
  then show ?thesis
    by (auto simp: ServeHTTP_def requireAuth_def Let_def split: option.split)
qed (simp_all add: ServeHTTP_def)

section \<open>Executions\<close>

text \<open>A served sequence of requests, each with the id that would be minted for it.\<close>

inductive server_run ::
    "codec \<Rightarrow> 's server_config \<Rightarrow> 's server_state \<Rightarrow> (string \<times> request) list \<Rightarrow>
     's server_state \<Rightarrow> bool"
  for cd cfg where
  nil: "server_run cd cfg st [] st"
| request: "server_run cd cfg (snd (ServeHTTP cd cfg newID r st)) es st' \<Longrightarrow>
    server_run cd cfg st ((newID, r) # es) st'"

inductive_simps server_run_simps:
  "server_run cd cfg st [] st'"
  "server_run cd cfg st (e # es) st'"

text \<open>
  What the server promises for any resolver, builder and store that keep their interfaces: the
  store only ever holds valid manifests under their own ids, and a manifest handed to a client can
  be looked up by the proxy.
\<close>

locale acp_service =
  capability_resolver resolve + manifest_builder build valid + manifest_store put get empty
  for resolve :: "string \<Rightarrow> string list \<Rightarrow> error + string list"
    and build :: "string \<Rightarrow> context_request \<Rightarrow> string list \<Rightarrow> error + exec_manifest"
    and valid :: "exec_manifest \<Rightarrow> bool"
    and put :: "exec_manifest \<Rightarrow> 's \<Rightarrow> 's"
    and get :: "'s \<Rightarrow> string \<Rightarrow> exec_manifest option"
    and empty :: 's
begin

lemma step_invariant:
  assumes "cfg_builder cfg = build" and "cfg_persister cfg = Some put"
    and "\<And>i mf. get (sv_store st) i = Some mf \<Longrightarrow> m_id mf = i \<and> i \<noteq> [] \<and> valid mf"
    and "get (sv_store (snd (ServeHTTP cd cfg newID r st))) i = Some mf"
  shows "m_id mf = i \<and> i \<noteq> [] \<and> valid mf"
proof (cases "sv_store (snd (ServeHTTP cd cfg newID r st)) = sv_store st")
  case True
  with assms show ?thesis by simp
next
  case False
  with ServeHTTP_store [of cd cfg newID r st] assms(1,2) obtain req caps out where
    out: "build newID req caps = Inr out"
    "sv_store (snd (ServeHTTP cd cfg newID r st)) = put out (sv_store st)" by auto
  with assms(3,4) build_valid show ?thesis by (auto simp: get_put split: if_splits)
qed

lemma run_invariant:
  assumes "server_run cd cfg st es st'" and "cfg_builder cfg = build" "cfg_persister cfg = Some put"
    and "\<And>i mf. get (sv_store st) i = Some mf \<Longrightarrow> m_id mf = i \<and> i \<noteq> [] \<and> valid mf"
    and "get (sv_store st') i = Some mf"
  shows "m_id mf = i \<and> i \<noteq> [] \<and> valid mf"
  using assms
proof (induction arbitrary: i mf rule: server_run.induct)
  case (request newID r st es st')
  show ?case
    by (rule request.IH [OF request.prems(1,2) step_invariant [OF request.prems(1-3)] request.prems(4)])
qed

lemma handleContext_ok:
  assumes "cfg_builder cfg = build" and "cfg_persister cfg = Some put" and "newID \<noteq> []"
  shows "case handleContext cd cfg newID r st of (resp, st') \<Rightarrow>
    if s_status resp = StatusOK then
      \<exists>mf. s_body resp = ManifestJson mf \<and> m_id mf = newID \<and> valid mf \<and>
        get (sv_store st') newID = Some mf \<and>
        (\<forall>i. i \<noteq> newID \<longrightarrow> get (sv_store st') i = get (sv_store st) i) \<and>
        sv_feedback st' = sv_feedback st
    else st' = st"
  unfolding handleContext_def using assms build_id build_valid
  by (auto simp: status_simps json_response_def get_put split: sum.split)

end

section \<open>Properties\<close>

text \<open>A concrete configuration for the witnesses.\<close>

definition demo_config :: "memory_store server_config" where
  "demo_config = \<lparr> cfg_resolver = KeywordResolve (NewKeywordResolver []),
     cfg_builder = Build (Lookup seeded) DefaultOptions, cfg_feedback = Some Record,
     cfg_persister = Some (\<lambda>mf. Put (Some mf)),
     cfg_proxy = Some (ExecServeHTTP demo_net demo_handler), cfg_auth_token = ''t0k'' \<rparr>"

definition demo_codec :: codec where
  "demo_codec = \<lparr> decode_context = (\<lambda>b. if b = ''ctx'' then
       Inr \<lparr> rq_intent = ''email the report'', rq_agent_id = ''agent'', rq_capabilities = [],
             rq_constraints = None \<rparr>
       else Inl (Errorf ''EOF'')),
     decode_feedback = (\<lambda>b. Inl (Errorf ''EOF'')) \<rparr>"

definition demo_context :: request where
  "demo_context = \<lparr> r_method = ''POST'', r_path = ''/v1/context'',
     r_escaped_path = ''/v1/context'', r_raw_query = [], r_host = ''acp'',
     r_headers = [(''Authorization'', ['' Bearer  t0k ''])], r_body = ''ctx'' \<rparr>"

definition demo_state :: "memory_store server_state" where
  "demo_state = \<lparr> sv_store = NewMemoryStore, sv_feedback = 0 \<rparr>"

lemma unauthorized_refused:
  assumes "cfg_auth_token cfg \<noteq> []" and "protected_route (mux_route (cfg_proxy cfg \<noteq> None) r)"
    and "\<not> authorized (cfg_auth_token cfg) r"
  shows "s_status (fst (ServeHTTP cd cfg newID r st)) = StatusUnauthorized \<and> snd (ServeHTTP cd cfg newID r st) = st"
proof -
  have "\<exists>msg. requireAuth (cfg_auth_token cfg) next r st = (writeError StatusUnauthorized msg, st)" for "next"
    by (rule requireAuth_reject [OF assms(1,3)])
  then have "s_status (fst (requireAuth (cfg_auth_token cfg) next r st)) = StatusUnauthorized \<and>
      snd (requireAuth (cfg_auth_token cfg) next r st) = st" for "next"
    by (metis fst_conv snd_conv status_writeError)
  with assms(2) show ?thesis
    by (cases "mux_route (cfg_proxy cfg \<noteq> None) r") (simp_all add: ServeHTTP_def protected_route_def)
qed

text \<open>C20: with a configured token every route under \<open>/v1/\<close> is behind the bearer check: a request
  without the right token is answered with 401 and changes nothing; with it the server acts as if
  authentication were off. Nothing outside \<open>/v1/\<close> changes the state.\<close>

theorem auth_protects_v1:
  assumes "cfg_auth_token cfg \<noteq> []"
  shows "if protected_route (mux_route (cfg_proxy cfg \<noteq> None) r) then
      (if authorized (cfg_auth_token cfg) r
       then ServeHTTP cd cfg newID r st = ServeHTTP cd (cfg \<lparr> cfg_auth_token := [] \<rparr>) newID r st
       else s_status (fst (ServeHTTP cd cfg newID r st)) = StatusUnauthorized \<and>
         snd (ServeHTTP cd cfg newID r st) = st)
    else snd (ServeHTTP cd cfg newID r st) = st"
proof -
  have sel: "cfg_resolver (cfg \<lparr> cfg_auth_token := [] \<rparr>) = cfg_resolver cfg"
    "cfg_builder (cfg \<lparr> cfg_auth_token := [] \<rparr>) = cfg_builder cfg"
    "cfg_persister (cfg \<lparr> cfg_auth_token := [] \<rparr>) = cfg_persister cfg"
    "cfg_feedback (cfg \<lparr> cfg_auth_token := [] \<rparr>) = cfg_feedback cfg" by simp_all
  have off: "handleContext cd (cfg \<lparr> cfg_auth_token := [] \<rparr>) = handleContext cd cfg"
    "handleFeedback cd (cfg \<lparr> cfg_auth_token := [] \<rparr>) = handleFeedback cd cfg"
    by (intro ext; unfold handleContext_def handleFeedback_def sel; rule refl)+
  show ?thesis
  proof (cases "authorized (cfg_auth_token cfg) r")
    case True
    then show ?thesis
      by (cases "mux_route (cfg_proxy cfg \<noteq> None) r")
        (simp_all add: ServeHTTP_def off requireAuth_accept protected_route_def)
  next
    case False
    then show ?thesis
      using unauthorized_refused [OF assms _ False]
      by (cases "mux_route (cfg_proxy cfg \<noteq> None) r") (simp_all add: ServeHTTP_def protected_route_def)
  qed
qed

theorem auth_protects_v1_witness:
  "s_status (fst (ServeHTTP demo_codec demo_config ''m'' (demo_context \<lparr> r_headers := [] \<rparr>) demo_state)) =
     StatusUnauthorized \<and>
   ServeHTTP demo_codec demo_config ''m'' demo_context demo_state =
     ServeHTTP demo_codec (demo_config \<lparr> cfg_auth_token := [] \<rparr>) ''m'' demo_context demo_state"
proof -
  have tok: "cfg_auth_token demo_config \<noteq> []" by (simp add: demo_config_def)
  have "cfg_proxy demo_config \<noteq> None" by (simp add: demo_config_def)
  moreover have "protected_route (mux_route True demo_context)"
    "protected_route (mux_route True (demo_context \<lparr> r_headers := [] \<rparr>))"
    "authorized ''t0k'' demo_context" "\<not> authorized ''t0k'' (demo_context \<lparr> r_headers := [] \<rparr>)"
    by code_simp+
  moreover have "cfg_auth_token demo_config = ''t0k''" by (simp add: demo_config_def)
  ultimately show ?thesis
    using auth_protects_v1 [OF tok, of demo_context demo_codec "''m''" demo_state]
      auth_protects_v1 [OF tok, of "demo_context \<lparr> r_headers := [] \<rparr>" demo_codec "''m''" demo_state]
    by (simp only: if_True if_False not_False_eq_True simp_thms)
qed

text \<open>the token of an ASCII \<open>Authorization\<close> header is trimmed but the configured one is not,
  so a configured token with surrounding white space (a trailing newline, say) rejects every such
  request, the right token included.\<close>

theorem untrimmed_token_locks_out:
  assumes "TrimSpace (cfg_auth_token cfg) \<noteq> cfg_auth_token cfg"
    and "ascii (HeaderGet (r_headers r) ''Authorization'')"
    and "protected_route (mux_route (cfg_proxy cfg \<noteq> None) r)"
  shows "s_status (fst (ServeHTTP cd cfg newID r st)) = StatusUnauthorized \<and>
    snd (ServeHTTP cd cfg newID r st) = st"
proof -
  have ne: "cfg_auth_token cfg \<noteq> []" using assms(1) by auto
  have asc: "ascii (TrimSpace (HeaderGet (r_headers r) ''Authorization''))"
    using assms(2) by (rule ascii_TrimSpace)
  then have "ascii (TrimPrefix (TrimSpace (HeaderGet (r_headers r) ''Authorization'')) ''Bearer '')"
    unfolding TrimPrefix_def ascii_def by (auto simp: list_all_iff dest: in_set_dropD)
  then have "\<not> authorized (cfg_auth_token cfg) r"
    using assms(1) TrimSpace_idem unfolding authorized_def Let_def by metis
  then have "\<exists>msg. requireAuth (cfg_auth_token cfg) next r st = (writeError StatusUnauthorized msg, st)"
    for "next"
    by (rule requireAuth_reject [OF ne])
  then have "s_status (fst (requireAuth (cfg_auth_token cfg) next r st)) = StatusUnauthorized \<and>
      snd (requireAuth (cfg_auth_token cfg) next r st) = st" for "next"
    by (metis fst_conv snd_conv status_writeError)
  with assms(3) show ?thesis
    by (cases "mux_route (cfg_proxy cfg \<noteq> None) r")
      (simp_all add: ServeHTTP_def protected_route_def)
qed

theorem untrimmed_token_locks_out_witness:
  "s_status (fst (ServeHTTP demo_codec (demo_config \<lparr> cfg_auth_token := ''t0k'' @ [CHR 0x0A] \<rparr>) ''m''
     (demo_context \<lparr> r_headers := [(''Authorization'', [''Bearer t0k'' @ [CHR 0x0A]])] \<rparr>) demo_state)) =
   StatusUnauthorized"
proof -
  let ?cfg = "demo_config \<lparr> cfg_auth_token := ''t0k'' @ [CHR 0x0A] \<rparr>"
  let ?r = "demo_context \<lparr> r_headers := [(''Authorization'', [''Bearer t0k'' @ [CHR 0x0A]])] \<rparr>"
  have p: "cfg_proxy ?cfg \<noteq> None" by (simp add: demo_config_def)
  have "TrimSpace (cfg_auth_token ?cfg) \<noteq> cfg_auth_token ?cfg"
    "ascii (HeaderGet (r_headers ?r) ''Authorization'')"
    "protected_route (mux_route True ?r)"
    by code_simp+
  with p untrimmed_token_locks_out [of ?cfg ?r demo_codec "''m''" demo_state] show ?thesis
    by simp
qed

end
