(* ===== verification/AcpServer.thy ===== *)
theory AcpServer
  imports Server
begin

text \<open>
  The wiring of \<open>cmd/acp-server/main.go\<close>: a seeded registry, the keyword (or another) resolver,
  the builder, and, when the proxy is enabled, one manifest store shared by the server and the
  proxy. The command line and tracing are in theory Commands, the log in Telemetry; a run is a sequence of
  served requests (\<open>server_run\<close>), the id of each minted from the eight random bytes given with it.
\<close>

section \<open>Manifest ids\<close>

definition hexEncode :: "string \<Rightarrow> string" where
  "hexEncode s =
     concat (map (\<lambda>c. [hex_char (of_char c div 16), hex_char (of_char c mod 16)]) s)"

text \<open>\<open>CryptoIDSource.NewID\<close> with the bytes it reads.\<close>

definition NewID :: "string \<Rightarrow> string" where
  "NewID buf = ''m-'' @ hexEncode buf"

text \<open>With the fallback: \<open>read\<close> is what \<open>rand.Read\<close> delivers, \<open>stamp\<close> the formatted time that is used
  when it fails.\<close>

definition CryptoNewID :: "string option \<Rightarrow> string \<Rightarrow> string" where
  "CryptoNewID read stamp = (case read of None \<Rightarrow> ''m-'' @ hexEncode stamp | Some buf \<Rightarrow> NewID buf)"

section \<open>The process\<close>

record server_flags =
  fl_auth_token :: string
  fl_feedback_endpoint :: string
  fl_enable_proxy :: bool
  fl_auto_approve :: bool
  fl_resolver :: string

text \<open>The embedding resolver is an argument.\<close>

definition pickResolver :: "resolve_fun \<Rightarrow> string \<Rightarrow> resolve_fun" where
  "pickResolver embedding kind =
     (if kind = ''embedding'' then embedding
      else KeywordResolve (NewKeywordResolver []))"

definition builder_options :: "server_flags \<Rightarrow> build_options" where
  "builder_options fl = NewOptions
     \<lparr> bo_ttl = ''300s'', bo_feedback_endpoint = fl_feedback_endpoint fl,
       bo_max_tokens_per_action = 15000, bo_audit_level = [] \<rparr>"

definition main_proxy :: "server_flags \<Rightarrow> memory_store proxy_handler" where
  "main_proxy fl = NewProxy
     \<lparr> p_store = Some Get_manifest,
       p_injector = Some (Inject (Some \<lparr> mi_per_action = [], mi_per_action_id = [] \<rparr>)),
       p_approval = Some (if fl_auto_approve fl then AlwaysApprove else AlwaysDeny) \<rparr>"

definition main_config ::
    "resolve_fun \<Rightarrow> net \<Rightarrow> server_flags \<Rightarrow> registry \<Rightarrow> memory_store server_config" where
  "main_config embedding n fl reg =
     \<lparr> cfg_resolver = pickResolver embedding (fl_resolver fl),
       cfg_builder = Build (Lookup reg) (builder_options fl),
       cfg_feedback = Some Record,
       cfg_persister = (if fl_enable_proxy fl then Some (\<lambda>mf. Put (Some mf)) else None),
       cfg_proxy = (if fl_enable_proxy fl then Some (ExecServeHTTP n (main_proxy fl)) else None),
       cfg_auth_token = fl_auth_token fl \<rparr>"

definition main_state :: "memory_store server_state" where
  "main_state = \<lparr> sv_store = NewMemoryStore, sv_feedback = 0 \<rparr>"

text \<open>\<open>main\<close> up to the listener: it exits when seeding fails.\<close>

definition acp_server_main ::
    "resolve_fun \<Rightarrow> net \<Rightarrow> server_flags \<Rightarrow> error + memory_store server_config" where
  "acp_server_main embedding n fl =
     (case Seed Register NewMemoryRegistry of
        (Some e, reg) \<Rightarrow> Inl e
      | (None, reg) \<Rightarrow> Inr (main_config embedding n fl reg))"

lemma main_seeds: "acp_server_main embedding n fl = Inr (main_config embedding n fl seeded)"
  using memory_registry.seeded by (auto simp: acp_server_main_def seeded_def)

section \<open>Listening\<close>

text \<open>\<open>ListenAndServe\<close>: what happens first, the end of the context or that of the listener; in the first
  case \<open>shutdown\<close> is the result of the graceful shutdown. A listener that was closed is no error.\<close>

definition ErrServerClosed :: error where
  "ErrServerClosed = Errorf ''http: Server closed''"

datatype listen_event = ContextDone | ListenerStopped "error option"

definition ListenAndServe :: "listen_event \<Rightarrow> error option \<Rightarrow> error option" where
  "ListenAndServe ev shutdown =
     (case ev of
        ContextDone \<Rightarrow> shutdown
      | ListenerStopped err \<Rightarrow>
          (case err of None \<Rightarrow> None | Some e \<Rightarrow> if e = ErrServerClosed then None else Some e))"

section \<open>What the store holds\<close>

text \<open>A manifest that the builder made for tools of the registry.\<close>

definition built_from :: "registry \<Rightarrow> build_options \<Rightarrow> exec_manifest \<Rightarrow> bool" where
  "built_from reg opts mf \<longleftrightarrow> (\<exists>caps. mf = built (Lookup reg caps) opts (m_id mf))"

interpretation acp: acp_service "KeywordResolve kws" "Build (Lookup reg) opts" "built_from reg opts"
    "\<lambda>mf. Put (Some mf)" Get_manifest NewMemoryStore
  for kws reg opts
  by unfold_locales (auto simp: Build_Inr built_from_def)

lemma main_config_sel:
  "fl_enable_proxy fl \<Longrightarrow>
     cfg_builder (main_config embedding n fl reg) = Build (Lookup reg) (builder_options fl) \<and>
     cfg_persister (main_config embedding n fl reg) = Some (\<lambda>mf. Put (Some mf)) \<and>
     cfg_proxy (main_config embedding n fl reg) = Some (ExecServeHTTP n (main_proxy fl))"
  by (simp add: main_config_def)





section \<open>Properties\<close>

lemma context_stores:
  assumes "fl_enable_proxy fl" and "newID \<noteq> []" and "mux_route True r = Context"
  shows "case ServeHTTP cd (main_config embedding n fl reg) newID r st of (resp, st') \<Rightarrow>
    if s_status resp = StatusOK then
      \<exists>mf. s_body resp = ManifestJson mf \<and> m_id mf = newID \<and> wf_manifest mf \<and>
        Get_manifest (sv_store st') newID = Some mf \<and>
        (\<forall>i. i \<noteq> newID \<longrightarrow> Get_manifest (sv_store st') i = Get_manifest (sv_store st) i) \<and>
        sv_feedback st' = sv_feedback st
    else st' = st"
proof -
  let ?cfg = "main_config embedding n fl reg"
  note sel = main_config_sel [OF assms(1), of embedding n reg]
  have h: "case handleContext cd ?cfg newID r st of (resp, st') \<Rightarrow>
    if s_status resp = StatusOK then
      \<exists>mf. s_body resp = ManifestJson mf \<and> m_id mf = newID \<and> built_from reg (builder_options fl) mf \<and>
        Get_manifest (sv_store st') newID = Some mf \<and>
        (\<forall>i. i \<noteq> newID \<longrightarrow> Get_manifest (sv_store st') i = Get_manifest (sv_store st) i) \<and>
        sv_feedback st' = sv_feedback st
    else st' = st"
    by (rule acp.handleContext_ok) (use sel assms(2) in simp_all)
  have wf: "built_from reg opts mf \<Longrightarrow> wf_manifest mf" for opts mf
    unfolding built_from_def using wf_manifest_built by metis
  have "ServeHTTP cd ?cfg newID r st = requireAuth (cfg_auth_token ?cfg) (handleContext cd ?cfg newID) r st"
    using sel assms(3) by (simp add: ServeHTTP_def)
  moreover have "StatusUnauthorized \<noteq> StatusOK" by simp
  ultimately show ?thesis
    using h wf
    by (cases rule: requireAuth_cases [of "cfg_auth_token ?cfg" "handleContext cd ?cfg newID" r st])
      (auto simp: status_simps split: prod.splits if_splits)
qed

text \<open>C10: \<open>/v1/context\<close> is atomic. When it answers 200 the body is a valid manifest with the
  minted id, the store finds exactly that manifest under the id and keeps every other entry; any
  other answer leaves the state as it was.\<close>

theorem context_stores_manifest:
  assumes "fl_enable_proxy fl" and "newID \<noteq> []" and "mux_route True r = Context"
  shows "case ServeHTTP cd (main_config embedding n fl reg) newID r st of (resp, st') \<Rightarrow>
    if s_status resp = StatusOK then
      \<exists>mf. s_body resp = ManifestJson mf \<and> m_id mf = newID \<and> wf_manifest mf \<and>
        Get_manifest (sv_store st') newID = Some mf \<and>
        (\<forall>i. i \<noteq> newID \<longrightarrow> Get_manifest (sv_store st') i = Get_manifest (sv_store st) i) \<and>
        sv_feedback st' = sv_feedback st
    else st' = st"
  by (rule context_stores [OF assms])

definition demo_flags :: server_flags where
  "demo_flags = \<lparr> fl_auth_token = ''t0k'', fl_feedback_endpoint = [], fl_enable_proxy = True,
     fl_auto_approve = False, fl_resolver = ''keyword'' \<rparr>"

definition no_embedding :: resolve_fun where
  "no_embedding intent hints = Inl ErrNoCapabilities"

definition demo_response :: "response \<times> memory_store server_state" where
  "demo_response = ServeHTTP demo_codec (main_config no_embedding demo_net demo_flags seeded)
     (NewID ''01234567'') demo_context main_state"

theorem context_stores_manifest_witness:
  "s_status (fst demo_response) = StatusOK \<and>
   (\<exists>mf. Get_manifest (sv_store (snd demo_response)) ''m-3031323334353637'' = Some mf \<and>
      s_body (fst demo_response) = ManifestJson mf \<and> wf_manifest mf)"
proof -
  have pre: "fl_enable_proxy demo_flags" "NewID ''01234567'' \<noteq> []" "mux_route True demo_context = Context"
    "NewID ''01234567'' = ''m-3031323334353637''"
    by code_simp+
  have "s_status (fst demo_response) = StatusOK"
    unfolding demo_response_def by code_simp
  with context_stores_manifest [OF pre(1-3), where cd = demo_codec and embedding = no_embedding
      and n = demo_net and reg = seeded and st = main_state]
  show ?thesis unfolding demo_response_def pre(4) by (auto split: prod.splits)
qed










text \<open>the constraints of a context request are ignored. Whatever token budget, timeout or output
  format a request asks for, the server answers and changes its state as if it asked for others.\<close>

theorem constraints_are_ignored:
  "ServeHTTP (cd \<lparr> decode_context := (\<lambda>b. map_sum id (\<lambda>req. req \<lparr> rq_constraints := wanted req \<rparr>) (decode_context cd b)) \<rparr>)
     (main_config embedding n fl reg) newID r st =
   ServeHTTP cd (main_config embedding n fl reg) newID r st"
proof -
  have "handleContext (cd \<lparr> decode_context := (\<lambda>b. map_sum id (\<lambda>req. req \<lparr> rq_constraints := wanted req \<rparr>)
        (decode_context cd b)) \<rparr>) (main_config embedding n fl reg) newID r st =
      handleContext cd (main_config embedding n fl reg) newID r st" for r st
    by (cases "decode_context cd (r_body r)") (simp_all add: handleContext_def main_config_def Build_eq split: sum.split)
  then have "handleContext (cd \<lparr> decode_context := (\<lambda>b. map_sum id (\<lambda>req. req \<lparr> rq_constraints := wanted req \<rparr>)
        (decode_context cd b)) \<rparr>) (main_config embedding n fl reg) newID =
      handleContext cd (main_config embedding n fl reg) newID" by blast
  moreover have "handleFeedback (cd \<lparr> decode_context := f \<rparr>) cfg = handleFeedback cd cfg" for f and cfg :: "memory_store server_config"
    by (intro ext) (simp add: handleFeedback_def)
  ultimately show ?thesis unfolding ServeHTTP_def by (simp split: route.split)
qed

end
