(* ===== verification/Client.thy ===== *)
theory Client
  imports AcpServer
begin

text \<open>
  The client library \<open>pkg/acp/client.go\<close>. The transport, which the code takes as an interface, is a
  function on a state of its own (the server's, in the end); \<open>http.NewRequest\<close> and the JSON encoder
  and decoders (theory ClientJson has them) are arguments. The last part joins the client to the server of theory AcpServer.
\<close>

section \<open>The client\<close>

record client_request =
  cr_method :: string
  cr_url :: string
  cr_headers :: headers
  cr_body :: "string option"

text \<open>\<open>APIError\<close> is its status and message; every other error is a wrapped one.\<close>

datatype client_error = ClientError error | APIError nat string

definition client_error_text :: "client_error \<Rightarrow> string" where
  "client_error_text e =
     (case e of ClientError err \<Rightarrow> Error err
      | APIError status msg \<Rightarrow> ''acp: status '' @ dec status @ '': '' @ msg)"

definition IsAPIError :: "client_error \<Rightarrow> bool" where
  "IsAPIError e = (case e of ClientError _ \<Rightarrow> False | APIError _ _ \<Rightarrow> True)"

type_synonym 's doer = "client_request \<Rightarrow> 's \<Rightarrow> (error + nat \<times> string) \<times> 's"

record 's acp_client =
  cl_base_url :: string
  cl_token :: string
  cl_doer :: "'s doer"

definition WithToken :: "string \<Rightarrow> 's acp_client \<Rightarrow> 's acp_client" where
  "WithToken token c = c \<lparr> cl_token := token \<rparr>"

definition WithDoer :: "'s doer option \<Rightarrow> 's acp_client \<Rightarrow> 's acp_client" where
  "WithDoer d c = (case d of None \<Rightarrow> c | Some f \<Rightarrow> c \<lparr> cl_doer := f \<rparr>)"

text \<open>\<open>http\<close> is the default client of the standard library.\<close>

definition NewClient ::
    "'s doer \<Rightarrow> string \<Rightarrow> ('s acp_client \<Rightarrow> 's acp_client) list \<Rightarrow> 's acp_client" where
  "NewClient http baseURL opts =
     fold (\<lambda>opt c. opt c) opts
       \<lparr> cl_base_url = trim_right_byte CHR ''/'' baseURL, cl_token = [], cl_doer = http \<rparr>"

text \<open>\<open>decode_error\<close> gives the error field of a body, empty when it is no such object.\<close>

record client_io =
  ci_new_request :: "string \<Rightarrow> string \<Rightarrow> error option"
  ci_marshal_context :: "context_request \<Rightarrow> error + string"
  ci_marshal_event :: "feedback_event \<Rightarrow> error + string"
  ci_decode_manifest :: "string \<Rightarrow> error + exec_manifest"
  ci_decode_error :: "string \<Rightarrow> string"

definition client_headers :: "'s acp_client \<Rightarrow> string option \<Rightarrow> headers" where
  "client_headers c body =
     (let h = (if body \<noteq> None then HeaderSet ''Content-Type'' ''application/json'' [] else []) in
      if cl_token c \<noteq> [] then HeaderSet ''Authorization'' (''Bearer '' @ cl_token c) h else h)"

text \<open>\<open>do\<close>: \<open>body\<close> is the marshalled input, \<open>decode\<close> the decoder of the output, if there is one.\<close>

definition client_do ::
    "client_io \<Rightarrow> 's acp_client \<Rightarrow> string \<Rightarrow> string \<Rightarrow> (error + string) option \<Rightarrow>
     (string \<Rightarrow> error + 'o) option \<Rightarrow> 's \<Rightarrow> (client_error + 'o option) \<times> 's" where
  "client_do io c method path input decode st =
     (case input of
        Some (Inl e) \<Rightarrow> (Inl (ClientError (Wrap ''acp: marshal request: '' e)), st)
      | _ \<Rightarrow>
        (let body = map_option sum.projr input; url = cl_base_url c @ path in
         (case ci_new_request io method url of
            Some e \<Rightarrow> (Inl (ClientError (Wrap ''acp: build request: '' e)), st)
          | None \<Rightarrow>
         (case cl_doer c \<lparr> cr_method = method, cr_url = url, cr_headers = client_headers c body,
                cr_body = body \<rparr> st of
            (Inl e, st') \<Rightarrow> (Inl (ClientError (Wrap ''acp: transport: '' e)), st')
          | (Inr (status, raw), st') \<Rightarrow>
              if status < 200 \<or> 300 \<le> status then
                (let m = ci_decode_error io raw; msg = (if m = [] then TrimSpace raw else m) in
                 (Inl (APIError status msg), st'))
              else (case decode of
                  None \<Rightarrow> (Inr None, st')
                | Some f \<Rightarrow> (case f raw of
                    Inl e \<Rightarrow> (Inl (ClientError (Wrap ''acp: decode response: '' e)), st')
                  | Inr out \<Rightarrow> (Inr (Some out), st')))))))"

definition ClientContext ::
    "client_io \<Rightarrow> 's acp_client \<Rightarrow> context_request \<Rightarrow> 's \<Rightarrow> (client_error + exec_manifest) \<times> 's" where
  "ClientContext io c req st =
     (case client_do io c ''POST'' ''/v1/context'' (Some (ci_marshal_context io req))
         (Some (ci_decode_manifest io)) st of
        (Inl e, st') \<Rightarrow> (Inl e, st')
      | (Inr out, st') \<Rightarrow> (Inr (the out), st'))"

definition no_result :: "(client_error + unit option) \<times> 's \<Rightarrow> client_error option \<times> 's" where
  "no_result r = (case r of (Inl e, st) \<Rightarrow> (Some e, st) | (Inr _, st) \<Rightarrow> (None, st))"

definition ClientFeedback ::
    "client_io \<Rightarrow> 's acp_client \<Rightarrow> feedback_event \<Rightarrow> 's \<Rightarrow> client_error option \<times> 's" where
  "ClientFeedback io c event st =
     no_result (client_do io c ''POST'' ''/v1/feedback'' (Some (ci_marshal_event io event)) None st)"

definition ClientHealthz :: "client_io \<Rightarrow> 's acp_client \<Rightarrow> 's \<Rightarrow> client_error option \<times> 's" where
  "ClientHealthz io c st = no_result (client_do io c ''GET'' ''/healthz'' None None st)"

section \<open>Client and server\<close>

text \<open>
  A transport that delivers requests to a server: \<open>wire\<close> is what the server receives for a request
  of the client, \<open>render\<close> the bytes of a response body.
\<close>

definition server_doer ::
    "(client_request \<Rightarrow> request) \<Rightarrow> (body \<Rightarrow> string) \<Rightarrow> codec \<Rightarrow> 's server_config \<Rightarrow> string \<Rightarrow>
     's server_state doer" where
  "server_doer wire render cd cfg newID q st =
     (case ServeHTTP cd cfg newID (wire q) st of
        (resp, st') \<Rightarrow> (Inr (s_status resp, render (s_body resp)), st'))"

text \<open>HTTP delivers the method, path, authorization and body of a request under the base URL, provided
  the header value is printable.\<close>

definition printable_text :: "string \<Rightarrow> bool" where
  "printable_text s \<longleftrightarrow> list_all (\<lambda>c. CHR 0x20 \<le> c \<and> c < CHR 0x7F) s"

definition delivers :: "string \<Rightarrow> (client_request \<Rightarrow> request) \<Rightarrow> bool" where
  "delivers base wire \<longleftrightarrow>
     (\<forall>q. \<forall>path \<in> {''/v1/context'', ''/v1/feedback'', ''/healthz''}.
        cr_url q = base @ path \<and> printable_text (HeaderGet (cr_headers q) ''Authorization'') \<longrightarrow>
        r_method (wire q) = cr_method q \<and> r_path (wire q) = path \<and> r_escaped_path (wire q) = path \<and>
        HeaderGet (r_headers (wire q)) ''Authorization'' = HeaderGet (cr_headers q) ''Authorization'' \<and>
        r_body (wire q) = (case cr_body q of None \<Rightarrow> [] | Some b \<Rightarrow> b))"

text \<open>A bearer token of printable bytes other than the blank.\<close>

definition plain_token :: "string \<Rightarrow> bool" where
  "plain_token t \<longleftrightarrow> t \<noteq> [] \<and> list_all (\<lambda>c. CHR 0x20 < c \<and> c < CHR 0x7F) t"

lemma route_context: "r_path r = ''/v1/context'' \<Longrightarrow> r_escaped_path r = ''/v1/context'' \<Longrightarrow> r_method r = ''POST'' \<Longrightarrow>
    mux_route b r = Context"
proof -
  assume r: "r_path r = ''/v1/context''" "r_escaped_path r = ''/v1/context''" "r_method r = ''POST''"
  have "cleanPath ''/v1/context'' = ''/v1/context''" "path_segs ''/v1/context'' = [''v1'', ''context'']"
    by code_simp+
  with r show ?thesis by (simp add: mux_route_def match_segs_def Let_def)
qed

lemma route_feedback: "r_path r = ''/v1/feedback'' \<Longrightarrow> r_escaped_path r = ''/v1/feedback'' \<Longrightarrow>
    r_method r = ''POST'' \<Longrightarrow> mux_route b r = Feedback"
proof -
  assume r: "r_path r = ''/v1/feedback''" "r_escaped_path r = ''/v1/feedback''" "r_method r = ''POST''"
  have "cleanPath ''/v1/feedback'' = ''/v1/feedback''" "path_segs ''/v1/feedback'' = [''v1'', ''feedback'']"
    by code_simp+
  with r show ?thesis by (simp add: mux_route_def match_segs_def Let_def)
qed

text \<open>The token the client sends is accepted by a server with the same token.\<close>

lemma plain_token_char: "CHR 0x20 < c \<Longrightarrow> c < CHR 0x7F \<Longrightarrow> \<not> space_char c \<and> of_char c < (128 :: nat)"
  by (auto simp: space_char_def less_char_def)

lemma plain_token_trimmed: "plain_token t \<Longrightarrow> trimmed t"
  using plain_token_char by (auto simp: plain_token_def trimmed_def ascii_iff_of_char list_all_iff)

lemma printable_bearer: "plain_token t \<Longrightarrow> printable_text (''Bearer '' @ t)"
  by (auto simp: plain_token_def printable_text_def list_all_iff less_char_def less_eq_char_def)

lemma client_authorized:
  assumes "trimmed tok"
    and "HeaderGet (r_headers r) ''Authorization'' = ''Bearer '' @ tok"
  shows "authorized tok r"
proof -
  have "trimmed (''Bearer'' @ '' '' @ tok)"
    by (rule trimmed_append) (use assms(1) in \<open>code_simp, simp, code_simp\<close>)
  then have "TrimSpace (''Bearer '' @ tok) = ''Bearer '' @ tok"
    using TrimSpace_trimmed by simp
  with assms show ?thesis
    by (simp add: authorized_def HasPrefix_append [of "''Bearer ''", simplified] TrimPrefix_append [of "''Bearer ''", simplified])
qed

lemma client_headers_auth:
  "HeaderGet (client_headers c body) ''Authorization'' = (if cl_token c = [] then [] else ''Bearer '' @ cl_token c)"
proof -
  have "CanonicalHeaderKey ''Authorization'' = ''Authorization''"
    "CanonicalHeaderKey ''Content-Type'' = ''Content-Type''" by code_simp+
  then show ?thesis
    by (simp add: HeaderGet_def client_headers_def Let_def header_values_Set)
qed

lemma delivered:
  fixes m :: string and body :: "string option"
  assumes "delivers (cl_base_url c) wire" and "plain_token (cl_token c)"
    and "path \<in> {''/v1/context'', ''/v1/feedback'', ''/healthz''}"
  defines "r \<equiv> wire \<lparr> cr_method = m, cr_url = cl_base_url c @ path,
      cr_headers = client_headers c body, cr_body = body \<rparr>"
  shows "r_method r = m \<and> r_path r = path \<and> r_escaped_path r = path \<and>
    r_body r = (case body of None \<Rightarrow> [] | Some b \<Rightarrow> b) \<and> authorized (cl_token c) r"
proof -
  let ?q = "\<lparr> cr_method = m, cr_url = cl_base_url c @ path, cr_headers = client_headers c body,
    cr_body = body \<rparr>"
  have h: "HeaderGet (cr_headers ?q) ''Authorization'' = ''Bearer '' @ cl_token c"
    using client_headers_auth [of c body] assms(2) by (simp add: plain_token_def)
  then have "printable_text (HeaderGet (cr_headers ?q) ''Authorization'')"
    using printable_bearer [OF assms(2)] by simp
  moreover note assms(1) [unfolded delivers_def, THEN spec, of ?q, THEN bspec, OF assms(3)]
  ultimately have "r_method r = m \<and> r_path r = path \<and> r_escaped_path r = path \<and>
      HeaderGet (r_headers r) ''Authorization'' = HeaderGet (cr_headers ?q) ''Authorization'' \<and>
      r_body r = (case body of None \<Rightarrow> [] | Some b \<Rightarrow> b)"
    unfolding r_def by simp
  with h client_authorized [OF plain_token_trimmed [OF assms(2)]] show ?thesis by simp
qed

lemma client_do_sent:
  fixes decode :: "(string \<Rightarrow> error + 'o) option"
  assumes "ci_new_request io method (cl_base_url c @ path) = None"
    and "cl_doer c \<lparr> cr_method = method, cr_url = cl_base_url c @ path,
      cr_headers = client_headers c (Some s), cr_body = Some s \<rparr> st = (Inr (status, raw), st')"
  shows "status < 200 \<or> 300 \<le> status \<Longrightarrow>
      \<exists>msg. client_do io c method path (Some (Inr s)) decode st = (Inl (APIError status msg), st')"
    and "200 \<le> status \<Longrightarrow> status < 300 \<Longrightarrow> decode = None \<Longrightarrow>
      client_do io c method path (Some (Inr s)) decode st = (Inr None, st')"
    and "200 \<le> status \<Longrightarrow> status < 300 \<Longrightarrow> decode = Some f \<Longrightarrow> f raw = Inr out \<Longrightarrow>
      client_do io c method path (Some (Inr s)) decode st = (Inr (Some out), st')"
  by (simp_all add: client_do_def assms Let_def)

lemma handleContext_cases:
  assumes "r_method r = ''POST''" and "decode_context cd (r_body r) = Inr req"
    and "cfg_persister cfg = Some put"
  defines "blank \<equiv> TrimSpace (rq_intent req) = [] \<and> rq_capabilities req = [] \<or> TrimSpace (rq_agent_id req) = []"
  obtains msg where "blank" "handleContext cd cfg newID r st = (writeError StatusBadRequest msg, st)"
  | msg where "\<not> blank" "handleContext cd cfg newID r st = (writeError StatusUnprocessableEntity msg, st)"
  | caps mf where "\<not> blank" "cfg_resolver cfg (rq_intent req) (rq_capabilities req) = Inr caps"
      "cfg_builder cfg newID req caps = Inr mf"
      "handleContext cd cfg newID r st =
         (json_response StatusOK (ManifestJson mf), st \<lparr> sv_store := put mf (sv_store st) \<rparr>)"
proof (cases blank)
  case True
  with assms(1,2) have "\<exists>msg. handleContext cd cfg newID r st = (writeError StatusBadRequest msg, st)"
    unfolding handleContext_def blank_def
    by (cases "TrimSpace (rq_intent req) = [] \<and> rq_capabilities req = []") auto
  with True that(1) show thesis by blast
next
  case False
  show thesis
  proof (cases "cfg_resolver cfg (rq_intent req) (rq_capabilities req)")
    case (Inl e)
    with assms(1,2) False that(2) show thesis unfolding handleContext_def blank_def by auto
  next
    case (Inr caps)
    show thesis
    proof (cases "cfg_builder cfg newID req caps")
      case (Inl e)
      with Inr assms(1,2) False that(2) show thesis unfolding handleContext_def blank_def by auto
    next
      case (Inr mf)
      with \<open>cfg_resolver cfg _ _ = Inr caps\<close> assms(1-3) False that(3) show thesis
        unfolding handleContext_def blank_def by auto
    qed
  qed
qed

lemma client_context_sent:
  fixes s :: string
  assumes "plain_token (fl_auth_token fl)" and "cl_token c = fl_auth_token fl"
    and "delivers (cl_base_url c) wire"
    and "cl_doer c = server_doer wire render cd (main_config embedding n fl reg) newID"
  defines "q \<equiv> \<lparr> cr_method = ''POST'', cr_url = cl_base_url c @ ''/v1/context'',
      cr_headers = client_headers c (Some s), cr_body = Some s \<rparr>"
  shows "cl_doer c q st =
      (case handleContext cd (main_config embedding n fl reg) newID (wire q) st of
         (resp, st') \<Rightarrow> (Inr (s_status resp, render (s_body resp)), st'))"
    and "r_method (wire q) = ''POST''" and "r_body (wire q) = s"
proof -
  let ?cfg = "main_config embedding n fl reg"
  have tok: "cfg_auth_token ?cfg = fl_auth_token fl" by (simp add: main_config_def)
  have d: "r_method (wire q) = ''POST''" "r_path (wire q) = ''/v1/context''"
    "r_escaped_path (wire q) = ''/v1/context''" "r_body (wire q) = s" "authorized (fl_auth_token fl) (wire q)"
    using delivered [OF assms(3), of "''/v1/context''" "''POST''" "Some s"] assms(1,2)
    by (simp_all add: q_def)
  have "ServeHTTP cd ?cfg newID (wire q) st = handleContext cd ?cfg newID (wire q) st"
    using route_context [OF d(2,3,1)]
      requireAuth_accept [of "cfg_auth_token ?cfg" "wire q" "handleContext cd ?cfg newID" st] d(5) tok
    by (simp add: ServeHTTP_def)
  then show "cl_doer c q st =
      (case handleContext cd ?cfg newID (wire q) st of
         (resp, st') \<Rightarrow> (Inr (s_status resp, render (s_body resp)), st'))"
    by (simp add: assms(4) server_doer_def)
  show "r_method (wire q) = ''POST''" "r_body (wire q) = s" by (rule d(1), rule d(4))
qed

section \<open>Properties\<close>

text \<open>a client gets the manifest it can execute. When a client with the server's token asks for a
  context, the manifest it returns is well formed, has the minted id, and is what the proxy's store
  holds under it; the only failures are the server's 400 for a blank request and its 422 when
  nothing can be resolved or built, and then the server's state is as before.\<close>

theorem client_context_end_to_end:
  assumes "fl_enable_proxy fl" and "newID \<noteq> []" and "plain_token (fl_auth_token fl)"
    and "cl_token c = fl_auth_token fl" and "delivers (cl_base_url c) wire"
    and "cl_doer c = server_doer wire render cd (main_config embedding n fl reg) newID"
    and "ci_new_request io ''POST'' (cl_base_url c @ ''/v1/context'') = None"
    and "ci_marshal_context io req = Inr s" and "decode_context cd s = Inr req"
    and "\<And>caps mf. pickResolver embedding (fl_resolver fl) (rq_intent req) (rq_capabilities req) = Inr caps \<Longrightarrow>
      Build (Lookup reg) (builder_options fl) newID req caps = Inr mf \<Longrightarrow>
      ci_decode_manifest io (render (ManifestJson mf)) = Inr mf"
  shows "case ClientContext io c req st of
      (Inr mf, st') \<Rightarrow> m_id mf = newID \<and> wf_manifest mf \<and> Get_manifest (sv_store st') newID = Some mf
    | (Inl e, st') \<Rightarrow> st' = st \<and> (\<exists>msg. e = APIError
        (if TrimSpace (rq_intent req) = [] \<and> rq_capabilities req = [] \<or> TrimSpace (rq_agent_id req) = []
         then 400 else 422) msg)"
proof -
  let ?cfg = "main_config embedding n fl reg"
  let ?r = "wire \<lparr> cr_method = ''POST'', cr_url = cl_base_url c @ ''/v1/context'',
    cr_headers = client_headers c (Some s), cr_body = Some s \<rparr>"
  note sel = main_config_sel [OF assms(1), of embedding n reg]
  note out = client_context_sent [OF assms(3-6), of s]
  have wf: "m_id mf = newID \<and> wf_manifest mf" if "Build (Lookup reg) (builder_options fl) newID req caps = Inr mf"
    for caps mf
    using that wf_manifest_built by (auto simp: Build_Inr)
  note sent = client_do_sent [OF assms(7), of s st, unfolded out(1)]
  have dec: "decode_context cd (r_body ?r) = Inr req" using out(3) assms(9) by simp
  from sel have put: "cfg_persister ?cfg = Some (\<lambda>mf. Put (Some mf))" by blast
  show ?thesis
  proof (cases rule: handleContext_cases [OF out(2) dec put, of newID st])
    case (1 msg)
    with sent(1) [of StatusBadRequest] obtain m where
      "client_do io c ''POST'' ''/v1/context'' (Some (Inr s)) (Some (ci_decode_manifest io)) st =
        (Inl (APIError 400 m), st)"
      by (auto simp: writeError_def json_response_def)
    with 1(1) show ?thesis by (simp add: ClientContext_def assms(8))
  next
    case (2 msg)
    with sent(1) [of StatusUnprocessableEntity] obtain m where
      "client_do io c ''POST'' ''/v1/context'' (Some (Inr s)) (Some (ci_decode_manifest io)) st =
        (Inl (APIError 422 m), st)"
      by (auto simp: writeError_def json_response_def)
    with 2(1) show ?thesis by (simp add: ClientContext_def assms(8))
  next
    case (3 caps mf)
    then have b: "Build (Lookup reg) (builder_options fl) newID req caps = Inr mf" using sel by simp
    have caps: "pickResolver embedding (fl_resolver fl) (rq_intent req) (rq_capabilities req) = Inr caps"
      using 3(2) by (simp add: main_config_def)
    from 3(4) sent(3) [where status = StatusOK and decode = "Some (ci_decode_manifest io)"
        and f = "ci_decode_manifest io" and raw = "render (ManifestJson mf)" and out = mf] assms(10) [OF caps b]
    have "client_do io c ''POST'' ''/v1/context'' (Some (Inr s)) (Some (ci_decode_manifest io)) st =
        (Inr (Some mf), st \<lparr> sv_store := Put (Some mf) (sv_store st) \<rparr>)"
      by (simp add: json_response_def)
    with wf [OF b] assms(2) show ?thesis
      by (simp add: ClientContext_def assms(8) memory_store.get_put)
  qed
qed


text \<open>a client with another token gets nothing: a context request and a feedback event are answered
  with 401 and the server's state stays as it is.\<close>

theorem client_wrong_token:
  assumes "plain_token (cl_token c)" and "plain_token (fl_auth_token fl)" and "cl_token c \<noteq> fl_auth_token fl"
    and "delivers (cl_base_url c) wire"
    and "cl_doer c = server_doer wire render cd (main_config embedding n fl reg) newID"
    and "ci_new_request io ''POST'' (cl_base_url c @ ''/v1/context'') = None"
    and "ci_new_request io ''POST'' (cl_base_url c @ ''/v1/feedback'') = None"
    and "ci_marshal_context io req = Inr s" and "ci_marshal_event io ev = Inr s'"
  shows "(\<exists>msg. ClientContext io c req st = (Inl (APIError 401 msg), st)) \<and>
    (\<exists>msg. ClientFeedback io c ev st = (Some (APIError 401 msg), st))"
proof -
  let ?cfg = "main_config embedding n fl reg"
  have tok: "cfg_auth_token ?cfg = fl_auth_token fl" "fl_auth_token fl \<noteq> []"
    using assms(2) by (simp_all add: main_config_def plain_token_def)
  have doer: "\<exists>raw. cl_doer c \<lparr> cr_method = ''POST'', cr_url = cl_base_url c @ path,
      cr_headers = client_headers c (Some b), cr_body = Some b \<rparr> st = (Inr (401, raw), st)"
    if path: "path \<in> {''/v1/context'', ''/v1/feedback''}" for path b
  proof -
    let ?r = "wire \<lparr> cr_method = ''POST'', cr_url = cl_base_url c @ path,
      cr_headers = client_headers c (Some b), cr_body = Some b \<rparr>"
    have d: "r_method ?r = ''POST''" "r_path ?r = path" "r_escaped_path ?r = path" "authorized (cl_token c) ?r"
      using delivered [OF assms(4,1), of path "''POST''" "Some b"] path by auto
    have "\<not> authorized (fl_auth_token fl) ?r"
      using d(4) assms(3) by (auto simp: authorized_def Let_def)
    then have "\<exists>msg. requireAuth (cfg_auth_token ?cfg) next ?r st = (writeError StatusUnauthorized msg, st)"
      for "next" unfolding tok(1) by (rule requireAuth_reject [OF tok(2)])
    moreover have "mux_route (cfg_proxy ?cfg \<noteq> None) ?r \<in> {Context, Feedback}"
      using path d route_context route_feedback by auto
    ultimately have "\<exists>msg. ServeHTTP cd ?cfg newID ?r st = (writeError StatusUnauthorized msg, st)"
      by (auto simp: ServeHTTP_def)
    then show ?thesis
      by (auto simp: assms(5) server_doer_def writeError_def json_response_def)
  qed
  obtain raw where c: "cl_doer c \<lparr> cr_method = ''POST'', cr_url = cl_base_url c @ ''/v1/context'',
      cr_headers = client_headers c (Some s), cr_body = Some s \<rparr> st = (Inr (401, raw), st)"
    using doer [of "''/v1/context''" s] by auto
  obtain raw' where f: "cl_doer c \<lparr> cr_method = ''POST'', cr_url = cl_base_url c @ ''/v1/feedback'',
      cr_headers = client_headers c (Some s'), cr_body = Some s' \<rparr> st = (Inr (401, raw'), st)"
    using doer [of "''/v1/feedback''" s'] by auto
  have "\<exists>msg. ClientContext io c req st = (Inl (APIError 401 msg), st)"
    using client_do_sent(1) [OF assms(6) c, of "Some (ci_decode_manifest io)"]
    by (auto simp: ClientContext_def assms(8))
  moreover have "\<exists>msg. ClientFeedback io c ev st = (Some (APIError 401 msg), st)"
    using client_do_sent(1) [OF assms(7) f, of "None :: (string \<Rightarrow> error + unit) option"]
    by (auto simp: ClientFeedback_def assms(9) no_result_def)
  ultimately show ?thesis by blast
qed

section \<open>Witnesses\<close>

definition demo_request_value :: context_request where
  "demo_request_value = \<lparr> rq_intent = ''email the report'', rq_agent_id = ''agent'', rq_capabilities = [],
     rq_constraints = None \<rparr>"

definition demo_io :: client_io where
  "demo_io = \<lparr> ci_new_request = (\<lambda>m u. None), ci_marshal_context = (\<lambda>r. Inr ''ctx''),
     ci_marshal_event = (\<lambda>e. Inr ''ev''),
     ci_decode_manifest = (\<lambda>b. Build (Lookup seeded) (builder_options demo_flags) ''m-1'' demo_request_value
       [''email'', ''template'']),
     ci_decode_error = (\<lambda>b. b) \<rparr>"

definition demo_wire :: "client_request \<Rightarrow> request" where
  "demo_wire q = \<lparr> r_method = cr_method q, r_path = TrimPrefix (cr_url q) ''http://acp'',
     r_escaped_path = TrimPrefix (cr_url q) ''http://acp'', r_raw_query = [], r_host = ''acp'',
     r_headers = cr_headers q, r_body = (case cr_body q of None \<Rightarrow> [] | Some b \<Rightarrow> b) \<rparr>"

definition demo_acp_client :: "string \<Rightarrow> memory_store server_state acp_client" where
  "demo_acp_client token = NewClient (\<lambda>q st. (Inl (Errorf ''unused''), st)) ''http://acp/''
     [WithToken token, WithDoer (Some (server_doer demo_wire (\<lambda>b. ''body'') demo_codec
        (main_config no_embedding demo_net demo_flags seeded) ''m-1''))]"

lemma demo_client_sel:
  "cl_base_url (demo_acp_client t) = ''http://acp''" "cl_token (demo_acp_client t) = t"
  "cl_doer (demo_acp_client t) = server_doer demo_wire (\<lambda>b. ''body'') demo_codec
     (main_config no_embedding demo_net demo_flags seeded) ''m-1''"
  by (simp_all add: demo_acp_client_def NewClient_def WithToken_def WithDoer_def trim_right_byte_def)

lemma demo_delivers: "delivers ''http://acp'' demo_wire"
proof -
  have "TrimPrefix (''http://acp'' @ path) ''http://acp'' = path" for path by (rule TrimPrefix_append)
  then show ?thesis unfolding delivers_def by (auto simp: demo_wire_def simp del: append_Cons)
qed

theorem client_context_end_to_end_witness:
  "case ClientContext demo_io (demo_acp_client ''t0k'') demo_request_value main_state of
     (Inr mf, st') \<Rightarrow> m_id mf = ''m-1'' \<and> Get_manifest (sv_store st') ''m-1'' = Some mf
   | (Inl e, st') \<Rightarrow> False"
proof -
  have pre: "fl_enable_proxy demo_flags" "''m-1'' \<noteq> ([] :: string)" "plain_token (fl_auth_token demo_flags)"
    "cl_token (demo_acp_client ''t0k'') = fl_auth_token demo_flags"
    "ci_new_request demo_io ''POST'' (cl_base_url (demo_acp_client ''t0k'') @ ''/v1/context'') = None"
    "ci_marshal_context demo_io demo_request_value = Inr ''ctx''"
    "decode_context demo_codec ''ctx'' = Inr demo_request_value"
    by (simp add: demo_flags_def, simp, code_simp, simp add: demo_client_sel demo_flags_def,
        simp add: demo_io_def, simp add: demo_io_def, simp add: demo_codec_def demo_request_value_def)
  have res: "pickResolver no_embedding (fl_resolver demo_flags) (rq_intent demo_request_value)
      (rq_capabilities demo_request_value) = Inr [''email'', ''template'']"
    by code_simp
  have del: "delivers (cl_base_url (demo_acp_client ''t0k'')) demo_wire"
    by (simp only: demo_client_sel demo_delivers)
  have dec: "ci_decode_manifest demo_io ''body'' = Inr mf"
    if "pickResolver no_embedding (fl_resolver demo_flags) (rq_intent demo_request_value)
      (rq_capabilities demo_request_value) = Inr caps"
      "Build (Lookup seeded) (builder_options demo_flags) ''m-1'' demo_request_value caps = Inr mf" for caps mf
    using that res by (simp add: demo_io_def)
  have ok: "sum.isl (fst (ClientContext demo_io (demo_acp_client ''t0k'') demo_request_value main_state)) = False"
    by code_simp
  obtain r st' where r: "ClientContext demo_io (demo_acp_client ''t0k'') demo_request_value main_state = (r, st')"
    by (metis prod.exhaust)
  from client_context_end_to_end [OF pre(1-4) del demo_client_sel(3) pre(5-7) dec, where st = main_state]
  show ?thesis using ok unfolding r by (cases r) auto
qed

theorem client_wrong_token_witness:
  "\<exists>msg. ClientContext demo_io (demo_acp_client ''guess'') demo_request_value main_state =
     (Inl (APIError 401 msg), main_state)"
proof -
  have tok: "plain_token (cl_token (demo_acp_client ''guess''))" "plain_token (fl_auth_token demo_flags)"
    "cl_token (demo_acp_client ''guess'') \<noteq> fl_auth_token demo_flags"
    unfolding demo_client_sel by code_simp+
  have del: "delivers (cl_base_url (demo_acp_client ''guess'')) demo_wire"
    by (simp only: demo_client_sel demo_delivers)
  have io: "ci_new_request demo_io m u = None" "ci_marshal_context demo_io demo_request_value = Inr ''ctx''"
    "ci_marshal_event demo_io ev = Inr ''ev''" for m u ev by (simp_all add: demo_io_def)
  show ?thesis
    by (rule conjunct1 [OF client_wrong_token [OF tok del demo_client_sel(3) io(1) io(1) io(2) io(3)]])
qed

end
