(* ===== verification/JsonText.thy ===== *)
theory JsonText
  imports Prelude
begin

text \<open>
  The text of JSON as \<open>encoding/json\<close> reads and writes it: the grammar its scanner accepts, compact
  output, and the quoting of strings. A parsed value is a tree of the tokens as they stand in the
  text, without the white space between them, so a \<open>json.RawMessage\<close> is the text of such a tree.
\<close>

section \<open>Scanning\<close>

datatype jtree =
  JtLit string
| JtStr string
| JtArr "jtree list"
| JtObj "(string \<times> jtree) list"

definition json_space :: "char \<Rightarrow> bool" where
  "json_space c \<longleftrightarrow> c \<in> {CHR '' '', CHR 0x09, CHR 0x0A, CHR 0x0D}"

definition skip_ws :: "string \<Rightarrow> string" where
  "skip_ws s = dropWhile json_space s"

definition simple_escape :: "char \<Rightarrow> bool" where
  "simple_escape d \<longleftrightarrow> d \<in> {CHR 0x22, CHR 0x5C, CHR ''/'', CHR ''b'', CHR ''f'', CHR ''n'', CHR ''r'', CHR ''t''}"

text \<open>What follows a backslash.\<close>

definition scan_escape :: "string \<Rightarrow> (string \<times> string) option" where
  "scan_escape s =
     (case s of
        [] \<Rightarrow> None
      | d # ds \<Rightarrow>
          if simple_escape d then Some ([d], ds)
          else if d = CHR ''u'' \<and> 4 \<le> length ds \<and> list_all hex_digit (take 4 ds) then
            Some (d # take 4 ds, drop 4 ds)
          else None)"

lemma scan_escape_split: "scan_escape s = Some (e, q) \<Longrightarrow> s = e @ q \<and> e \<noteq> []"
  by (auto simp: scan_escape_def split: list.splits if_splits)

text \<open>What follows the opening quote: the text up to the closing quote, escapes as they are, and what
  comes after it.\<close>

function scan_string :: "string \<Rightarrow> (string \<times> string) option" where
  "scan_string s =
     (case s of
        [] \<Rightarrow> None
      | c # cs \<Rightarrow>
          if c = CHR 0x22 then Some ([], cs)
          else if c = CHR 0x5C then
            (case scan_escape cs of
               None \<Rightarrow> None
             | Some (e, q) \<Rightarrow> map_option (\<lambda>(r, z). (c # e @ r, z)) (scan_string q))
          else if c < CHR 0x20 then None
          else map_option (\<lambda>(r, z). (c # r, z)) (scan_string cs))"
  by pat_completeness auto
termination by (relation "measure length") (auto dest!: scan_escape_split)

declare scan_string.simps [simp del]

text \<open>Numbers, as far as they go.\<close>

definition scan_digits :: "string \<Rightarrow> (string \<times> string) option" where
  "scan_digits s =
     (if takeWhile digit_char s = [] then None
      else Some (takeWhile digit_char s, dropWhile digit_char s))"

definition scan_int :: "string \<Rightarrow> (string \<times> string) option" where
  "scan_int s = (case s of [] \<Rightarrow> None
     | c # cs \<Rightarrow> if c = CHR ''0'' then Some ([c], cs) else scan_digits s)"

definition scan_frac :: "string \<Rightarrow> (string \<times> string) option" where
  "scan_frac s = (case s of [] \<Rightarrow> Some ([], s)
     | c # cs \<Rightarrow> if c = CHR ''.'' then map_option (\<lambda>(d, q). (c # d, q)) (scan_digits cs)
        else Some ([], s))"

definition scan_exp :: "string \<Rightarrow> (string \<times> string) option" where
  "scan_exp s = (case s of [] \<Rightarrow> Some ([], s)
     | c # cs \<Rightarrow> if c = CHR ''e'' \<or> c = CHR ''E'' then
          (case cs of [] \<Rightarrow> None
           | d # ds \<Rightarrow>
               if d = CHR ''+'' \<or> d = CHR ''-'' then map_option (\<lambda>(x, q). (c # d # x, q)) (scan_digits ds)
               else map_option (\<lambda>(x, q). (c # x, q)) (scan_digits cs))
        else Some ([], s))"

text \<open>One part after the other.\<close>

definition scan_then ::
    "(string \<Rightarrow> (string \<times> string) option) \<Rightarrow> (string \<Rightarrow> (string \<times> string) option) \<Rightarrow>
     string \<Rightarrow> (string \<times> string) option" where
  "scan_then f g s = (case f s of None \<Rightarrow> None
     | Some (a, q) \<Rightarrow> map_option (\<lambda>(b, z). (a @ b, z)) (g q))"

definition scan_sign :: "string \<Rightarrow> (string \<times> string) option" where
  "scan_sign s = (case s of [] \<Rightarrow> Some ([], s)
     | c # cs \<Rightarrow> Some (if c = CHR ''-'' then ([c], cs) else ([], s)))"

definition scan_number :: "string \<Rightarrow> (string \<times> string) option" where
  "scan_number = scan_then scan_sign (scan_then scan_int (scan_then scan_frac scan_exp))"

definition scan_literal :: "string \<Rightarrow> (string \<times> string) option" where
  "scan_literal s =
     (if HasPrefix s ''true'' then Some (''true'', drop 4 s)
      else if HasPrefix s ''false'' then Some (''false'', drop 5 s)
      else if HasPrefix s ''null'' then Some (''null'', drop 4 s)
      else scan_number s)"

text \<open>Values, with the nesting that is still allowed; the list of elements of an array and that of the
  members of an object, up to the closing bracket.\<close>

function scan_value :: "nat \<Rightarrow> string \<Rightarrow> (jtree \<times> string) option"
  and scan_elements :: "nat \<Rightarrow> string \<Rightarrow> (jtree list \<times> string) option"
  and scan_members :: "nat \<Rightarrow> string \<Rightarrow> ((string \<times> jtree) list \<times> string) option" where
  "scan_value d s =
     (case skip_ws s of
        [] \<Rightarrow> None
      | c # cs \<Rightarrow>
          if c = CHR 0x22 then map_option (\<lambda>(r, q). (JtStr r, q)) (scan_string cs)
          else if c = CHR ''['' then
            (if d = 0 then None
             else (case skip_ws cs of
                 [] \<Rightarrow> None
               | x # q \<Rightarrow> if x = CHR '']'' then Some (JtArr [], q)
                   else map_option (\<lambda>(ts, q). (JtArr ts, q)) (scan_elements (d - 1) cs)))
          else if c = CHR ''{'' then
            (if d = 0 then None
             else (case skip_ws cs of
                 [] \<Rightarrow> None
               | x # q \<Rightarrow> if x = CHR ''}'' then Some (JtObj [], q)
                   else map_option (\<lambda>(kvs, q). (JtObj kvs, q)) (scan_members (d - 1) cs)))
          else map_option (\<lambda>(l, q). (JtLit l, q)) (scan_literal (c # cs)))"
| "scan_elements d s =
     (case scan_value d s of
        None \<Rightarrow> None
      | Some (t, q) \<Rightarrow>
          (case skip_ws q of
             [] \<Rightarrow> None
           | x # z \<Rightarrow>
               if x = CHR '']'' then Some ([t], z)
               else if x = CHR '','' then map_option (\<lambda>(ts, y). (t # ts, y)) (scan_elements d z)
               else None))"
| "scan_members d s =
     (case skip_ws s of
        [] \<Rightarrow> None
      | c # cs \<Rightarrow>
          if c \<noteq> CHR 0x22 then None
          else (case scan_string cs of
             None \<Rightarrow> None
           | Some (k, q) \<Rightarrow>
               (case skip_ws q of
                  [] \<Rightarrow> None
                | x # z \<Rightarrow>
                    if x \<noteq> CHR '':'' then None
                    else (case scan_value d z of
                       None \<Rightarrow> None
                     | Some (t, y) \<Rightarrow>
                         (case skip_ws y of
                            [] \<Rightarrow> None
                          | w # v \<Rightarrow>
                              if w = CHR ''}'' then Some ([(k, t)], v)
                              else if w = CHR '','' then
                                map_option (\<lambda>(kvs, u). ((k, t) # kvs, u)) (scan_members d v)
                              else None)))))"
  by pat_completeness auto

lemma scan_string_split: "scan_string s = Some (r, q) \<Longrightarrow> s = r @ CHR 0x22 # q"
proof (induction s arbitrary: r q rule: scan_string.induct)
  case (1 s)
  show ?case
  proof (cases s)
    case (Cons c cs)
    with "1.prems" "1.IH" [OF Cons] show ?thesis
      by (subst (asm) scan_string.simps) (auto split: if_splits option.splits dest!: scan_escape_split)
  qed (use "1.prems" in \<open>simp add: scan_string.simps\<close>)
qed

definition splits :: "(string \<Rightarrow> (string \<times> string) option) \<Rightarrow> bool" where
  "splits f \<longleftrightarrow> (\<forall>s r q. f s = Some (r, q) \<longrightarrow> s = r @ q)"

lemma splitsD: "splits f \<Longrightarrow> f s = Some (r, q) \<Longrightarrow> s = r @ q"
  by (simp add: splits_def)

lemma splits_digits: "splits scan_digits"
  by (auto simp: splits_def scan_digits_def split: if_splits)

lemma splits_then: "splits f \<Longrightarrow> splits g \<Longrightarrow> splits (scan_then f g)"
  by (fastforce simp: splits_def scan_then_def split: option.splits)

lemma splits_int: "splits scan_int"
  using splitsD [OF splits_digits] by (auto simp: splits_def scan_int_def split: list.splits if_splits)

lemma splits_frac: "splits scan_frac"
  using splitsD [OF splits_digits] by (auto simp: splits_def scan_frac_def split: list.splits if_splits)

lemma splits_exp: "splits scan_exp"
  using splitsD [OF splits_digits] by (auto simp: splits_def scan_exp_def split: list.splits if_splits)

lemma splits_sign: "splits scan_sign"
  by (auto simp: splits_def scan_sign_def split: list.splits if_splits)

lemma splits_number: "splits scan_number"
  unfolding scan_number_def by (intro splits_then splits_sign splits_int splits_frac splits_exp)

lemma splits_literal: "splits scan_literal"
  using splitsD [OF splits_number]
  by (auto simp: splits_def scan_literal_def HasPrefix_iff split: if_splits)

lemma scan_literal_not_Nil: "scan_literal s = Some (l, q) \<Longrightarrow> l \<noteq> []"
proof -
  have i: "scan_int s = Some (r, q) \<Longrightarrow> r \<noteq> []" for s r q
    by (auto simp: scan_int_def scan_digits_def split: list.splits if_splits)
  show "scan_literal s = Some (l, q) \<Longrightarrow> l \<noteq> []"
    using i by (fastforce simp: scan_literal_def scan_number_def scan_then_def split: if_splits option.splits)
qed

text \<open>Every value takes up some of the text, so scanning ends.\<close>

lemma skip_ws_length: "skip_ws s = c # cs \<Longrightarrow> length cs < length s"
  using length_dropWhile_le [of json_space s] by (simp add: skip_ws_def)

lemma scan_string_length: "scan_string s = Some (r, q) \<Longrightarrow> length q < length s"
  by (drule scan_string_split) simp

lemma scan_literal_length: "scan_literal s = Some (r, q) \<Longrightarrow> length q < length s"
  using splitsD [OF splits_literal, of s r q] scan_literal_not_Nil [of s r q] by auto

lemma scan_shorter:
  "scan_value_scan_elements_scan_members_dom (Inl (d, s)) \<Longrightarrow>
     scan_value d s = Some (t, q) \<Longrightarrow> length q < length s"
  "scan_value_scan_elements_scan_members_dom (Inr (Inl (d, s))) \<Longrightarrow>
     scan_elements d s = Some (ts, q) \<Longrightarrow> length q < length s"
  "scan_value_scan_elements_scan_members_dom (Inr (Inr (d, s))) \<Longrightarrow>
     scan_members d s = Some (kvs, q) \<Longrightarrow> length q < length s"
proof (induction arbitrary: t q and ts q and kvs q rule: scan_value_scan_elements_scan_members.pinduct)
  case (1 d s)
  show ?case
  proof (cases "skip_ws s")
    case (Cons c cs)
    note l = skip_ws_length [OF Cons]
    have e: "length q < length cs" if "c \<noteq> CHR 0x22" "c = CHR ''[''" "d \<noteq> 0" "skip_ws cs = x # z"
      "x \<noteq> CHR '']''" "scan_elements (d - 1) cs = Some (ts, q)" for x z ts
      using "1.IH"(1) [OF Cons that(1-5) that(6)] .
    have m: "length q < length cs" if "c \<noteq> CHR 0x22" "c \<noteq> CHR ''[''" "c = CHR ''{''" "d \<noteq> 0" "skip_ws cs = x # z"
      "x \<noteq> CHR ''}''" "scan_members (d - 1) cs = Some (kvs, q)" for x z kvs
      using "1.IH"(2) [OF Cons that(1-6) that(7)] .
    show ?thesis
      using "1.prems" Cons l
      by (simp add: scan_value.psimps [OF "1.hyps"])
        (auto split: if_splits list.splits dest: e [simplified] m [simplified] skip_ws_length
          dest!: scan_string_length scan_literal_length)
  qed (use "1.prems" in \<open>simp add: scan_value.psimps [OF "1.hyps"]\<close>)
next
  case (2 d s)
  show ?case
  proof (cases "scan_value d s")
    case (Some tq)
    obtain u z where tq: "tq = (u, z)" by (cases tq)
    have v: "length z < length s" using "2.IH"(1) Some tq by blast
    show ?thesis
    proof (cases "skip_ws z")
      case (Cons x y)
      note l = skip_ws_length [OF Cons]
      have "length q < length y" if "x \<noteq> CHR '']''" "x = CHR '',''" "scan_elements d y = Some (us, q)" for us
        using "2.IH"(2) [OF Some tq [symmetric] Cons that] .
      then show ?thesis
        using "2.prems" Some tq Cons l v
        by (auto simp: scan_elements.psimps [OF "2.hyps"] split: if_splits)
    qed (use "2.prems" Some tq in \<open>simp add: scan_elements.psimps [OF "2.hyps"]\<close>)
  qed (use "2.prems" in \<open>simp add: scan_elements.psimps [OF "2.hyps"]\<close>)
next
  case (3 d s)
  note ps = scan_members.psimps [OF "3.hyps"]
  obtain cs where c: "skip_ws s = CHR 0x22 # cs"
    using "3.prems" by (auto simp: ps split: list.splits if_splits)
  obtain k z where k: "scan_string cs = Some (k, z)"
    using "3.prems" by (auto simp: ps c split: option.splits)
  obtain y where y: "skip_ws z = CHR '':'' # y"
    using "3.prems" by (auto simp: ps c k split: list.splits if_splits)
  obtain u v where u: "scan_value d y = Some (u, v)"
    using "3.prems" by (auto simp: ps c k y split: option.splits)
  have len: "length v < length s"
    using skip_ws_length [OF c] scan_string_length [OF k] skip_ws_length [OF y]
      "3.IH"(1) [OF c _ k refl y _ u] by simp
  show ?case
  proof (cases "skip_ws v")
    case (Cons w x)
    have "length q < length x" if "w \<noteq> CHR ''}''" "w = CHR '',''" "scan_members d x = Some (us, q)" for us
      using "3.IH"(2) [OF c _ k refl y _ u refl Cons that(1,2,3)] by simp
    with skip_ws_length [OF Cons] len show ?thesis
      using "3.prems" by (auto simp: ps c k y u Cons split: if_splits)
  qed (use "3.prems" in \<open>simp add: ps c k y u\<close>)
qed

termination scan_value
proof (relation "measure (\<lambda>x. case x of Inl (d, s) \<Rightarrow> 2 * length s
    | Inr (Inl (d, s)) \<Rightarrow> 2 * length s + 1 | Inr (Inr (d, s)) \<Rightarrow> 2 * length s + 1)", goal_cases)
  case 1
  show ?case by simp
next
  case (2 d s c cs x q)
  then show ?case by (auto dest!: skip_ws_length)
next
  case (3 d s c cs x q)
  then show ?case by (auto dest!: skip_ws_length)
next
  case (4 d s)
  show ?case by simp
next
  case (5 d s tq t q x z)
  then show ?case using scan_shorter(1) by (fastforce dest!: skip_ws_length)
next
  case (6 d s c cs kq k q x z)
  then show ?case by (auto dest!: skip_ws_length scan_string_length)
next
  case (7 d s c cs kq k q x z ty t y w v)
  then show ?case
    using scan_shorter(1) [of d z t y] by (auto dest!: skip_ws_length scan_string_length)
qed

declare scan_value.simps [simp del] scan_elements.simps [simp del] scan_members.simps [simp del]

text \<open>The limit on nesting; \<open>Unmarshal\<close> wants one value and white space, a decoder takes the next value
  of its stream and leaves the rest.\<close>

definition maxNestingDepth :: nat where
  "maxNestingDepth = 10000"

definition parse_tree :: "string \<Rightarrow> jtree option" where
  "parse_tree s = (case scan_value maxNestingDepth s of
     None \<Rightarrow> None | Some (t, q) \<Rightarrow> if skip_ws q = [] then Some t else None)"

definition read_tree :: "string \<Rightarrow> jtree option" where
  "read_tree s = map_option fst (scan_value maxNestingDepth s)"

section \<open>Printing\<close>

primrec tree_text :: "jtree \<Rightarrow> string" where
  "tree_text (JtLit l) = l"
| "tree_text (JtStr r) = CHR 0x22 # r @ [CHR 0x22]"
| "tree_text (JtArr ts) = ''['' @ Join '','' (map tree_text ts) @ '']''"
| "tree_text (JtObj kvs) = ''{'' @
     Join '','' (map (\<lambda>(k, s). CHR 0x22 # k @ [CHR 0x22, CHR '':''] @ s) (map (map_prod id tree_text) kvs)) @
     ''}''"

definition member_text :: "string \<times> jtree \<Rightarrow> string" where
  "member_text kt = CHR 0x22 # fst kt @ [CHR 0x22, CHR '':''] @ tree_text (snd kt)"

lemma tree_text_Obj: "tree_text (JtObj kvs) = ''{'' @ Join '','' (map member_text kvs) @ ''}''"
  by (simp add: member_text_def [abs_def] case_prod_unfold comp_def)

text \<open>Trees of tokens that are in the grammar, and how deep they are.\<close>

definition string_ok :: "string \<Rightarrow> bool" where
  "string_ok r \<longleftrightarrow> scan_string (r @ [CHR 0x22]) = Some (r, [])"

definition literal_ok :: "string \<Rightarrow> bool" where
  "literal_ok l \<longleftrightarrow> scan_literal l = Some (l, [])"

fun wf_tree :: "jtree \<Rightarrow> bool" where
  "wf_tree (JtLit l) = literal_ok l"
| "wf_tree (JtStr r) = string_ok r"
| "wf_tree (JtArr ts) = list_all wf_tree ts"
| "wf_tree (JtObj kvs) = list_all (\<lambda>(k, t). string_ok k \<and> wf_tree t) kvs"

fun depth :: "jtree \<Rightarrow> nat" where
  "depth (JtLit l) = 0"
| "depth (JtStr r) = 0"
| "depth (JtArr ts) = Suc (fold max (map depth ts) 0)"
| "depth (JtObj kvs) = Suc (fold max (map (\<lambda>(k, t). depth t) kvs) 0)"

lemma fold_max_le: "fold max ns (0 :: nat) \<le> d \<longleftrightarrow> list_all (\<lambda>n. n \<le> d) ns"
proof -
  have "fold max ns a \<le> d \<longleftrightarrow> a \<le> d \<and> list_all (\<lambda>n. n \<le> d) ns" for a
    by (induction ns arbitrary: a) auto
  then show ?thesis by simp
qed

text \<open>What follows a value: nothing that could go on with a number.\<close>

definition stops :: "string \<Rightarrow> bool" where
  "stops r \<longleftrightarrow> (case r of [] \<Rightarrow> True
     | c # cs \<Rightarrow> \<not> digit_char c \<and> c \<noteq> CHR ''.'' \<and> c \<noteq> CHR ''e'' \<and> c \<noteq> CHR ''E'' \<and> c \<noteq> CHR ''-'')"

definition extends :: "(string \<Rightarrow> (string \<times> string) option) \<Rightarrow> bool" where
  "extends f \<longleftrightarrow> (\<forall>s a q r. f s = Some (a, q) \<longrightarrow> stops r \<longrightarrow> f (s @ r) = Some (a, q @ r))"

lemma extendsD: "extends f \<Longrightarrow> f s = Some (a, q) \<Longrightarrow> stops r \<Longrightarrow> f (s @ r) = Some (a, q @ r)"
  by (simp add: extends_def)

lemma stops_digits: "stops r \<Longrightarrow> takeWhile digit_char r = [] \<and> dropWhile digit_char r = r"
  by (cases r) (auto simp: stops_def)

lemma while_digits_append:
  assumes "stops r"
  shows "takeWhile digit_char (s @ r) = takeWhile digit_char s"
    and "dropWhile digit_char (s @ r) = dropWhile digit_char s @ r"
  using stops_digits [OF assms] by (induction s) auto

lemma extends_digits: "extends scan_digits"
  by (auto simp: extends_def scan_digits_def while_digits_append split: if_splits)

lemma extends_then: "extends f \<Longrightarrow> extends g \<Longrightarrow> extends (scan_then f g)"
  by (fastforce simp: extends_def scan_then_def split: option.splits)

lemma extends_int: "extends scan_int"
  using extendsD [OF extends_digits] unfolding extends_def scan_int_def
  by (auto split: list.splits if_splits) force

lemma extends_frac: "extends scan_frac"
  using extendsD [OF extends_digits] unfolding extends_def scan_frac_def
  by (auto simp: stops_def split: list.splits if_splits)

lemma extends_exp: "extends scan_exp"
proof -
  have "scan_exp (s @ r) = Some (a, q @ r)" if "scan_exp s = Some (a, q)" "stops r" for s a q r
  proof -
    note d = extendsD [OF extends_digits _ that(2)]
    show ?thesis
      using that d d [of "x # xs" for x xs, simplified]
      by (auto simp: scan_exp_def stops_def split: list.splits if_splits)
  qed
  then show ?thesis by (simp add: extends_def)
qed

lemma extends_sign: "extends scan_sign"
  unfolding extends_def scan_sign_def by (auto simp: stops_def split: list.splits if_splits)

lemma extends_number: "extends scan_number"
  unfolding scan_number_def by (intro extends_then extends_sign extends_int extends_frac extends_exp)


lemma number_start: "scan_number s = Some (l, q) \<Longrightarrow> s \<noteq> [] \<and> (digit_char (hd s) \<or> hd s = CHR ''-'')"
proof -
  have "digit_char CHR ''0''" by code_simp
  then show "scan_number s = Some (l, q) \<Longrightarrow> ?thesis"
    unfolding scan_number_def scan_then_def scan_sign_def scan_int_def scan_digits_def
    by (auto split: option.splits list.splits if_splits)
qed

text \<open>A literal is one of the three words or a number.\<close>

lemma literal_ok_iff:
  "literal_ok l \<longleftrightarrow> l = ''true'' \<or> l = ''false'' \<or> l = ''null'' \<or> scan_number l = Some (l, [])"
proof -
  have no: "\<not> HasPrefix l w" if "scan_number l = Some (l, [])" "w \<in> {''true'', ''false'', ''null''}" for w
    using number_start [OF that(1)] that(2) by (auto simp: HasPrefix_iff digit_char_def)
  have "literal_ok l" if "scan_number l = Some (l, [])"
    using no [OF that] that by (simp add: literal_ok_def scan_literal_def)
  moreover have "literal_ok ''true''" "literal_ok ''false''" "literal_ok ''null''" by code_simp+
  ultimately show ?thesis
    by (auto simp: literal_ok_def scan_literal_def HasPrefix_iff split: if_splits)
qed

lemma literal_append:
  assumes "literal_ok l" and "stops r"
  shows "scan_literal (l @ r) = Some (l, r)"
  using assms(1) unfolding literal_ok_iff
proof (elim disjE)
  assume n: "scan_number l = Some (l, [])"
  then have "\<not> HasPrefix (l @ r) w" if "w \<in> {''true'', ''false'', ''null''}" for w
    using number_start [OF n] that by (cases l) (auto simp: HasPrefix_iff digit_char_def)
  moreover have "scan_number (l @ r) = Some (l, r)"
    using extendsD [OF extends_number n assms(2)] by simp
  ultimately show ?thesis by (simp add: scan_literal_def)
qed (simp_all add: scan_literal_def HasPrefix_def)

lemma literal_start:
  assumes "literal_ok l"
  shows "l \<noteq> [] \<and> \<not> json_space (hd l) \<and> hd l \<notin> {CHR 0x22, CHR ''['', CHR ''{''}"
  using assms number_start [of l] unfolding literal_ok_iff
  by (auto simp: json_space_def digit_char_def)

lemma scan_escape_append: "scan_escape s = Some (e, q) \<Longrightarrow> scan_escape (s @ z) = Some (e, q @ z)"
  by (auto simp: scan_escape_def split: list.splits if_splits)

lemma scan_string_append: "scan_string s = Some (r, q) \<Longrightarrow> scan_string (s @ z) = Some (r, q @ z)"
proof (induction s arbitrary: r q rule: scan_string.induct)
  case (1 s)
  show ?case
  proof (cases s)
    case (Cons c cs)
    note eq = scan_string.simps [of "_ # _", simplified]
    consider "c = CHR 0x22" | "c = CHR 0x5C" | "c \<noteq> CHR 0x22" "c \<noteq> CHR 0x5C" "\<not> c < CHR 0x20"
      using "1.prems" by (auto simp: Cons eq split: if_splits)
    then show ?thesis
    proof cases
      case 2
      then obtain e y where e: "scan_escape cs = Some (e, y)"
        using "1.prems" by (auto simp: Cons eq split: option.splits)
      with 2 "1.IH"(1) [OF Cons _ 2 e refl] "1.prems" scan_escape_append [OF e] show ?thesis
        by (auto simp: Cons eq)
    next
      case 3
      with "1.IH"(2) [OF Cons] "1.prems" show ?thesis by (auto simp: Cons eq)
    qed (use "1.prems" in \<open>simp add: Cons eq\<close>)
  qed (use "1.prems" in \<open>simp add: scan_string.simps\<close>)
qed

lemma string_ok_scan: "string_ok r \<Longrightarrow> scan_string (r @ CHR 0x22 # z) = Some (r, z)"
  using scan_string_append [of "r @ [CHR 0x22]" r "[]" z] by (simp add: string_ok_def)

section \<open>Reading what was printed\<close>

lemma skip_ws_Cons [simp]: "\<not> json_space c \<Longrightarrow> skip_ws (c # cs) = c # cs"
  by (simp add: skip_ws_def)

lemma json_punct [simp]:
  "\<not> json_space CHR 0x22" "\<not> json_space CHR ''[''" "\<not> json_space CHR '']''" "\<not> json_space CHR ''{''"
  "\<not> json_space CHR ''}''" "\<not> json_space CHR '',''" "\<not> json_space CHR '':''"
  by (simp_all add: json_space_def)

lemma stops_punct [simp]:
  "stops []" "stops (CHR '','' # r)" "stops (CHR '']'' # r)" "stops (CHR ''}'' # r)" "stops (CHR 0x0A # r)"
  by (simp_all add: stops_def digit_char_def)

text \<open>A printed value starts with a byte that is no white space and does not close an array.\<close>

lemma tree_text_start:
  "wf_tree t \<Longrightarrow> \<exists>c cs. tree_text t = c # cs \<and> \<not> json_space c \<and> c \<noteq> CHR '']''"
proof (cases t)
  case (JtLit l)
  assume "wf_tree t"
  with JtLit have l: "literal_ok l" by simp
  then have "hd l \<noteq> CHR '']''"
    using number_start [of l] unfolding literal_ok_iff by (auto simp: digit_char_def)
  with literal_start [OF l] JtLit show ?thesis by (cases l) auto
qed (auto simp: tree_text_Obj simp del: tree_text.simps(4))

lemma scan_elements_text:
  assumes "\<And>t r. t \<in> set ts \<Longrightarrow> stops r \<Longrightarrow> scan_value d (tree_text t @ r) = Some (t, r)" and "ts \<noteq> []"
  shows "scan_elements d (Join '','' (map tree_text ts) @ CHR '']'' # r) = Some (ts, r)"
  using assms
proof (induction ts)
  case (Cons t ts)
  show ?case
  proof (cases "ts = []")
    case True
    with Cons.prems(1) [of t "CHR '']'' # r"] show ?thesis by (simp add: scan_elements.simps)
  next
    case False
    with Cons show ?thesis
      by (simp add: scan_elements.simps [of d "tree_text t @ _"] Join_Cons)
  qed
qed simp

lemma member_text_pair: "member_text (k, t) = CHR 0x22 # k @ CHR 0x22 # CHR '':'' # tree_text t"
  by (simp add: member_text_def)

lemma scan_members_text:
  assumes "\<And>k t r. (k, t) \<in> set kvs \<Longrightarrow> stops r \<Longrightarrow> scan_value d (tree_text t @ r) = Some (t, r)"
    and "list_all (\<lambda>(k, t). string_ok k) kvs" and "kvs \<noteq> []"
  shows "scan_members d (Join '','' (map member_text kvs) @ CHR ''}'' # r) = Some (kvs, r)"
  using assms
proof (induction kvs)
  case (Cons kt kvs)
  obtain k t where kt: "kt = (k, t)" by (cases kt)
  have k: "scan_string (k @ CHR 0x22 # z) = Some (k, z)" for z
    using Cons.prems(2) by (simp add: kt string_ok_scan)
  have t: "scan_value d (tree_text t @ r) = Some (t, r)" if "stops r" for r
    using Cons.prems(1) [of k t r] that by (simp add: kt)
  show ?case
  proof (cases "kvs = []")
    case True
    with k t show ?thesis by (simp add: scan_members.simps kt member_text_pair)
  next
    case False
    have "scan_members d (Join '','' (map member_text kvs) @ CHR ''}'' # r) = Some (kvs, r)"
      by (rule Cons.IH) (use Cons.prems False in auto)
    with False k t show ?thesis
      by (simp add: scan_members.simps [of d "CHR 0x22 # _"] kt member_text_pair Join_Cons)
  qed
qed simp

lemma scan_value_text:
  "wf_tree t \<Longrightarrow> depth t \<le> d \<Longrightarrow> stops r \<Longrightarrow> scan_value d (tree_text t @ r) = Some (t, r)"
proof (induction t arbitrary: d r)
  case (JtLit l)
  then have l: "literal_ok l" by simp
  obtain c cs where c: "l @ r = c # cs" "hd l = c" using literal_start [OF l] by (cases l) auto
  with literal_start [OF l] have "\<not> json_space c" "c \<notin> {CHR 0x22, CHR ''['', CHR ''{''}" by auto
  with literal_append [OF l JtLit(3)] c show ?case by (simp add: scan_value.simps)
next
  case (JtStr s)
  then show ?case by (simp add: scan_value.simps string_ok_scan)
next
  case (JtArr ts)
  show ?case
  proof (cases ts)
    case Nil
    with JtArr.prems show ?thesis by (simp add: scan_value.simps)
  next
    case (Cons t us)
    have d: "d \<noteq> 0" using JtArr.prems by simp
    obtain c cs where c: "Join '','' (map tree_text ts) @ CHR '']'' # r = c # cs" "\<not> json_space c" "c \<noteq> CHR '']''"
      using tree_text_start [of t] JtArr.prems(1) by (cases us) (auto simp: Cons)
    have "scan_elements (d - 1) (Join '','' (map tree_text ts) @ CHR '']'' # r) = Some (ts, r)"
    proof (rule scan_elements_text)
      have "list_all (\<lambda>t. depth t \<le> d - 1) ts"
        using JtArr.prems(2) fold_max_le [of "map depth ts" "d - 1"] by (auto simp: list_all_iff)
      then show "scan_value (d - 1) (tree_text t @ r) = Some (t, r)" if "t \<in> set ts" "stops r" for t r
        using JtArr.IH [of t "d - 1" r] JtArr.prems(1) that by (simp add: list_all_iff)
    qed (simp add: Cons)
    with c d show ?thesis by (simp add: scan_value.simps)
  qed
next
  case (JtObj kvs)
  show ?case
  proof (cases kvs)
    case Nil
    with JtObj.prems show ?thesis by (simp add: scan_value.simps)
  next
    case (Cons kt us)
    have d: "d \<noteq> 0" using JtObj.prems by simp
    obtain cs where c: "Join '','' (map member_text kvs) @ CHR ''}'' # r = CHR 0x22 # cs"
      by (cases us) (auto simp: Cons member_text_def)
    have "scan_members (d - 1) (Join '','' (map member_text kvs) @ CHR ''}'' # r) = Some (kvs, r)"
    proof (rule scan_members_text)
      have "list_all (\<lambda>(k, t). depth t \<le> d - 1) kvs"
        using JtObj.prems(2) fold_max_le [of "map (\<lambda>(k, t). depth t) kvs" "d - 1"]
        by (auto simp: list_all_iff)
      then show "scan_value (d - 1) (tree_text t @ r) = Some (t, r)" if "(k, t) \<in> set kvs" "stops r" for k t r
        using JtObj.IH [of "(k, t)" t "d - 1" r] JtObj.prems(1) that by (auto simp: list_all_iff)
      show "list_all (\<lambda>(k, t). string_ok k) kvs"
        using JtObj.prems(1) by (auto simp: list_all_iff)
    qed (simp add: Cons)
    with c d show ?thesis by (simp add: scan_value.simps tree_text_Obj del: tree_text.simps(4))
  qed
qed

lemma parse_tree_text:
  assumes "wf_tree t" and "depth t \<le> maxNestingDepth"
  shows "parse_tree (tree_text t) = Some t" and "parse_tree (tree_text t @ [CHR 0x0A]) = Some t"
    and "stops r \<Longrightarrow> read_tree (tree_text t @ r) = Some t"
  using scan_value_text [OF assms, of "[]"] scan_value_text [OF assms, of "[CHR 0x0A]"]
    scan_value_text [OF assms, of r]
  by (simp_all add: parse_tree_def read_tree_def skip_ws_def json_space_def)

section \<open>What was read can be printed\<close>

text \<open>A scanner that reads the same of a shorter text.\<close>

definition cuts :: "(string \<Rightarrow> (string \<times> string) option) \<Rightarrow> bool" where
  "cuts f \<longleftrightarrow> (\<forall>s a b z. f s = Some (a, b @ z) \<longrightarrow> f (a @ b) = Some (a, b))"

lemma cutsD: "cuts f \<Longrightarrow> f s = Some (a, b @ z) \<Longrightarrow> f (a @ b) = Some (a, b)"
  unfolding cuts_def by blast

lemma cuts_digits: "cuts scan_digits"
proof -
  have "takeWhile digit_char (takeWhile digit_char s @ b) = takeWhile digit_char s \<and>
      dropWhile digit_char (takeWhile digit_char s @ b) = b"
    if "dropWhile digit_char s = b @ z" for s b z
  proof -
    have "b = [] \<or> \<not> digit_char (hd b)"
      using that hd_dropWhile [of digit_char s] by (cases b) auto
    then show ?thesis
      by (cases b) (auto simp: takeWhile_append dropWhile_append dest: set_takeWhileD)
  qed
  then show ?thesis by (auto simp: cuts_def scan_digits_def split: if_splits)
qed

lemma cuts_then:
  assumes "cuts f" "splits g" "cuts g" shows "cuts (scan_then f g)"
proof -
  have "scan_then f g (a @ b) = Some (a, b)" if t: "scan_then f g s = Some (a, b @ z)" for s a b z
  proof -
    obtain a1 q a2 where f: "f s = Some (a1, q)" "g q = Some (a2, b @ z)" "a = a1 @ a2"
      using t by (auto simp: scan_then_def split: option.splits)
    then have "f (a1 @ a2 @ b) = Some (a1, a2 @ b)"
      using cutsD [OF assms(1), of s a1 "a2 @ b" z] splitsD [OF assms(2) f(2)] by simp
    with cutsD [OF assms(3) f(2)] f(3) show ?thesis by (simp add: scan_then_def)
  qed
  then show ?thesis by (simp add: cuts_def)
qed

lemma cuts_int: "cuts scan_int"
proof -
  have "scan_int (a @ b) = Some (a, b)" if "scan_int s = Some (a, b @ z)" for s a b z
  proof (cases s)
    case (Cons c cs)
    show ?thesis
    proof (cases "c = CHR ''0''")
      case False
      with that Cons have d: "scan_digits s = Some (a, b @ z)" by (simp add: scan_int_def)
      then have "a \<noteq> [] \<and> hd a = c"
        using splitsD [OF splits_digits d] Cons by (cases a) (auto simp: scan_digits_def split: if_splits)
      with False cutsD [OF cuts_digits d] show ?thesis
        by (cases a) (auto simp: scan_int_def)
    qed (use that Cons in \<open>auto simp: scan_int_def\<close>)
  qed (use that in \<open>simp add: scan_int_def\<close>)
  then show ?thesis by (simp add: cuts_def)
qed

lemma cuts_frac: "cuts scan_frac"
  using cutsD [OF cuts_digits] unfolding cuts_def scan_frac_def
  by (auto simp: append_eq_Cons_conv Cons_eq_append_conv split: list.splits if_splits)

lemma scan_digits_start: "scan_digits s = Some (a, q) \<Longrightarrow> \<exists>x xs. a = x # xs \<and> digit_char x \<and> hd s = x"
  by (cases s) (auto simp: scan_digits_def split: if_splits)

lemma cuts_exp: "cuts scan_exp"
proof -
  have "scan_exp (a @ b) = Some (a, b)" if t: "scan_exp s = Some (a, b @ z)" for s a b z
  proof (cases "s \<noteq> [] \<and> (hd s = CHR ''e'' \<or> hd s = CHR ''E'')")
    case True
    then obtain c d ds where s: "s = c # d # ds" "c = CHR ''e'' \<or> c = CHR ''E''"
      using t by (cases s) (auto simp: scan_exp_def split: list.splits)
    show ?thesis
    proof (cases "d = CHR ''+'' \<or> d = CHR ''-''")
      case True
      with s t obtain x where "scan_digits ds = Some (x, b @ z)" "a = c # d # x"
        by (auto simp: scan_exp_def)
      with cutsD [OF cuts_digits] s True show ?thesis by (auto simp: scan_exp_def)
    next
      case False
      with s t obtain x where x: "scan_digits (d # ds) = Some (x, b @ z)" "a = c # x"
        by (auto simp: scan_exp_def)
      then obtain xs where "x = d # xs" using scan_digits_start [OF x(1)] by auto
      with cutsD [OF cuts_digits x(1)] x(2) s False show ?thesis by (auto simp: scan_exp_def)
    qed
  next
    case False
    with t have "a = []" "s = b @ z" by (auto simp: scan_exp_def split: list.splits if_splits)
    with False show ?thesis by (cases b) (auto simp: scan_exp_def)
  qed
  then show ?thesis by (simp add: cuts_def)
qed

lemma cuts_sign: "cuts scan_sign"
  unfolding cuts_def scan_sign_def
  by (auto simp: append_eq_Cons_conv Cons_eq_append_conv split: list.splits if_splits)

lemma cuts_number: "cuts scan_number"
  unfolding scan_number_def
  by (intro cuts_then splits_then cuts_sign cuts_int cuts_frac cuts_exp splits_int splits_frac splits_exp)

lemma scanned_literal: "scan_literal s = Some (l, q) \<Longrightarrow> literal_ok l"
  using cutsD [OF cuts_number, of s l "[]" q]
  by (auto simp: literal_ok_iff scan_literal_def split: if_splits)

lemma scanned_escape: "scan_escape s = Some (e, q) \<Longrightarrow> scan_escape (e @ z) = Some (e, z)"
  by (auto simp: scan_escape_def min_def split: list.splits if_splits)

lemma scanned_string: "scan_string s = Some (r, q) \<Longrightarrow> string_ok r"
proof (induction s arbitrary: r q rule: scan_string.induct)
  case (1 s)
  show ?case
  proof (cases s)
    case (Cons c cs)
    note eq = scan_string.simps [of "_ # _", simplified]
    consider "c = CHR 0x22" | "c = CHR 0x5C" | "c \<noteq> CHR 0x22" "c \<noteq> CHR 0x5C" "\<not> c < CHR 0x20"
      using "1.prems" by (auto simp: Cons eq split: if_splits)
    then show ?thesis
    proof cases
      case 1
      with "1.prems" show ?thesis by (auto simp: Cons eq string_ok_def)
    next
      case 2
      then obtain e y x where e: "scan_escape cs = Some (e, y)" "scan_string y = Some (x, q)" "r = c # e @ x"
        using "1.prems" by (auto simp: Cons eq split: option.splits)
      with 2 "1.IH"(1) [OF Cons _ 2 e(1) refl] scanned_escape [OF e(1)] show ?thesis
        by (simp add: eq string_ok_def)
    next
      case 3
      then obtain x where "scan_string cs = Some (x, q)" "r = c # x"
        using "1.prems" by (auto simp: Cons eq)
      with 3 "1.IH"(2) [OF Cons 3] show ?thesis by (simp add: eq string_ok_def)
    qed
  qed (use "1.prems" in \<open>simp add: scan_string.simps\<close>)
qed

text \<open>A value that was read is in the grammar and not deeper than allowed.\<close>

lemma depth_Arr: "depth (JtArr ts) \<le> Suc d \<longleftrightarrow> list_all (\<lambda>t. depth t \<le> d) ts"
  using fold_max_le [of "map depth ts" d] by (simp add: list_all_iff)

lemma depth_Obj: "depth (JtObj kvs) \<le> Suc d \<longleftrightarrow> list_all (\<lambda>(k, t). depth t \<le> d) kvs"
  using fold_max_le [of "map (\<lambda>(k, t). depth t) kvs" d] by (auto simp: list_all_iff)

lemma scanned_wf:
  "scan_value d s = Some (t, q) \<Longrightarrow> wf_tree t \<and> depth t \<le> d"
  "scan_elements d s = Some (ts, q) \<Longrightarrow> list_all (\<lambda>t. wf_tree t \<and> depth t \<le> d) ts"
  "scan_members d s = Some (kvs, q) \<Longrightarrow>
     list_all (\<lambda>(k, t). string_ok k \<and> wf_tree t \<and> depth t \<le> d) kvs"
proof (induction d s and d s and d s arbitrary: t q and ts q and kvs q
    rule: scan_value_scan_elements_scan_members.induct)
  case (1 d s)
  note eq = scan_value.simps [of d s]
  show ?case
  proof (cases "skip_ws s")
    case (Cons c cs)
    have e: "list_all wf_tree ts \<and> depth (JtArr ts) \<le> d" if "c = CHR ''[''" "d \<noteq> 0" "skip_ws cs = x # z"
      "x \<noteq> CHR '']''" "scan_elements (d - 1) cs = Some (ts, q)" for x z ts
      using "1.IH"(1) [OF Cons _ that(1-5)] that(1,2) depth_Arr [of ts "d - 1"] by (auto simp: list_all_iff)
    have m: "wf_tree (JtObj kvs) \<and> depth (JtObj kvs) \<le> d" if "c = CHR ''{''" "d \<noteq> 0" "skip_ws cs = x # z"
      "x \<noteq> CHR ''}''" "scan_members (d - 1) cs = Some (kvs, q)" for x z kvs
      using "1.IH"(2) [OF Cons _ _ that(1-5)] that(1,2) depth_Obj [of kvs "d - 1"] by (auto simp: list_all_iff)
    show ?thesis
      using "1.prems" Cons
      by (simp add: eq)
        (auto split: if_splits list.splits dest: e [simplified] m [simplified] scanned_string scanned_literal)
  qed (use "1.prems" in \<open>simp add: eq\<close>)
next
  case (2 d s)
  note eq = scan_elements.simps [of d s]
  obtain t z where t: "scan_value d s = Some (t, z)"
    using "2.prems" by (auto simp: eq split: option.splits)
  obtain x y where x: "skip_ws z = x # y"
    using "2.prems" by (auto simp: eq t split: list.splits)
  have "list_all (\<lambda>t. wf_tree t \<and> depth t \<le> d) us"
    if "x \<noteq> CHR '']''" "x = CHR '',''" "scan_elements d y = Some (us, q)" for us
    using "2.IH"(2) [OF t refl x that] .
  with "2.IH"(1) [OF t] "2.prems" show ?case by (auto simp: eq t x split: if_splits)
next
  case (3 d s)
  note eq = scan_members.simps [of d s]
  obtain cs where c: "skip_ws s = CHR 0x22 # cs"
    using "3.prems" by (auto simp: eq split: list.splits if_splits)
  obtain k z where k: "scan_string cs = Some (k, z)"
    using "3.prems" by (auto simp: eq c split: option.splits)
  obtain y where y: "skip_ws z = CHR '':'' # y"
    using "3.prems" by (auto simp: eq c k split: list.splits if_splits)
  obtain u v where u: "scan_value d y = Some (u, v)"
    using "3.prems" by (auto simp: eq c k y split: option.splits)
  obtain w x where w: "skip_ws v = w # x"
    using "3.prems" by (auto simp: eq c k y u split: list.splits)
  have "list_all (\<lambda>(k, t). string_ok k \<and> wf_tree t \<and> depth t \<le> d) us"
    if "w \<noteq> CHR ''}''" "w = CHR '',''" "scan_members d x = Some (us, q)" for us
    using "3.IH"(2) [OF c _ k refl y _ u refl w that] by simp
  moreover have "wf_tree u \<and> depth u \<le> d" using "3.IH"(1) [OF c _ k refl y _ u] by simp
  ultimately show ?case
    using "3.prems" scanned_string [OF k] by (auto simp: eq c k y u w split: if_splits)
qed

lemma parse_tree_wf: "parse_tree s = Some t \<Longrightarrow> wf_tree t \<and> depth t \<le> maxNestingDepth"
  by (auto simp: parse_tree_def dest: scanned_wf(1) split: option.splits if_splits)

text \<open>Nothing that is printed has a control character in it, so a printed value is one line.\<close>

definition printed :: "string \<Rightarrow> bool" where
  "printed s \<longleftrightarrow> list_all (\<lambda>c. \<not> c < CHR 0x20) s"

lemma printed_append [simp]: "printed (s @ s') \<longleftrightarrow> printed s \<and> printed s'"
  by (simp add: printed_def)

lemma printed_Cons [simp]: "printed (c # s) \<longleftrightarrow> \<not> c < CHR 0x20 \<and> printed s"
  by (simp add: printed_def)

lemma printed_Nil [simp]: "printed []"
  by (simp add: printed_def)

lemma printed_escape: "scan_escape s = Some (e, q) \<Longrightarrow> printed e"
proof -
  assume e: "scan_escape s = Some (e, q)"
  have h: "hex_digit c \<Longrightarrow> \<not> c < CHR 0x20" for c
    by (auto simp: hex_digit_def digit_char_def less_char_def less_eq_char_def)
  have "simple_escape c \<Longrightarrow> \<not> c < CHR 0x20" for c
    by (auto simp: simple_escape_def less_char_def)
  with e h show ?thesis
    by (auto simp: scan_escape_def printed_def list_all_iff less_char_def split: list.splits if_splits)
qed

lemma printed_string: "scan_string s = Some (r, q) \<Longrightarrow> printed r"
proof (induction s arbitrary: r q rule: scan_string.induct)
  case (1 s)
  show ?case
  proof (cases s)
    case (Cons c cs)
    note eq = scan_string.simps [of "_ # _", simplified]
    consider "c = CHR 0x22" | "c = CHR 0x5C" | "c \<noteq> CHR 0x22" "c \<noteq> CHR 0x5C" "\<not> c < CHR 0x20"
      using "1.prems" by (auto simp: Cons eq split: if_splits)
    then show ?thesis
    proof cases
      case 2
      then obtain e y x where e: "scan_escape cs = Some (e, y)" "scan_string y = Some (x, q)" "r = c # e @ x"
        using "1.prems" by (auto simp: Cons eq split: option.splits)
      with 2 "1.IH"(1) [OF Cons _ 2 e(1) refl e(2)] printed_escape [OF e(1)] show ?thesis
        by (simp add: less_char_def)
    next
      case 3
      with "1.IH"(2) [OF Cons 3] "1.prems" show ?thesis by (auto simp: Cons eq)
    qed (use "1.prems" in \<open>simp add: Cons eq\<close>)
  qed (use "1.prems" in \<open>simp add: scan_string.simps\<close>)
qed

lemma printed_literal:
  assumes "literal_ok l" shows "printed l"
proof -
  have d: "scan_digits s = Some (a, q) \<Longrightarrow> printed a" for s a q
    by (auto simp: scan_digits_def printed_def list_all_iff digit_char_def less_char_def less_eq_char_def
        dest!: set_takeWhileD split: if_splits)
  have t: "scan_then f g s = Some (a, q) \<Longrightarrow> (\<And>s a q. f s = Some (a, q) \<Longrightarrow> printed a) \<Longrightarrow>
      (\<And>s a q. g s = Some (a, q) \<Longrightarrow> printed a) \<Longrightarrow> printed a" for f g s a q
    by (fastforce simp: scan_then_def split: option.splits)
  have "scan_sign s = Some (a, q) \<Longrightarrow> printed a" "scan_int s = Some (a, q) \<Longrightarrow> printed a"
    "scan_frac s = Some (a, q) \<Longrightarrow> printed a" "scan_exp s = Some (a, q) \<Longrightarrow> printed a" for s a q
    by (auto simp: scan_sign_def scan_int_def scan_frac_def scan_exp_def less_char_def dest!: d
        split: list.splits if_splits)
  then have "scan_number l = Some (l, q) \<Longrightarrow> printed l" for q
    unfolding scan_number_def by (elim t) blast+
  then show ?thesis using assms by (auto simp: literal_ok_iff less_char_def)
qed

lemma printed_Join: "printed sep \<Longrightarrow> list_all printed xs \<Longrightarrow> printed (Join sep xs)"
  by (induction sep xs rule: Join.induct) simp_all

lemma printed_tree: "wf_tree t \<Longrightarrow> printed (tree_text t)"
proof (induction t)
  case (JtStr r)
  then show ?case using printed_string by (auto simp: string_ok_def less_char_def)
next
  case (JtArr ts)
  then show ?case by (auto simp: list_all_iff less_char_def intro!: printed_Join)
next
  case (JtObj kvs)
  have "printed (member_text kt)" if "kt \<in> set kvs" for kt
    using JtObj.IH [of kt "snd kt"] JtObj.prems that printed_string
    by (cases kt) (fastforce simp: list_all_iff member_text_pair string_ok_def less_char_def)
  then show ?case by (auto simp: tree_text_Obj list_all_iff less_char_def simp del: tree_text.simps intro!: printed_Join)
qed (simp add: printed_literal)

lemma printed_no_newline: "printed s \<Longrightarrow> CHR 0x0A \<notin> set s"
  by (auto simp: printed_def list_all_iff less_char_def)

end
