(* ===== verification/JsonString.thy ===== *)
theory JsonString
  imports JsonText
begin

text \<open>
  The strings of \<open>encoding/json\<close>: what the encoder writes between the quotes for a string of bytes,
  and what the decoder makes of it. The last lemma is that the two fit together.
\<close>

section \<open>Strings\<close>

text \<open>
  A Go string is a string of bytes. The encoder copies its valid UTF-8, with escapes where it is not
  safe in HTML or JavaScript, and writes the replacement character for every other byte; the
  decoder turns escapes and invalid bytes of a JSON string into UTF-8.
\<close>

abbreviation byte :: "char \<Rightarrow> nat" where
  "byte c \<equiv> of_char c"

text \<open>The length of the rune a string starts with, 0 if it starts with none (\<open>utf8.DecodeRune\<close>).\<close>

definition byte_in :: "string \<Rightarrow> nat \<Rightarrow> nat \<Rightarrow> nat \<Rightarrow> bool" where
  "byte_in s i lo hi \<longleftrightarrow> i < length s \<and> lo \<le> byte (s ! i) \<and> byte (s ! i) \<le> hi"

definition rune2 :: "string \<Rightarrow> bool" where
  "rune2 s \<longleftrightarrow> byte_in s 0 0xC2 0xDF \<and> byte_in s 1 0x80 0xBF"

definition rune3 :: "string \<Rightarrow> bool" where
  "rune3 s \<longleftrightarrow> (byte_in s 0 0xE0 0xE0 \<and> byte_in s 1 0xA0 0xBF \<or>
      byte_in s 0 0xED 0xED \<and> byte_in s 1 0x80 0x9F \<or>
      (byte_in s 0 0xE1 0xEC \<or> byte_in s 0 0xEE 0xEF) \<and> byte_in s 1 0x80 0xBF) \<and>
    byte_in s 2 0x80 0xBF"

definition rune4 :: "string \<Rightarrow> bool" where
  "rune4 s \<longleftrightarrow> (byte_in s 0 0xF0 0xF0 \<and> byte_in s 1 0x90 0xBF \<or>
      byte_in s 0 0xF4 0xF4 \<and> byte_in s 1 0x80 0x8F \<or>
      byte_in s 0 0xF1 0xF3 \<and> byte_in s 1 0x80 0xBF) \<and>
    byte_in s 2 0x80 0xBF \<and> byte_in s 3 0x80 0xBF"

definition rune_len :: "string \<Rightarrow> nat" where
  "rune_len s =
     (if byte_in s 0 0 0x7F then 1 else if rune2 s then 2 else if rune3 s then 3
      else if rune4 s then 4 else 0)"

definition RuneError :: string where
  "RuneError = [CHR 0xEF, CHR 0xBF, CHR 0xBD]"

text \<open>\<open>utf8.AppendRune\<close>.\<close>

definition encode_rune :: "nat \<Rightarrow> string" where
  "encode_rune n =
     (if n < 0x80 then [char_of n]
      else if n < 0x800 then [char_of (0xC0 + n div 64), char_of (0x80 + n mod 64)]
      else if 0xD800 \<le> n \<and> n < 0xE000 \<or> 0x10FFFF < n then RuneError
      else if n < 0x10000 then
        [char_of (0xE0 + n div 4096), char_of (0x80 + n div 64 mod 64), char_of (0x80 + n mod 64)]
      else [char_of (0xF0 + n div 262144), char_of (0x80 + n div 4096 mod 64),
        char_of (0x80 + n div 64 mod 64), char_of (0x80 + n mod 64)])"

text \<open>The bytes below 128: \<open>appendString\<close> with HTML escaping.\<close>

definition quote_byte :: "char \<Rightarrow> string" where
  "quote_byte c =
     (if c = CHR 0x22 \<or> c = CHR 0x5C then [CHR 0x5C, c]
      else if c = CHR 0x08 then [CHR 0x5C, CHR ''b'']
      else if c = CHR 0x0C then [CHR 0x5C, CHR ''f'']
      else if c = CHR 0x0A then [CHR 0x5C, CHR ''n'']
      else if c = CHR 0x0D then [CHR 0x5C, CHR ''r'']
      else if c = CHR 0x09 then [CHR 0x5C, CHR ''t'']
      else if byte c < 0x20 \<or> c = CHR ''<'' \<or> c = CHR ''>'' \<or> c = CHR ''&'' then
        [CHR 0x5C, CHR ''u'', CHR ''0'', CHR ''0'', hex_char (byte c div 16), hex_char (byte c mod 16)]
      else [c])"

text \<open>U+2028 and U+2029 are escaped as well.\<close>

definition quote_rune :: "string \<Rightarrow> string" where
  "quote_rune r =
     (if r = [CHR 0xE2, CHR 0x80, CHR 0xA8] then CHR 0x5C # ''u2028''
      else if r = [CHR 0xE2, CHR 0x80, CHR 0xA9] then CHR 0x5C # ''u2029''
      else r)"

function quote :: "string \<Rightarrow> string" where
  "quote s =
     (case s of
        [] \<Rightarrow> []
      | c # cs \<Rightarrow>
          if byte c < 0x80 then quote_byte c @ quote cs
          else if rune_len s = 0 then CHR 0x5C # ''ufffd'' @ quote cs
          else quote_rune (take (rune_len s) s) @ quote (drop (rune_len s) s))"
  by pat_completeness auto
termination by (relation "measure length") auto

text \<open>\<open>unquote\<close>: escapes back to bytes; a pair of surrogates is one rune, a lone one the replacement
  character.\<close>

definition hex4 :: "string \<Rightarrow> nat" where
  "hex4 s = foldl (\<lambda>n c. 16 * n + hex_value c) 0 (take 4 s)"

definition unescape_byte :: "char \<Rightarrow> char" where
  "unescape_byte d =
     (if d = CHR ''b'' then CHR 0x08 else if d = CHR ''f'' then CHR 0x0C
      else if d = CHR ''n'' then CHR 0x0A else if d = CHR ''r'' then CHR 0x0D
      else if d = CHR ''t'' then CHR 0x09 else d)"

definition surrogate :: "nat \<Rightarrow> bool" where
  "surrogate n \<longleftrightarrow> 0xD800 \<le> n \<and> n < 0xE000"

definition low_surrogate :: "nat \<Rightarrow> string \<Rightarrow> bool" where
  "low_surrogate hi s \<longleftrightarrow> hi < 0xDC00 \<and> HasPrefix s [CHR 0x5C, CHR ''u''] \<and>
     0xDC00 \<le> hex4 (drop 2 s) \<and> hex4 (drop 2 s) < 0xE000"

function unquote :: "string \<Rightarrow> string" where
  "unquote s =
     (case s of
        [] \<Rightarrow> []
      | c # cs \<Rightarrow>
          if c = CHR 0x5C then
            (case cs of
               [] \<Rightarrow> []
             | d # ds \<Rightarrow>
                 if d \<noteq> CHR ''u'' then unescape_byte d # unquote ds
                 else if surrogate (hex4 ds) then
                   (if low_surrogate (hex4 ds) (drop 4 ds) then
                      encode_rune (0x10000 + (hex4 ds - 0xD800) * 0x400 + (hex4 (drop 6 ds) - 0xDC00)) @
                      unquote (drop 10 ds)
                    else RuneError @ unquote (drop 4 ds))
                 else encode_rune (hex4 ds) @ unquote (drop 4 ds))
          else if byte c < 0x80 then c # unquote cs
          else if rune_len s = 0 then RuneError @ unquote cs
          else take (rune_len s) s @ unquote (drop (rune_len s) s))"
  by pat_completeness auto
termination by (relation "measure length") auto

declare quote.simps [simp del] unquote.simps [simp del]

text \<open>What a string is after a journey through JSON.\<close>

function ToValidUTF8 :: "string \<Rightarrow> string" where
  "ToValidUTF8 s =
     (case s of
        [] \<Rightarrow> []
      | c # cs \<Rightarrow>
          if rune_len s = 0 then RuneError @ ToValidUTF8 cs
          else take (rune_len s) s @ ToValidUTF8 (drop (rune_len s) s))"
  by pat_completeness auto
termination by (relation "measure length") auto

declare ToValidUTF8.simps [simp del]

definition valid_utf8 :: "string \<Rightarrow> bool" where
  "valid_utf8 s \<longleftrightarrow> ToValidUTF8 s = s"

lemma byte_in_take: "byte_in s i lo hi \<Longrightarrow> i < n \<Longrightarrow> byte_in (take n s @ q) i lo hi"
  by (auto simp: byte_in_def nth_append)

lemma byte_in_mono: "byte_in s i lo hi \<Longrightarrow> lo' \<le> lo \<Longrightarrow> hi \<le> hi' \<Longrightarrow> byte_in s i lo' hi'"
  by (auto simp: byte_in_def)

lemma byte_in_disjoint: "byte_in s i lo hi \<Longrightarrow> hi < lo' \<Longrightarrow> \<not> byte_in s i lo' hi'"
  by (simp add: byte_in_def)

text \<open>The ranges of the first and the following bytes.\<close>

lemma rune2D: "rune2 s \<Longrightarrow> byte_in s 0 0xC2 0xDF \<and> byte_in s 1 0x80 0xBF"
  by (simp add: rune2_def)

lemma rune3D: "rune3 s \<Longrightarrow> byte_in s 0 0xE0 0xEF \<and> byte_in s 1 0x80 0xBF \<and> byte_in s 2 0x80 0xBF"
  unfolding rune3_def by (elim conjE disjE) (simp_all add: byte_in_mono)

lemma rune4D: "rune4 s \<Longrightarrow> byte_in s 0 0xF0 0xF4 \<and> byte_in s 1 0x80 0xBF \<and> byte_in s 2 0x80 0xBF \<and>
    byte_in s 3 0x80 0xBF"
  unfolding rune4_def by (elim conjE disjE) (simp_all add: byte_in_mono)

lemma rune_take:
  "rune2 s \<Longrightarrow> rune2 (take 2 s @ q)" "rune3 s \<Longrightarrow> rune3 (take 3 s @ q)" "rune4 s \<Longrightarrow> rune4 (take 4 s @ q)"
  unfolding rune2_def rune3_def rune4_def by (elim conjE disjE; simp add: byte_in_take)+

lemma rune_len_eqs:
  "rune2 s \<Longrightarrow> rune_len s = 2" "rune3 s \<Longrightarrow> rune_len s = 3" "rune4 s \<Longrightarrow> rune_len s = 4"
  by (fastforce simp: rune_len_def byte_in_def dest: rune2D rune3D rune4D)+

lemma rune_len_cases:
  obtains (none) "rune_len s = 0" | (one) "rune_len s = 1" "byte_in s 0 0 0x7F"
  | (two) "rune2 s" | (three) "rune3 s" | (four) "rune4 s"
  unfolding rune_len_def by metis

lemma rune_len_take: "rune_len s \<noteq> 0 \<Longrightarrow> rune_len (take (rune_len s) s @ q) = rune_len s"
proof (cases rule: rune_len_cases [of s])
  case one
  then show ?thesis using byte_in_take [of s 0 0 "0x7F" 1 q] by (simp add: rune_len_def)
qed (simp_all add: rune_len_eqs rune_take)

lemma rune_len_le: "rune_len s \<le> length s"
  by (cases rule: rune_len_cases [of s])
    (auto simp: rune_len_eqs byte_in_def Suc_le_eq dest!: rune2D rune3D rune4D)

text \<open>The bytes of a longer rune are none of ASCII.\<close>

lemma rune_bytes:
  assumes "\<not> byte_in s 0 0 0x7F" and "c \<in> set (take (rune_len s) s)"
  shows "0x80 \<le> byte c"
proof -
  obtain i where i: "i < rune_len s" "i < length s" "c = s ! i"
    using assms(2) by (auto simp: in_set_conv_nth)
  show ?thesis
  proof (cases rule: rune_len_cases [of s])
    case two
    then have "i = 0 \<or> i = 1" using i by (auto simp: rune_len_eqs)
    with rune2D [OF two] i show ?thesis by (auto simp: byte_in_def)
  next
    case three
    then have "i = 0 \<or> i = 1 \<or> i = 2" using i by (auto simp: rune_len_eqs)
    with rune3D [OF three] i show ?thesis by (auto simp: byte_in_def)
  next
    case four
    then have "i = 0 \<or> i = 1 \<or> i = 2 \<or> i = 3" using i by (auto simp: rune_len_eqs)
    with rune4D [OF four] i show ?thesis by (auto simp: byte_in_def)
  qed (use assms i in auto)
qed

text \<open>One step of each of the functions.\<close>

lemma quote_Nil [simp]: "quote [] = []" by (simp add: quote.simps)
lemma unquote_Nil [simp]: "unquote [] = []" by (simp add: unquote.simps)
lemma ToValidUTF8_Nil [simp]: "ToValidUTF8 [] = []" by (simp add: ToValidUTF8.simps)

lemma unquote_rune:
  assumes "rune_len s \<noteq> 0" and "s = c # cs" and "c \<noteq> CHR 0x5C"
  shows "unquote (take (rune_len s) s @ q) = take (rune_len s) s @ unquote q"
proof -
  obtain n where n: "rune_len s = Suc n" using assms(1) by (cases "rune_len s") auto
  let ?z = "take (rune_len s) s @ q"
  have z: "?z = c # take n cs @ q" using n assms(2) by simp
  have l: "rune_len ?z = rune_len s" by (rule rune_len_take [OF assms(1)])
  have len: "rune_len s \<le> length s" by (rule rune_len_le)
  show ?thesis
  proof (cases "byte c < 0x80")
    case True
    then have "rune_len s = 1" using assms(2) by (simp add: rune_len_def byte_in_def)
    with True n assms(3) show ?thesis unfolding z by (subst unquote.simps) (simp add: assms(2))
  next
    case False
    have "unquote ?z = take (rune_len ?z) ?z @ unquote (drop (rune_len ?z) ?z)"
      using False assms(1,3) l unfolding z by (subst unquote.simps) (simp add: n)
    with l len show ?thesis by simp
  qed
qed

lemma quote_byte_cases:
  assumes "byte c < 0x80"
  obtains "quote_byte c = [c]" "c \<noteq> CHR 0x22" "c \<noteq> CHR 0x5C" "\<not> c < CHR 0x20"
  | d where "quote_byte c = [CHR 0x5C, d]" "simple_escape d" "unescape_byte d = c"
  | h where "quote_byte c = CHR 0x5C # CHR ''u'' # h" "length h = 4" "list_all hex_digit h" "hex4 h = byte c"
proof -
  let ?P = "\<lambda>c. (case quote_byte c of
      [x] \<Rightarrow> x = c \<and> c \<noteq> CHR 0x22 \<and> c \<noteq> CHR 0x5C \<and> \<not> c < CHR 0x20
    | [b, d] \<Rightarrow> b = CHR 0x5C \<and> simple_escape d \<and> unescape_byte d = c
    | b # u # h \<Rightarrow> b = CHR 0x5C \<and> u = CHR ''u'' \<and> length h = 4 \<and> list_all hex_digit h \<and> hex4 h = byte c
    | _ \<Rightarrow> False)"
  have "list_all ?P (map char_of [0..<128 :: nat])" by code_simp
  moreover have "c \<in> set (map char_of [0..<128 :: nat])"
    using assms by (auto intro!: image_eqI [of _ _ "byte c"])
  ultimately have "?P c" by (simp only: list_all_iff)
  with that show thesis by (auto split: list.splits)
qed

lemma hex4_digits:
  "hex4 ''2028'' = 0x2028" "hex4 ''2029'' = 0x2029" "hex4 ''fffd'' = 0xFFFD"
  by (simp_all add: hex4_def hex_value_def digit_char_def less_eq_char_def)

lemma hex4_append: "length h = 4 \<Longrightarrow> hex4 (h @ q) = hex4 h"
  by (simp add: hex4_def)

lemma unquote_escape: "d \<noteq> CHR ''u'' \<Longrightarrow> unquote (CHR 0x5C # d # ds) = unescape_byte d # unquote ds"
  by (subst unquote.simps) simp

lemma unquote_u:
  assumes "length h = 4" and "\<not> surrogate (hex4 h)"
  shows "unquote (CHR 0x5C # CHR ''u'' # h @ q) = encode_rune (hex4 h) @ unquote q"
  using assms by (subst unquote.simps) (simp add: hex4_append)

lemma unquote_quote_byte:
  assumes "byte c < 0x80" shows "unquote (quote_byte c @ q) = c # unquote q"
  using assms
proof (cases rule: quote_byte_cases)
  case 1
  with assms show ?thesis by (subst unquote.simps) simp
next
  case (2 d)
  then have "d \<noteq> CHR ''u''" by (auto simp: simple_escape_def)
  with 2 show ?thesis by (simp add: unquote_escape)
next
  case (3 h)
  with assms show ?thesis by (simp add: unquote_u surrogate_def encode_rune_def)
qed

text \<open>The scanner passes what \<open>quote\<close> writes.\<close>

definition scans_over :: "string \<Rightarrow> bool" where
  "scans_over p \<longleftrightarrow> (\<forall>z. scan_string (p @ z) = map_option (\<lambda>(r, q). (p @ r, q)) (scan_string z))"

lemma scans_over_Nil: "scans_over []"
  by (simp add: scans_over_def map_option_case split: option.split)

lemma scans_over_append: "scans_over p \<Longrightarrow> scans_over p' \<Longrightarrow> scans_over (p @ p')"
  by (auto simp: scans_over_def option.map_comp comp_def case_prod_unfold)

lemma scans_over_byte: "c \<noteq> CHR 0x22 \<Longrightarrow> c \<noteq> CHR 0x5C \<Longrightarrow> \<not> c < CHR 0x20 \<Longrightarrow> scans_over [c]"
  unfolding scans_over_def by (subst scan_string.simps) simp

lemma scans_over_bytes:
  "(\<And>c. c \<in> set p \<Longrightarrow> c \<noteq> CHR 0x22 \<and> c \<noteq> CHR 0x5C \<and> \<not> c < CHR 0x20) \<Longrightarrow> scans_over p"
proof (induction p)
  case (Cons c p)
  then have "scans_over ([c] @ p)" by (intro scans_over_append scans_over_byte) auto
  then show ?case by simp
qed (rule scans_over_Nil)

lemma scans_over_escape: "simple_escape d \<Longrightarrow> scans_over [CHR 0x5C, d]"
  unfolding scans_over_def by (subst scan_string.simps) (simp add: scan_escape_def)

lemma scans_over_u:
  assumes "length h = 4" and "list_all hex_digit h" shows "scans_over (CHR 0x5C # CHR ''u'' # h)"
proof -
  have "\<not> simple_escape CHR ''u''" by (simp add: simple_escape_def)
  with assms show ?thesis
    unfolding scans_over_def by (subst scan_string.simps) (simp add: scan_escape_def)
qed

lemma scans_over_quote_byte: "byte c < 0x80 \<Longrightarrow> scans_over (quote_byte c)"
  by (cases rule: quote_byte_cases [of c])
    (simp_all add: scans_over_byte scans_over_escape scans_over_u)

lemma not_ascii_byte: "\<not> byte c < 0x80 \<Longrightarrow> c \<noteq> CHR 0x22 \<and> c \<noteq> CHR 0x5C \<and> \<not> c < CHR 0x20"
  by (auto simp: less_char_def)

lemma quote_rune_cases:
  assumes "rune_len s \<noteq> 0" and "s = c # cs" and "\<not> byte c < 0x80"
  defines "r \<equiv> take (rune_len s) s"
  shows "scans_over (quote_rune r)" and "unquote (quote_rune r @ q) = r @ unquote q"
proof -
  have b: "\<not> byte_in s 0 0 0x7F" using assms(2,3) by (simp add: byte_in_def)
  have r: "scans_over r"
    by (rule scans_over_bytes)
      (use rune_bytes [OF b] not_ascii_byte in \<open>fastforce simp: r_def not_less\<close>)
  have u: "scans_over (CHR 0x5C # CHR ''u'' # ''2028'')" "scans_over (CHR 0x5C # CHR ''u'' # ''2029'')"
    by (rule scans_over_u; code_simp)+
  from r u show "scans_over (quote_rune r)" by (simp add: quote_rune_def)
  have h: "\<not> surrogate (hex4 ''2028'')" "\<not> surrogate (hex4 ''2029'')"
    "encode_rune (hex4 ''2028'') = [CHR 0xE2, CHR 0x80, CHR 0xA8]"
    "encode_rune (hex4 ''2029'') = [CHR 0xE2, CHR 0x80, CHR 0xA9]"
    by (simp_all add: hex4_digits surrogate_def encode_rune_def char_of_eq_iff)
  have l: "length ''2028'' = 4" "length ''2029'' = 4" by simp_all
  note v = unquote_u [OF l(1) h(1), of q, unfolded h(3)] unquote_u [OF l(2) h(2), of q, unfolded h(4)]
  have "unquote (r @ q) = r @ unquote q"
    unfolding r_def by (rule unquote_rune [OF assms(1,2)]) (use not_ascii_byte [OF assms(3)] in simp)
  with v show "unquote (quote_rune r @ q) = r @ unquote q" by (simp add: quote_rune_def)
qed

lemma rune_len_ascii: "rune_len (c # cs) = 1 \<longleftrightarrow> byte c < 0x80"
  by (cases rule: rune_len_cases [of "c # cs"]) (auto simp: rune_len_eqs rune_len_def byte_in_def)

text \<open>Quoting and unquoting a string gives it back, with every byte that is not UTF-8 replaced.\<close>

lemma quote_ok: "scans_over (quote s)" and unquote_quote: "unquote (quote s) = ToValidUTF8 s"
proof (induction s rule: quote.induct)
  case (1 s)
  have bad: "scans_over (CHR 0x5C # ''ufffd'')" by (rule scans_over_u; code_simp)
  have l: "length ''fffd'' = 4" "\<not> surrogate (hex4 ''fffd'')" "encode_rune (hex4 ''fffd'') = RuneError"
    by (simp_all add: hex4_digits surrogate_def encode_rune_def RuneError_def char_of_eq_iff)
  note bad' = unquote_u [OF l(1,2), unfolded l(3)]
  note IH = "1.IH"
  have ToV: "ToValidUTF8 (c # cs) = (if rune_len (c # cs) = 0 then RuneError @ ToValidUTF8 cs
      else take (rune_len (c # cs)) (c # cs) @ ToValidUTF8 (drop (rune_len (c # cs)) (c # cs)))" for c cs
    by (subst ToValidUTF8.simps) simp
  have eq: "quote (c # cs) = (if byte c < 0x80 then quote_byte c @ quote cs
      else if rune_len (c # cs) = 0 then CHR 0x5C # ''ufffd'' @ quote cs
      else quote_rune (take (rune_len (c # cs)) (c # cs)) @ quote (drop (rune_len (c # cs)) (c # cs)))" for c cs
    by (subst quote.simps) simp
  have both: "scans_over (quote s) \<and> unquote (quote s) = ToValidUTF8 s"
  proof (cases s)
    case Nil
    then show ?thesis by (simp add: scans_over_Nil)
  next
    case (Cons c cs)
    consider (ascii) "byte c < 0x80" | (none) "\<not> byte c < 0x80" "rune_len s = 0"
      | (rune) "\<not> byte c < 0x80" "rune_len s \<noteq> 0" by blast
    then show ?thesis
    proof cases
      case ascii
      then show ?thesis
        using IH(1,2) [OF Cons ascii] unquote_quote_byte [OF ascii]
          scans_over_append [OF scans_over_quote_byte [OF ascii]] rune_len_ascii [of c cs]
        by (simp add: Cons eq ToV)
    next
      case none
      then show ?thesis
        using IH(3,4) [OF Cons none] scans_over_append [OF bad, of "quote cs"] bad' [of "quote cs"]
        by (simp add: Cons eq ToV)
    next
      case rune
      then show ?thesis
        using IH(5,6) [OF Cons rune] quote_rune_cases [OF rune(2) Cons rune(1)]
          scans_over_append [of "quote_rune (take (rune_len s) s)" "quote (drop (rune_len s) s)"]
        by (simp add: Cons eq ToV)
    qed
  qed
  { case 1 from both show ?case by blast }
  { case 2 from both show ?case by blast }
qed

lemma string_ok_quote: "string_ok (quote s)"
  using quote_ok [of s] by (simp add: string_ok_def scans_over_def scan_string.simps [of "[CHR 0x22]"])

end
