(* ===== verification/JsonCodec.thy ===== *)
theory JsonCodec
  imports JsonString Json
begin

text \<open>
  Marshalling and unmarshalling as \<open>encoding/json\<close> does it by reflection, for the types the repository
  uses: what a field of a struct with a JSON tag writes, and what a decoder does to a value that is
  there already. A decoder goes on after a value of the wrong type and reports it in the end.
\<close>

section \<open>Encoding\<close>

definition enc_string :: "string \<Rightarrow> jtree" where
  "enc_string s = JtStr (quote s)"

definition enc_int :: "int \<Rightarrow> jtree" where
  "enc_int i = JtLit (fmt_d i)"

definition enc_bool :: "bool \<Rightarrow> jtree" where
  "enc_bool b = JtLit (if b then ''true'' else ''false'')"

definition enc_null :: jtree where
  "enc_null = JtLit ''null''"

definition enc_list :: "('a \<Rightarrow> jtree) \<Rightarrow> 'a list \<Rightarrow> jtree" where
  "enc_list enc xs = JtArr (map enc xs)"

text \<open>A Go map is written with its keys sorted.\<close>

definition enc_map :: "('a \<Rightarrow> jtree) \<Rightarrow> (string \<times> 'a) list \<Rightarrow> jtree" where
  "enc_map enc m = JtObj (map (\<lambda>(k, v). (quote k, enc v)) (sort_key fst m))"

text \<open>A struct: its fields by tag, \<open>None\<close> for one left out by \<open>omitempty\<close>.\<close>

definition enc_struct :: "(string \<times> jtree option) list \<Rightarrow> jtree" where
  "enc_struct fs = JtObj (List.map_filter (\<lambda>(k, t). map_option (Pair (quote k)) t) fs)"

definition omitempty :: "bool \<Rightarrow> jtree \<Rightarrow> jtree option" where
  "omitempty unset t = (if unset then None else Some t)"

section \<open>Decoding\<close>

type_synonym 'a dec = "jtree \<Rightarrow> 'a \<Rightarrow> 'a \<times> bool"

abbreviation is_null :: "jtree \<Rightarrow> bool" where
  "is_null t \<equiv> t = JtLit ''null''"

definition dec_string :: "string dec" where
  "dec_string t old = (case t of JtStr r \<Rightarrow> (unquote r, False) | _ \<Rightarrow> (old, \<not> is_null t))"

definition parse_int64 :: "string \<Rightarrow> int option" where
  "parse_int64 s =
     (let neg = HasPrefix s ''-''; ds = (if neg then tl s else s);
          v = (if neg then - int (dec_value ds) else int (dec_value ds)) in
      if ds \<noteq> [] \<and> list_all digit_char ds \<and> - (2 ^ 63) \<le> v \<and> v < 2 ^ 63 then Some v else None)"

definition dec_int :: "int dec" where
  "dec_int t old =
     (if is_null t then (old, False)
      else (case t of
          JtLit l \<Rightarrow> (case parse_int64 l of None \<Rightarrow> (old, True) | Some i \<Rightarrow> (i, False))
        | _ \<Rightarrow> (old, True)))"

definition dec_bool :: "bool dec" where
  "dec_bool t old =
     (if t = enc_bool True then (True, False) else if t = enc_bool False then (False, False)
      else (old, \<not> is_null t))"

text \<open>The elements of a slice start from the zero value.\<close>

definition dec_list :: "'a \<Rightarrow> 'a dec \<Rightarrow> 'a list dec" where
  "dec_list zero d t old =
     (if is_null t then ([], False)
      else (case t of
          JtArr ts \<Rightarrow> (map (\<lambda>t. fst (d t zero)) ts, list_ex (\<lambda>t. snd (d t zero)) ts)
        | _ \<Rightarrow> (old, True)))"

text \<open>A pointer is allocated when it is needed.\<close>

definition dec_pointer :: "'a \<Rightarrow> 'a dec \<Rightarrow> 'a option dec" where
  "dec_pointer zero d t old =
     (if is_null t then (None, False)
      else (case d t (case old of None \<Rightarrow> zero | Some v \<Rightarrow> v) of (v, e) \<Rightarrow> (Some v, e)))"

text \<open>The entries of an object are added to the map that is there.\<close>

definition dec_map :: "'a \<Rightarrow> 'a dec \<Rightarrow> (string \<times> 'a) list dec" where
  "dec_map zero d t old =
     (if is_null t then ([], False)
      else (case t of
          JtObj kvs \<Rightarrow> fold (\<lambda>(k, v) (m, e). (AList.update (unquote k) (fst (d v zero)) m, e \<or> snd (d v zero)))
            kvs (old, False)
        | _ \<Rightarrow> (old, True)))"

text \<open>A \<open>json.RawMessage\<close> is the text of the value, whatever it is.\<close>

definition dec_raw :: "string dec" where
  "dec_raw t old = (tree_text t, False)"

text \<open>
  The field of a struct for a key is the one whose tag equals it up to the case of letters (the
  Kelvin sign folds to K and the long s to S).
\<close>

function fold_name :: "string \<Rightarrow> string" where
  "fold_name s =
     (case s of
        [] \<Rightarrow> []
      | c # cs \<Rightarrow>
          if take 3 s = [CHR 0xE2, CHR 0x84, CHR 0xAA] then CHR ''K'' # fold_name (drop 3 s)
          else if take 2 s = [CHR 0xC5, CHR 0xBF] then CHR ''S'' # fold_name (drop 2 s)
          else upper_char c # fold_name cs)"
  by pat_completeness auto
termination by (relation "measure length") auto

declare fold_name.simps [simp del]

definition dec_struct :: "(string \<times> 'a dec) list \<Rightarrow> 'a dec" where
  "dec_struct fs t old =
     (if is_null t then (old, False)
      else (case t of
          JtObj kvs \<Rightarrow>
            fold (\<lambda>(k, v) (a, e).
                (case find (\<lambda>f. fold_name (fst f) = fold_name (unquote k)) fs of
                   None \<Rightarrow> (a, e)
                 | Some f \<Rightarrow> (case snd f v a of (a', e') \<Rightarrow> (a', e \<or> e'))))
              kvs (old, False)
        | _ \<Rightarrow> (old, True)))"

text \<open>A field: how it is read, how it is set.\<close>

definition dec_field :: "('a \<Rightarrow> 'b) \<Rightarrow> (('b \<Rightarrow> 'b) \<Rightarrow> 'a \<Rightarrow> 'a) \<Rightarrow> 'b dec \<Rightarrow> 'a dec" where
  "dec_field get upd d t a = (case d t (get a) of (b, e) \<Rightarrow> (upd (\<lambda>_. b) a, e))"

section \<open>Texts\<close>

text \<open>The texts of the errors, as functions of the input: of \<open>Unmarshal\<close>, of a stream's decoder, and of
  a value of the wrong type.\<close>

record json_errors =
  je_syntax :: "string \<Rightarrow> string"
  je_stream :: "string \<Rightarrow> string"
  je_type :: "string \<Rightarrow> string"

definition Marshal :: "jtree \<Rightarrow> string" where
  "Marshal t = tree_text t"

definition decoded :: "string \<Rightarrow> string \<Rightarrow> 'a dec \<Rightarrow> 'a \<Rightarrow> jtree option \<Rightarrow> error + 'a" where
  "decoded syntax_error type_error d zero t =
     (case t of
        None \<Rightarrow> Inl (Errorf syntax_error)
      | Some t \<Rightarrow> (case d t zero of (a, e) \<Rightarrow> if e then Inl (Errorf type_error) else Inr a))"

definition Unmarshal :: "json_errors \<Rightarrow> 'a dec \<Rightarrow> 'a \<Rightarrow> string \<Rightarrow> error + 'a" where
  "Unmarshal je d zero s = decoded (je_syntax je s) (je_type je s) d zero (parse_tree s)"

text \<open>\<open>json.NewDecoder(r).Decode\<close>: the first value of the input.\<close>

definition Decode :: "json_errors \<Rightarrow> 'a dec \<Rightarrow> 'a \<Rightarrow> string \<Rightarrow> error + 'a" where
  "Decode je d zero s = decoded (je_stream je s) (je_type je s) d zero (read_tree s)"

section \<open>What the encoders write can be read\<close>

definition good :: "nat \<Rightarrow> jtree \<Rightarrow> bool" where
  "good d t \<longleftrightarrow> wf_tree t \<and> depth t \<le> d"

named_theorems good_intros \<open>well-formedness of what the encoders write\<close>

lemma good_mono: "good d t \<Longrightarrow> d \<le> d' \<Longrightarrow> good d' t"
  by (simp add: good_def)

lemma good_string [good_intros]: "good d (enc_string s)"
  by (simp add: good_def enc_string_def string_ok_quote)

lemma good_bool [good_intros]: "good d (enc_bool b)"
  by (simp add: good_def enc_bool_def literal_ok_iff)

lemma good_null [good_intros]: "good d enc_null"
  by (simp add: good_def enc_null_def literal_ok_iff)

lemma good_Arr: "good (Suc d) (JtArr ts) \<longleftrightarrow> list_all (good d) ts"
  using depth_Arr [of ts d] by (auto simp: good_def list_all_iff)

lemma good_Obj: "good (Suc d) (JtObj kvs) \<longleftrightarrow> list_all (\<lambda>(k, t). string_ok k \<and> good d t) kvs"
  using depth_Obj [of kvs d] by (auto simp: good_def list_all_iff)

lemma good_list [good_intros]: "(\<And>x. x \<in> set xs \<Longrightarrow> good d (enc x)) \<Longrightarrow> good (Suc d) (enc_list enc xs)"
  by (simp add: enc_list_def good_Arr list_all_iff)

lemma good_map [good_intros]: "(\<And>k x. (k, x) \<in> set m \<Longrightarrow> good d (enc x)) \<Longrightarrow> good (Suc d) (enc_map enc m)"
  by (auto simp: enc_map_def good_Obj list_all_iff string_ok_quote)

lemma good_struct [good_intros]:
  "(\<And>k t. (k, Some t) \<in> set fs \<Longrightarrow> good d t) \<Longrightarrow> good (Suc d) (enc_struct fs)"
  by (auto simp: enc_struct_def good_Obj list_all_iff map_filter_def string_ok_quote)

text \<open>Integers.\<close>

lemma dec_rec: "10 \<le> n \<Longrightarrow> dec n = dec (n div 10) @ [digit (n mod 10)]"
  by (subst dec.simps) simp

lemma hd_dec: "0 < n \<Longrightarrow> hd (dec n) \<noteq> CHR ''0''"
proof (induction n rule: dec.induct)
  case (1 n)
  show ?case
  proof (cases "n < 10")
    case True
    then have "digit_value (digit n) = n" by (rule digit_value_digit)
    moreover have "digit_value CHR ''0'' = 0" by (simp add: digit_value_def)
    ultimately have "digit n \<noteq> CHR ''0''" using "1.prems" by auto
    with True show ?thesis by (simp add: dec.simps)
  next
    case False
    then have "0 < n div 10" by auto
    with "1.IH" [OF False] False show ?thesis by (simp add: dec_rec)
  qed
qed

lemma dec_all_digits: "list_all digit_char (dec n)"
  using dec_digits by (auto simp: list_all_iff)

lemma scan_int_dec: "scan_int (dec n) = Some (dec n, [])"
proof (cases "n = 0")
  case True
  moreover have "dec 0 = ''0''" by code_simp
  ultimately show ?thesis by (simp add: scan_int_def)
next
  case False
  then have "hd (dec n) \<noteq> CHR ''0''" using hd_dec by simp
  moreover have "takeWhile digit_char (dec n) = dec n" "dropWhile digit_char (dec n) = []"
    using dec_all_digits [of n] by (simp_all add: list_all_iff)
  ultimately show ?thesis
    using dec_not_Nil [of n] by (cases "dec n") (auto simp: scan_int_def scan_digits_def)
qed

lemma hd_dec_digit: "digit_char (hd (dec n))"
  using dec_all_digits [of n] dec_not_Nil [of n] by (cases "dec n") auto

lemma literal_ok_int: "literal_ok (fmt_d i)"
proof -
  have "hd (dec n) \<noteq> CHR ''-''" for n using hd_dec_digit [of n] by (auto simp: digit_char_def)
  then have "scan_sign (dec n) = Some ([], dec n)" for n
    using dec_not_Nil [of n] by (cases "dec n") (auto simp: scan_sign_def, metis list.sel(1))
  moreover have "scan_then scan_int (scan_then scan_frac scan_exp) (dec n) = Some (dec n, [])" for n
    by (simp add: scan_then_def scan_int_dec scan_frac_def scan_exp_def)
  moreover have "scan_sign (CHR ''-'' # s) = Some (''-'', s)" for s by (simp add: scan_sign_def)
  ultimately show ?thesis
    by (simp add: literal_ok_iff scan_number_def fmt_d_def scan_then_def [of scan_sign])
qed

lemma good_int [good_intros]: "good d (enc_int i)"
  by (simp add: good_def enc_int_def literal_ok_int)

definition int64 :: "int \<Rightarrow> bool" where
  "int64 i \<longleftrightarrow> - (2 ^ 63) \<le> i \<and> i < 2 ^ 63"

lemma parse_int64_fmt: "int64 i \<Longrightarrow> parse_int64 (fmt_d i) = Some i"
proof -
  have "\<not> HasPrefix (dec n) ''-''" for n
    using hd_dec_digit [of n] by (cases "dec n") (auto simp: HasPrefix_def digit_char_def)
  then show "int64 i \<Longrightarrow> ?thesis"
    by (auto simp: parse_int64_def fmt_d_def Let_def int64_def dec_value_dec dec_all_digits HasPrefix_def)
qed

section \<open>Round trips\<close>

named_theorems dec_enc \<open>decoding what the encoder of the same type wrote\<close>

lemma dec_enc_string [dec_enc]: "valid_utf8 s \<Longrightarrow> dec_string (enc_string s) old = (s, False)"
  by (simp add: dec_string_def enc_string_def unquote_quote valid_utf8_def)

lemma enc_int_not_null: "\<not> is_null (enc_int i)"
proof -
  have "fmt_d i \<noteq> ''null''"
    using hd_dec_digit [of "nat i"] by (auto simp: fmt_d_def digit_char_def)
  then show ?thesis by (simp add: enc_int_def)
qed

lemma dec_enc_int [dec_enc]: "int64 i \<Longrightarrow> dec_int (enc_int i) old = (i, False)"
  using enc_int_not_null [of i] by (simp add: dec_int_def enc_int_def parse_int64_fmt)

lemma dec_enc_bool [dec_enc]: "dec_bool (enc_bool b) old = (b, False)"
  by (cases b) (simp_all add: dec_bool_def enc_bool_def)

lemma dec_enc_list [dec_enc]:
  "(\<And>x. x \<in> set xs \<Longrightarrow> d (enc x) zero = (f x, False)) \<Longrightarrow>
     dec_list zero d (enc_list enc xs) old = (map f xs, False)"
  by (auto simp: dec_list_def enc_list_def list_ex_iff)

lemma dec_enc_pointer [dec_enc]:
  "\<not> is_null (enc x) \<Longrightarrow> d (enc x) zero = (y, False) \<Longrightarrow>
     dec_pointer zero d (enc x) None = (Some y, False)"
  by (simp add: dec_pointer_def)

lemma valid_keys_fold:
  assumes "distinct (map fst kvs)" and "set (map fst kvs) \<inter> fst ` set m = {}"
    and "\<And>k v. (k, v) \<in> set kvs \<Longrightarrow> valid_utf8 k \<and> d (enc v) zero = (f v, False)"
  shows "fold (\<lambda>(k, v) (m, e). (AList.update (unquote k) (fst (d v zero)) m, e \<or> snd (d v zero)))
      (map (\<lambda>(k, v). (quote k, enc v)) kvs) (m, e) = (m @ map (\<lambda>(k, v). (k, f v)) kvs, e)"
  using assms
proof (induction kvs arbitrary: m)
  case (Cons kv kvs)
  obtain k v where kv: "kv = (k, v)" by (cases kv)
  have k: "unquote (quote k) = k" "d (enc v) zero = (f v, False)"
    using Cons.prems(3) [of k v] by (simp_all add: kv unquote_quote valid_utf8_def)
  have "AList.update k (f v) m = m @ [(k, f v)]"
    using Cons.prems(2) by (intro update_new) (auto simp: kv)
  moreover have "set (map fst kvs) \<inter> fst ` set (m @ [(k, f v)]) = {}"
    using Cons.prems(1,2) by (auto simp: kv)
  ultimately have "fold (\<lambda>(k, v) (m, e). (AList.update (unquote k) (fst (d v zero)) m, e \<or> snd (d v zero)))
      (map (\<lambda>(k, v). (quote k, enc v)) kvs) (m @ [(k, f v)], e) =
      ((m @ [(k, f v)]) @ map (\<lambda>(k, v). (k, f v)) kvs, e)"
    by (intro Cons.IH) (use Cons.prems(1,3) in auto)
  with k \<open>AList.update k (f v) m = _\<close> show ?case by (simp add: kv)
qed simp

lemma dec_enc_map [dec_enc]:
  assumes "wf_map m" and "\<And>k v. (k, v) \<in> set m \<Longrightarrow> valid_utf8 k \<and> d (enc v) zero = (f v, False)"
  shows "dec_map zero d (enc_map enc m) [] = (map (\<lambda>(k, v). (k, f v)) (sort_key fst m), False)"
proof -
  have "distinct (map fst (sort_key fst m))"
    using assms(1) by (simp add: wf_map_def distinct_map)
  then show ?thesis
    using valid_keys_fold [of "sort_key fst m" "[]" d enc zero f False] assms(2)
    by (simp add: dec_map_def enc_map_def)
qed

text \<open>Decoding a struct, field by field.\<close>

definition dec_member :: "(string \<times> 'a dec) list \<Rightarrow> string \<Rightarrow> jtree \<Rightarrow> 'a \<times> bool \<Rightarrow> 'a \<times> bool" where
  "dec_member fs k t ae =
     (case find (\<lambda>f. fold_name (fst f) = fold_name k) fs of
        None \<Rightarrow> ae
      | Some f \<Rightarrow> (case snd f t (fst ae) of (a', e') \<Rightarrow> (a', snd ae \<or> e')))"

primrec dec_members :: "(string \<times> 'a dec) list \<Rightarrow> (string \<times> jtree option) list \<Rightarrow> 'a \<times> bool \<Rightarrow> 'a \<times> bool" where
  "dec_members fs [] ae = ae"
| "dec_members fs (m # ms) ae = dec_members fs ms
     (case snd m of None \<Rightarrow> ae | Some t \<Rightarrow> dec_member fs (fst m) t ae)"

lemma dec_struct_members:
  assumes "list_all valid_utf8 (map fst ms)"
  shows "dec_struct fs (enc_struct ms) a = dec_members fs ms (a, False)"
proof -
  have "fold (\<lambda>(k, v) (a, e).
      (case find (\<lambda>f. fold_name (fst f) = fold_name (unquote k)) fs of
         None \<Rightarrow> (a, e)
       | Some f \<Rightarrow> (case snd f v a of (a', e') \<Rightarrow> (a', e \<or> e'))))
      (List.map_filter (\<lambda>(k, t). map_option (Pair (quote k)) t) ms) ae = dec_members fs ms ae" for ae
    using assms
  proof (induction ms arbitrary: ae)
    case (Cons m ms)
    obtain k t where m: "m = (k, t)" by (cases m)
    have k: "unquote (quote k) = k" using Cons.prems by (simp add: m unquote_quote valid_utf8_def)
    show ?case
      using Cons k by (cases t; cases ae) (simp_all add: m dec_member_def split: option.split)
  qed simp
  then show ?thesis by (simp add: dec_struct_def enc_struct_def)
qed

lemma ascii_valid: "ascii s \<Longrightarrow> valid_utf8 s"
proof -
  have "ascii s \<Longrightarrow> ToValidUTF8 s = s"
  proof (induction s)
    case (Cons c cs)
    then have c: "byte c < 0x80" "ascii cs" by (auto simp: ascii_iff_of_char)
    then have "rune_len (c # cs) = 1" by (simp only: rune_len_ascii)
    with Cons c show ?case by (simp add: ToValidUTF8.simps [of "c # cs"])
  qed simp
  then show "ascii s \<Longrightarrow> ?thesis" by (simp add: valid_utf8_def)
qed

text \<open>Any text that was marshalled can be unmarshalled, alone, as a line or in a stream.\<close>

lemma Unmarshal_Marshal:
  assumes "good maxNestingDepth t" and "d t zero = (a, False)"
  shows "Unmarshal je d zero (Marshal t) = Inr a"
    and "Unmarshal je d zero (Marshal t @ [CHR 0x0A]) = Inr a"
    and "stops r \<Longrightarrow> Decode je d zero (Marshal t @ r) = Inr a"
  using assms parse_tree_text [of t]
  by (simp_all add: good_def Unmarshal_def Decode_def decoded_def Marshal_def)

text \<open>Errors whose texts do not depend on the input, for the witnesses.\<close>

definition demo_errors :: json_errors where
  "demo_errors = \<lparr> je_syntax = (\<lambda>s. ''syntax''), je_stream = (\<lambda>s. ''stream''), je_type = (\<lambda>s. ''type'') \<rparr>"

lemma Marshal_printed: "good d t \<Longrightarrow> printed (Marshal t)"
  by (simp add: good_def Marshal_def printed_tree)

end
