(* ===== verification/WireJson.thy ===== *)
theory WireJson
  imports Server JsonCodec
begin

text \<open>
  The JSON form of the wire types of \<open>pkg/manifest/types.go\<close>, by their struct tags: what a client and a
  server write for each of them and what they read. With it the decoders that the handlers of
  theory Server take as an argument, and the bytes of a response body, are those of the code. (A nil
  map or slice, which Go writes as null, is written here as an empty one; both are read as no entries.)
\<close>

section \<open>Encoding by tag\<close>

definition enc_constraints :: "constraints \<Rightarrow> jtree" where
  "enc_constraints c = enc_struct
     [(''max_tokens'', omitempty (c_max_tokens c = 0) (enc_int (c_max_tokens c))),
      (''timeout'', omitempty (c_timeout c = []) (enc_string (c_timeout c))),
      (''output_format'', omitempty (c_output_format c = []) (enc_string (c_output_format c)))]"

definition enc_request :: "context_request \<Rightarrow> jtree" where
  "enc_request r = enc_struct
     [(''intent'', Some (enc_string (rq_intent r))),
      (''agent_id'', Some (enc_string (rq_agent_id r))),
      (''capabilities'', omitempty (rq_capabilities r = []) (enc_list enc_string (rq_capabilities r))),
      (''constraints'', map_option enc_constraints (rq_constraints r))]"

definition enc_action :: "action \<Rightarrow> jtree" where
  "enc_action a = enc_struct
     [(''id'', Some (enc_string (a_id a))),
      (''type'', Some (enc_string (a_type a))),
      (''endpoint'', Some (enc_string (a_endpoint a))),
      (''method'', omitempty (a_method a = []) (enc_string (a_method a))),
      (''schema'', Some (enc_map enc_string (a_schema a))),
      (''auth'', Some (enc_string (a_auth a))),
      (''timeout'', omitempty (a_timeout a = []) (enc_string (a_timeout a))),
      (''depends_on'', omitempty (a_depends_on a = []) (enc_list enc_string (a_depends_on a)))]"

definition enc_boundary :: "boundary \<Rightarrow> jtree" where
  "enc_boundary b = enc_struct
     [(''egress'', Some (enc_list enc_string (b_egress b))),
      (''max_tokens_per_action'', Some (enc_int (b_max_tokens_per_action b))),
      (''require_approval'', omitempty (b_require_approval b = []) (enc_list enc_string (b_require_approval b))),
      (''audit_level'', Some (enc_string (b_audit_level b)))]"

definition enc_manifest :: "exec_manifest \<Rightarrow> jtree" where
  "enc_manifest m = enc_struct
     [(''manifest_id'', Some (enc_string (m_id m))),
      (''version'', Some (enc_string (m_version m))),
      (''ttl'', Some (enc_string (m_ttl m))),
      (''actions'', Some (enc_list enc_action (m_actions m))),
      (''boundaries'', Some (enc_boundary (m_boundaries m))),
      (''feedback_endpoint'', Some (enc_string (m_feedback_endpoint m)))]"

definition enc_event :: "feedback_event \<Rightarrow> jtree" where
  "enc_event e = enc_struct
     [(''manifest_id'', Some (enc_string (f_manifest_id e))),
      (''action_id'', Some (enc_string (f_action_id e))),
      (''outcome'', Some (enc_string (f_outcome e))),
      (''latency_ms'', omitempty (f_latency_ms e = 0) (enc_int (f_latency_ms e))),
      (''tokens_in'', omitempty (f_tokens_in e = 0) (enc_int (f_tokens_in e))),
      (''tokens_out'', omitempty (f_tokens_out e = 0) (enc_int (f_tokens_out e))),
      (''error'', omitempty (f_error e = []) (enc_string (f_error e)))]"

definition enc_error_response :: "string \<Rightarrow> jtree" where
  "enc_error_response msg = enc_struct [(''error'', Some (enc_string msg))]"

definition enc_status :: "string \<Rightarrow> jtree" where
  "enc_status s = enc_map enc_string [(''status'', s)]"

section \<open>Decoding by tag\<close>

definition zero_constraints :: constraints where
  "zero_constraints = \<lparr> c_max_tokens = 0, c_timeout = [], c_output_format = [] \<rparr>"

definition dec_constraints :: "constraints dec" where
  "dec_constraints = dec_struct
     [(''max_tokens'', dec_field c_max_tokens c_max_tokens_update dec_int),
      (''timeout'', dec_field c_timeout c_timeout_update dec_string),
      (''output_format'', dec_field c_output_format c_output_format_update dec_string)]"

definition zero_request :: context_request where
  "zero_request = \<lparr> rq_intent = [], rq_agent_id = [], rq_capabilities = [], rq_constraints = None \<rparr>"

definition dec_request :: "context_request dec" where
  "dec_request = dec_struct
     [(''intent'', dec_field rq_intent rq_intent_update dec_string),
      (''agent_id'', dec_field rq_agent_id rq_agent_id_update dec_string),
      (''capabilities'', dec_field rq_capabilities rq_capabilities_update (dec_list [] dec_string)),
      (''constraints'', dec_field rq_constraints rq_constraints_update
         (dec_pointer zero_constraints dec_constraints))]"

definition zero_action :: action where
  "zero_action = \<lparr> a_id = [], a_type = [], a_endpoint = [], a_method = [], a_schema = [], a_auth = [],
     a_timeout = [], a_depends_on = [] \<rparr>"

definition dec_action :: "action dec" where
  "dec_action = dec_struct
     [(''id'', dec_field a_id a_id_update dec_string),
      (''type'', dec_field a_type a_type_update dec_string),
      (''endpoint'', dec_field a_endpoint a_endpoint_update dec_string),
      (''method'', dec_field a_method a_method_update dec_string),
      (''schema'', dec_field a_schema a_schema_update (dec_map [] dec_string)),
      (''auth'', dec_field a_auth a_auth_update dec_string),
      (''timeout'', dec_field a_timeout a_timeout_update dec_string),
      (''depends_on'', dec_field a_depends_on a_depends_on_update (dec_list [] dec_string))]"

definition zero_boundary :: boundary where
  "zero_boundary = \<lparr> b_egress = [], b_max_tokens_per_action = 0, b_require_approval = [], b_audit_level = [] \<rparr>"

definition dec_boundary :: "boundary dec" where
  "dec_boundary = dec_struct
     [(''egress'', dec_field b_egress b_egress_update (dec_list [] dec_string)),
      (''max_tokens_per_action'', dec_field b_max_tokens_per_action b_max_tokens_per_action_update dec_int),
      (''require_approval'', dec_field b_require_approval b_require_approval_update (dec_list [] dec_string)),
      (''audit_level'', dec_field b_audit_level b_audit_level_update dec_string)]"

definition zero_manifest :: exec_manifest where
  "zero_manifest = \<lparr> m_id = [], m_version = [], m_ttl = [], m_actions = [], m_boundaries = zero_boundary,
     m_feedback_endpoint = [] \<rparr>"

definition dec_manifest :: "exec_manifest dec" where
  "dec_manifest = dec_struct
     [(''manifest_id'', dec_field m_id m_id_update dec_string),
      (''version'', dec_field m_version m_version_update dec_string),
      (''ttl'', dec_field m_ttl m_ttl_update dec_string),
      (''actions'', dec_field m_actions m_actions_update (dec_list zero_action dec_action)),
      (''boundaries'', dec_field m_boundaries m_boundaries_update dec_boundary),
      (''feedback_endpoint'', dec_field m_feedback_endpoint m_feedback_endpoint_update dec_string)]"

definition zero_event :: feedback_event where
  "zero_event = \<lparr> f_manifest_id = [], f_action_id = [], f_outcome = [], f_latency_ms = 0, f_tokens_in = 0,
     f_tokens_out = 0, f_error = [] \<rparr>"

definition dec_event :: "feedback_event dec" where
  "dec_event = dec_struct
     [(''manifest_id'', dec_field f_manifest_id f_manifest_id_update dec_string),
      (''action_id'', dec_field f_action_id f_action_id_update dec_string),
      (''outcome'', dec_field f_outcome f_outcome_update dec_string),
      (''latency_ms'', dec_field f_latency_ms f_latency_ms_update dec_int),
      (''tokens_in'', dec_field f_tokens_in f_tokens_in_update dec_int),
      (''tokens_out'', dec_field f_tokens_out f_tokens_out_update dec_int),
      (''error'', dec_field f_error f_error_update dec_string)]"

definition dec_error_response :: "string dec" where
  "dec_error_response = dec_struct [(''error'', dec_field id id dec_string)]"

section \<open>The handlers' codec\<close>

text \<open>\<open>json.NewDecoder(r.Body).Decode\<close> into a fresh value.\<close>

definition json_codec :: "json_errors \<Rightarrow> codec" where
  "json_codec je = \<lparr> decode_context = Decode je dec_request zero_request,
     decode_feedback = Decode je dec_event zero_event \<rparr>"

text \<open>\<open>writeJSON\<close>: \<open>Encode\<close> ends the value with a newline.\<close>

definition body_text :: "body \<Rightarrow> string" where
  "body_text b =
     (case b of
        ErrorJson msg \<Rightarrow> Marshal (enc_error_response msg) @ [CHR 0x0A]
      | StatusJson s \<Rightarrow> Marshal (enc_status s) @ [CHR 0x0A]
      | ManifestJson m \<Rightarrow> Marshal (enc_manifest m) @ [CHR 0x0A]
      | Bytes s \<Rightarrow> s)"

section \<open>Round trips\<close>

text \<open>The tags as the decoder compares them.\<close>

lemma folded_tags:
  "fold_name ''max_tokens'' = ''MAX_TOKENS''" "fold_name ''timeout'' = ''TIMEOUT''"
  "fold_name ''output_format'' = ''OUTPUT_FORMAT''" "fold_name ''intent'' = ''INTENT''"
  "fold_name ''agent_id'' = ''AGENT_ID''" "fold_name ''capabilities'' = ''CAPABILITIES''"
  "fold_name ''constraints'' = ''CONSTRAINTS''" "fold_name ''id'' = ''ID''" "fold_name ''type'' = ''TYPE''"
  "fold_name ''endpoint'' = ''ENDPOINT''" "fold_name ''method'' = ''METHOD''" "fold_name ''schema'' = ''SCHEMA''"
  "fold_name ''auth'' = ''AUTH''" "fold_name ''depends_on'' = ''DEPENDS_ON''"
  "fold_name ''egress'' = ''EGRESS''" "fold_name ''max_tokens_per_action'' = ''MAX_TOKENS_PER_ACTION''"
  "fold_name ''require_approval'' = ''REQUIRE_APPROVAL''" "fold_name ''audit_level'' = ''AUDIT_LEVEL''"
  "fold_name ''manifest_id'' = ''MANIFEST_ID''" "fold_name ''version'' = ''VERSION''"
  "fold_name ''ttl'' = ''TTL''" "fold_name ''actions'' = ''ACTIONS''" "fold_name ''boundaries'' = ''BOUNDARIES''"
  "fold_name ''feedback_endpoint'' = ''FEEDBACK_ENDPOINT''" "fold_name ''action_id'' = ''ACTION_ID''"
  "fold_name ''outcome'' = ''OUTCOME''" "fold_name ''latency_ms'' = ''LATENCY_MS''"
  "fold_name ''tokens_in'' = ''TOKENS_IN''" "fold_name ''tokens_out'' = ''TOKENS_OUT''"
  "fold_name ''error'' = ''ERROR''"
  by code_simp+

lemma constraints_roundtrip [dec_enc]:
  assumes "int64 (c_max_tokens c)" and "valid_utf8 (c_timeout c)" and "valid_utf8 (c_output_format c)"
  shows "dec_constraints (enc_constraints c) zero_constraints = (c, False)"
proof -
  have "list_all valid_utf8 [''max_tokens'', ''timeout'', ''output_format'']"
    by (simp, intro conjI ascii_valid; code_simp)
  then show ?thesis
    using assms unfolding dec_constraints_def enc_constraints_def
    by (subst dec_struct_members)
      (simp_all add: dec_member_def folded_tags dec_field_def dec_enc omitempty_def zero_constraints_def)
qed

lemma valid_tags:
  "list_all valid_utf8 [''max_tokens'', ''timeout'', ''output_format'', ''intent'', ''agent_id'', ''capabilities'',
     ''constraints'', ''id'', ''type'', ''endpoint'', ''method'', ''schema'', ''auth'', ''depends_on'', ''egress'',
     ''max_tokens_per_action'', ''require_approval'', ''audit_level'', ''manifest_id'', ''version'', ''ttl'',
     ''actions'', ''boundaries'', ''feedback_endpoint'', ''action_id'', ''outcome'', ''latency_ms'', ''tokens_in'',
     ''tokens_out'', ''error'', ''status'']"
proof -
  have "list_all ascii [''max_tokens'', ''timeout'', ''output_format'', ''intent'', ''agent_id'', ''capabilities'',
     ''constraints'', ''id'', ''type'', ''endpoint'', ''method'', ''schema'', ''auth'', ''depends_on'', ''egress'',
     ''max_tokens_per_action'', ''require_approval'', ''audit_level'', ''manifest_id'', ''version'', ''ttl'',
     ''actions'', ''boundaries'', ''feedback_endpoint'', ''action_id'', ''outcome'', ''latency_ms'', ''tokens_in'',
     ''tokens_out'', ''error'', ''status'']"
    by code_simp
  then show ?thesis by (rule list.pred_mono_strong) (rule ascii_valid)
qed

lemmas tag_facts = folded_tags valid_tags [simplified]

text \<open>What may travel: strings of UTF-8, integers of 64 bits, maps with distinct keys.\<close>

definition valid_constraints :: "constraints \<Rightarrow> bool" where
  "valid_constraints c \<longleftrightarrow> int64 (c_max_tokens c) \<and> valid_utf8 (c_timeout c) \<and> valid_utf8 (c_output_format c)"

definition valid_request :: "context_request \<Rightarrow> bool" where
  "valid_request r \<longleftrightarrow> valid_utf8 (rq_intent r) \<and> valid_utf8 (rq_agent_id r) \<and>
     list_all valid_utf8 (rq_capabilities r) \<and> pred_option valid_constraints (rq_constraints r)"

definition valid_map :: "(string \<times> string) list \<Rightarrow> bool" where
  "valid_map m \<longleftrightarrow> wf_map m \<and> list_all (\<lambda>(k, v). valid_utf8 k \<and> valid_utf8 v) m"

definition valid_action :: "action \<Rightarrow> bool" where
  "valid_action a \<longleftrightarrow> list_all valid_utf8 ([a_id a, a_type a, a_endpoint a, a_method a, a_auth a, a_timeout a] @
     a_depends_on a) \<and> valid_map (a_schema a)"

definition valid_manifest :: "exec_manifest \<Rightarrow> bool" where
  "valid_manifest m \<longleftrightarrow> list_all valid_utf8 ([m_id m, m_version m, m_ttl m, m_feedback_endpoint m,
       b_audit_level (m_boundaries m)] @ b_egress (m_boundaries m) @ b_require_approval (m_boundaries m)) \<and>
     int64 (b_max_tokens_per_action (m_boundaries m)) \<and> list_all valid_action (m_actions m)"

definition valid_event :: "feedback_event \<Rightarrow> bool" where
  "valid_event e \<longleftrightarrow> list_all valid_utf8 [f_manifest_id e, f_action_id e, f_outcome e, f_error e] \<and>
     list_all int64 [f_latency_ms e, f_tokens_in e, f_tokens_out e]"

text \<open>The maps of a manifest come back sorted, which is the same map.\<close>

definition sort_schema :: "action \<Rightarrow> action" where
  "sort_schema a = a \<lparr> a_schema := sort_key fst (a_schema a) \<rparr>"

definition sort_schemas :: "exec_manifest \<Rightarrow> exec_manifest" where
  "sort_schemas m = m \<lparr> m_actions := map sort_schema (m_actions m) \<rparr>"

lemma dec_strings [dec_enc]:
  "list_all valid_utf8 xs \<Longrightarrow> dec_list [] dec_string (enc_list enc_string xs) old = (xs, False)"
  using dec_enc_list [of xs dec_string enc_string "[]" id old] by (simp add: dec_enc_string list_all_iff)

lemma dec_string_map [dec_enc]:
  assumes "valid_map m" shows "dec_map [] dec_string (enc_map enc_string m) [] = (sort_key fst m, False)"
proof -
  have "dec_map [] dec_string (enc_map enc_string m) [] = (map (\<lambda>(k, v). (k, id v)) (sort_key fst m), False)"
    by (rule dec_enc_map) (use assms in \<open>auto simp: dec_enc_string valid_map_def list_all_iff\<close>)
  then show ?thesis by simp
qed

lemma struct_not_null [simp]: "\<not> is_null (enc_struct fs)"
  by (simp add: enc_struct_def)

lemma request_roundtrip [dec_enc]:
  assumes "valid_request r" shows "dec_request (enc_request r) zero_request = (r, False)"
proof (cases "rq_constraints r")
  case None
  then show ?thesis
    using assms unfolding dec_request_def enc_request_def
    by (subst dec_struct_members)
      (simp_all add: dec_member_def tag_facts dec_field_def dec_enc omitempty_def zero_request_def valid_request_def)
next
  case (Some c)
  have "\<not> is_null (enc_constraints c)" by (simp add: enc_constraints_def)
  then have "dec_pointer zero_constraints dec_constraints (enc_constraints c) None = (Some c, False)"
    by (rule dec_enc_pointer)
      (use assms Some in \<open>simp add: constraints_roundtrip valid_request_def valid_constraints_def\<close>)
  with Some show ?thesis
    using assms unfolding dec_request_def enc_request_def
    by (subst dec_struct_members)
      (simp_all add: dec_member_def tag_facts dec_field_def dec_enc omitempty_def zero_request_def valid_request_def)
qed

lemma action_roundtrip [dec_enc]:
  "valid_action a \<Longrightarrow> dec_action (enc_action a) zero_action = (sort_schema a, False)"
  unfolding dec_action_def enc_action_def
  by (subst dec_struct_members)
    (simp_all add: dec_member_def tag_facts dec_field_def dec_enc omitempty_def zero_action_def valid_action_def
      sort_schema_def)

lemma boundary_roundtrip [dec_enc]:
  "list_all valid_utf8 (b_audit_level b # b_egress b @ b_require_approval b) \<Longrightarrow>
     int64 (b_max_tokens_per_action b) \<Longrightarrow> dec_boundary (enc_boundary b) zero_boundary = (b, False)"
  unfolding dec_boundary_def enc_boundary_def
  by (subst dec_struct_members)
    (simp_all add: dec_member_def tag_facts dec_field_def dec_enc omitempty_def zero_boundary_def)

lemma manifest_roundtrip [dec_enc]:
  assumes "valid_manifest m" shows "dec_manifest (enc_manifest m) zero_manifest = (sort_schemas m, False)"
proof -
  have "dec_list zero_action dec_action (enc_list enc_action (m_actions m)) [] = (map sort_schema (m_actions m), False)"
    by (rule dec_enc_list) (use assms in \<open>simp add: action_roundtrip valid_manifest_def list_all_iff\<close>)
  then show ?thesis
    using assms unfolding dec_manifest_def enc_manifest_def
    by (subst dec_struct_members)
      (simp_all add: dec_member_def tag_facts dec_field_def dec_enc zero_manifest_def
        valid_manifest_def sort_schemas_def)
qed

lemma event_roundtrip [dec_enc]:
  "valid_event e \<Longrightarrow> dec_event (enc_event e) zero_event = (e, False)"
  unfolding dec_event_def enc_event_def
  by (subst dec_struct_members)
    (simp_all add: dec_member_def tag_facts dec_field_def dec_enc omitempty_def zero_event_def valid_event_def)

lemma error_roundtrip [dec_enc]:
  "valid_utf8 msg \<Longrightarrow> dec_error_response (enc_error_response msg) [] = (msg, False)"
  unfolding dec_error_response_def enc_error_response_def
  by (subst dec_struct_members) (simp_all add: dec_member_def tag_facts dec_field_def dec_enc)

text \<open>The depth of what is written.\<close>

lemma good_constraints: "good 1 (enc_constraints c)"
  unfolding enc_constraints_def One_nat_def
  by (intro good_struct) (auto simp: omitempty_def good_string good_int split: if_splits)

lemma good_request: "good 2 (enc_request r)"
proof -
  have o: "Some t = map_option enc_constraints x \<Longrightarrow> good (Suc 0) t" for x t
    using good_constraints by (cases x) auto
  have "good (Suc 0) (enc_list enc_string xs)" for xs by (intro good_list good_string)
  then show ?thesis
    unfolding enc_request_def numeral_2_eq_2
    by (intro good_struct) (auto simp: omitempty_def good_string split: if_splits elim: o)
qed

lemma good_action: "good 2 (enc_action a)"
proof -
  have "good (Suc 0) (enc_list enc_string xs)" "good (Suc 0) (enc_map enc_string m)" for xs m
    by (intro good_list good_map good_string)+
  then show ?thesis
    unfolding enc_action_def numeral_2_eq_2
    by (intro good_struct) (auto simp: omitempty_def good_string split: if_splits)
qed

lemma good_boundary: "good 2 (enc_boundary b)"
proof -
  have "good (Suc 0) (enc_list enc_string xs)" for xs by (intro good_list good_string)
  then show ?thesis
    unfolding enc_boundary_def numeral_2_eq_2
    by (intro good_struct) (auto simp: omitempty_def good_string good_int split: if_splits)
qed

lemma good_manifest: "good 4 (enc_manifest m)"
proof -
  have "good 3 (enc_list enc_action xs)" for xs
    using good_list [of xs 2 enc_action] good_action by (simp add: eval_nat_numeral)
  moreover have "good 3 (enc_boundary b)" for b by (rule good_mono [OF good_boundary]) simp
  ultimately have "good (Suc 3) (enc_manifest m)"
    unfolding enc_manifest_def by (intro good_struct) (auto simp: good_string)
  then show ?thesis by simp
qed

lemma good_flat: "good 1 (enc_event e)" "good 1 (enc_error_response msg)" "good 1 (enc_status s)"
  unfolding enc_event_def enc_error_response_def enc_status_def One_nat_def
  by (intro good_struct; auto simp: omitempty_def good_string good_int split: if_splits)+
    (intro good_map good_string)

lemma good_max: "good d t \<Longrightarrow> d \<le> 10000 \<Longrightarrow> good maxNestingDepth t"
  by (rule good_mono) (simp_all add: maxNestingDepth_def)

section \<open>Properties\<close>

text \<open>C11: what a client or the server writes is read back. A context request, a feedback event and a
  manifest that are marshalled by their struct tags and decoded again are what they were; only the
  maps of a manifest come back in the order of their keys.\<close>

theorem wire_roundtrip:
  "(valid_request r \<longrightarrow> decode_context (json_codec je) (Marshal (enc_request r)) = Inr r) \<and>
   (valid_event e \<longrightarrow> decode_feedback (json_codec je) (Marshal (enc_event e)) = Inr e) \<and>
   (valid_manifest m \<longrightarrow>
      Decode je dec_manifest zero_manifest (body_text (ManifestJson m)) = Inr (sort_schemas m))"
  using Unmarshal_Marshal(3) [of "enc_request r" dec_request zero_request r "[]" je]
    Unmarshal_Marshal(3) [of "enc_event e" dec_event zero_event e "[]" je]
    Unmarshal_Marshal(3) [of "enc_manifest m" dec_manifest zero_manifest "sort_schemas m" "[CHR 0x0A]" je]
  by (simp add: json_codec_def body_text_def dec_enc good_max [OF good_request] good_max [OF good_manifest]
      good_max [OF good_flat(1)])

definition wire_manifest :: exec_manifest where
  "wire_manifest = zero_manifest \<lparr> m_id := ''m-1'',
     m_actions := [zero_action \<lparr> a_id := ''a1'', a_schema := [(''to'', ''string''), (''body'', ''string?'')] \<rparr>] \<rparr>"

theorem wire_roundtrip_witness:
  "decode_context (json_codec demo_errors) (Marshal (enc_request (zero_request \<lparr> rq_capabilities := [''<email>''] \<rparr>))) =
     Inr (zero_request \<lparr> rq_capabilities := [''<email>''] \<rparr>) \<and>
   decode_feedback (json_codec demo_errors) (Marshal (enc_event (zero_event \<lparr> f_latency_ms := - 3 \<rparr>))) =
     Inr (zero_event \<lparr> f_latency_ms := - 3 \<rparr>) \<and>
   Decode demo_errors dec_manifest zero_manifest (body_text (ManifestJson wire_manifest)) =
     Inr (wire_manifest \<lparr> m_actions := [zero_action \<lparr> a_id := ''a1'',
       a_schema := [(''body'', ''string?''), (''to'', ''string'')] \<rparr>] \<rparr>)"
proof -
  have "valid_request (zero_request \<lparr> rq_capabilities := [''<email>''] \<rparr>)"
    by (code_simp, simp)
  moreover have "valid_event (zero_event \<lparr> f_latency_ms := - 3 \<rparr>)" "valid_manifest wire_manifest"
    by code_simp+
  moreover have "sort_schemas wire_manifest = wire_manifest \<lparr> m_actions := [zero_action \<lparr> a_id := ''a1'',
      a_schema := [(''body'', ''string?''), (''to'', ''string'')] \<rparr>] \<rparr>"
    by code_simp
  ultimately show ?thesis
    using wire_roundtrip [of "zero_request \<lparr> rq_capabilities := [''<email>''] \<rparr>" demo_errors
      "zero_event \<lparr> f_latency_ms := - 3 \<rparr>" wire_manifest] by simp
qed

end
