(* ===== verification/ClientJson.thy ===== *)
theory ClientJson
  imports Client WireJson
begin

text \<open>
  The client library and the server with the JSON of the wire types between them: nothing is left to
  assume about encoding. What a remote call returns is computed from the resolver and the builder of
  the server alone, errors included.
\<close>

section \<open>The client with its codec\<close>

text \<open>\<open>json.Unmarshal(raw, &er)\<close> with its error ignored: what was decoded stays.\<close>

definition error_field :: "string \<Rightarrow> string" where
  "error_field raw = (case parse_tree raw of None \<Rightarrow> [] | Some t \<Rightarrow> fst (dec_error_response t []))"

definition json_io :: "json_errors \<Rightarrow> (string \<Rightarrow> string \<Rightarrow> error option) \<Rightarrow> client_io" where
  "json_io je new_request =
     \<lparr> ci_new_request = new_request, ci_marshal_context = (\<lambda>r. Inr (Marshal (enc_request r))),
       ci_marshal_event = (\<lambda>e. Inr (Marshal (enc_event e))),
       ci_decode_manifest = Decode je dec_manifest zero_manifest, ci_decode_error = error_field \<rparr>"

text \<open>The message a client makes of an error text of the server.\<close>

definition error_message :: "string \<Rightarrow> string" where
  "error_message msg =
     (let m = ToValidUTF8 msg in if m = [] then TrimSpace (body_text (ErrorJson msg)) else m)"

section \<open>Manifests that can travel\<close>

definition valid_tool :: "tool \<Rightarrow> bool" where
  "valid_tool t \<longleftrightarrow> list_all valid_utf8 ([t_type t, t_endpoint t, t_method t, t_auth t, t_timeout t] @ t_egress t) \<and>
     valid_map (t_schema t)"

definition valid_registry :: "registry \<Rightarrow> bool" where
  "valid_registry reg \<longleftrightarrow> list_all (\<lambda>(i, t). valid_tool t) reg"

lemma ascii_dec: "ascii (dec n)"
  using dec_digits [of _ n] by (fastforce simp: ascii_iff_of_char digit_char_def less_eq_char_def)

lemma ascii_action_id: "ascii (action_id i)"
  using ascii_dec [of "i + 1"] by (simp add: action_id_def ascii_def)

lemma valid_action_id: "valid_utf8 (action_id i)"
  by (rule ascii_valid [OF ascii_action_id])

lemma valid_built:
  assumes "list_all valid_tool ts" and "valid_utf8 i" and "valid_utf8 (bo_ttl opts)"
    and "valid_utf8 (bo_feedback_endpoint opts)" and "valid_utf8 (bo_audit_level opts)"
    and "int64 (bo_max_tokens_per_action opts)"
  shows "valid_manifest (built ts opts i)"
proof -
  let ?m = "built ts opts i"
  have "valid_action (m_actions ?m ! k)" if k: "k < length ts" for k
  proof -
    have "valid_utf8 x" if "x \<in> set (a_depends_on (m_actions ?m ! k))" for x
      using that valid_action_id by (auto simp: built_depends_on [OF k])
    moreover have "valid_tool (ts ! k)" using assms(1) k by (simp add: list_all_length)
    moreover have "valid_utf8 (a_id (m_actions ?m ! k))"
      using valid_action_id by (simp add: built_action [OF k] build_action_def)
    ultimately show ?thesis
      by (simp add: valid_action_def valid_tool_def list_all_iff built_action [OF k] build_action_def)
  qed
  then have "list_all valid_action (m_actions ?m)" by (simp add: list_all_length)
  moreover have "valid_utf8 x" if "x \<in> set (b_require_approval (m_boundaries ?m))" for x
    using that valid_action_id by (auto simp: built_approval)
  moreover have "valid_utf8 x" if "x \<in> set (b_egress (m_boundaries ?m))" for x
    using that assms(1) by (auto simp: built_egress list_all_iff valid_tool_def)
  moreover have "valid_utf8 ProtocolVersion" by (rule ascii_valid) code_simp
  moreover have "m_version ?m = ProtocolVersion" "m_ttl ?m = bo_ttl opts"
    "m_feedback_endpoint ?m = bo_feedback_endpoint opts"
    "b_audit_level (m_boundaries ?m) = bo_audit_level opts"
    "b_max_tokens_per_action (m_boundaries ?m) = bo_max_tokens_per_action opts"
    by (simp_all add: built_def Let_def)
  ultimately show ?thesis
    using assms by (auto simp: valid_manifest_def list_all_iff)
qed

lemma valid_options:
  "valid_utf8 (fl_feedback_endpoint fl) \<Longrightarrow> valid_utf8 (bo_ttl (builder_options fl)) \<and>
     valid_utf8 (bo_feedback_endpoint (builder_options fl)) \<and> valid_utf8 (bo_audit_level (builder_options fl)) \<and>
     int64 (bo_max_tokens_per_action (builder_options fl))"
proof -
  have "valid_utf8 ''300s''" "valid_utf8 ''/v1/feedback''" "valid_utf8 AuditFull"
    by (rule ascii_valid; code_simp)+
  then show "valid_utf8 (fl_feedback_endpoint fl) \<Longrightarrow> ?thesis"
    by (simp add: builder_options_def NewOptions_def DefaultOptions_def int64_def)
qed

lemma valid_Build:
  assumes "valid_registry reg" "valid_utf8 newID" "valid_utf8 (fl_feedback_endpoint fl)"
    and "Build (Lookup reg) (builder_options fl) newID req caps = Inr mf"
  shows "valid_manifest mf"
proof -
  have "list_all valid_tool (Lookup reg caps)"
    using assms(1) by (auto simp: valid_registry_def list_all_iff set_Lookup)
  with assms valid_options [OF assms(3)] show ?thesis by (auto simp: Build_Inr intro: valid_built)
qed

section \<open>What the server's bodies are for the client\<close>

lemma decode_body:
  assumes "valid_manifest mf"
  shows "Decode je dec_manifest zero_manifest (body_text (ManifestJson mf)) = Inr (sort_schemas mf)"
  using Unmarshal_Marshal(3) [where t = "enc_manifest mf" and d = dec_manifest and zero = zero_manifest
      and a = "sort_schemas mf" and r = "[CHR 0x0A]" and je = je]
  by (simp add: body_text_def good_max [OF good_manifest] manifest_roundtrip [OF assms])

lemma error_body: "error_field (body_text (ErrorJson msg)) = ToValidUTF8 msg"
proof -
  have "parse_tree (Marshal (enc_error_response msg) @ [CHR 0x0A]) = Some (enc_error_response msg)"
    using good_max [OF good_flat(2)] unfolding Marshal_def good_def by (simp add: parse_tree_text)
  moreover have "dec_error_response (enc_error_response msg) [] = (ToValidUTF8 msg, False)"
    unfolding dec_error_response_def enc_error_response_def
    by (subst dec_struct_members)
      (simp_all add: dec_member_def tag_facts dec_field_def dec_string_def enc_string_def unquote_quote)
  ultimately show ?thesis by (simp add: error_field_def body_text_def)
qed

section \<open>The call without the network\<close>

text \<open>What the server's parts give for a request: a status with an error text, or a manifest.\<close>

definition context_outcome ::
    "resolve_fun \<Rightarrow> server_flags \<Rightarrow> registry \<Rightarrow> string \<Rightarrow> context_request \<Rightarrow> nat \<times> string + exec_manifest" where
  "context_outcome embedding fl reg newID req =
     (if TrimSpace (rq_intent req) = [] \<and> rq_capabilities req = [] then
        Inl (400, ''intent or capabilities required'')
      else if TrimSpace (rq_agent_id req) = [] then Inl (400, ''agent_id is required'')
      else (case pickResolver embedding (fl_resolver fl) (rq_intent req) (rq_capabilities req) of
          Inl e \<Rightarrow> Inl (422, Error e)
        | Inr caps \<Rightarrow>
          (case Build (Lookup reg) (builder_options fl) newID req caps of
             Inl e \<Rightarrow> Inl (422, Error e)
           | Inr mf \<Rightarrow> Inr mf)))"

lemma outcome_error: "context_outcome embedding fl reg newID req = Inl (code, msg) \<Longrightarrow> 300 \<le> code"
  by (auto simp: context_outcome_def split: if_splits sum.splits)

lemma outcome_built:
  "context_outcome embedding fl reg newID req = Inr mf \<Longrightarrow>
     \<exists>caps. Build (Lookup reg) (builder_options fl) newID req caps = Inr mf"
  by (auto simp: context_outcome_def split: if_splits sum.splits)

lemma handleContext_outcome:
  assumes "fl_enable_proxy fl" and "r_method r = ''POST''" and "decode_context cd (r_body r) = Inr req"
  shows "handleContext cd (main_config embedding n fl reg) newID r st =
    (case context_outcome embedding fl reg newID req of
       Inl (code, msg) \<Rightarrow> (writeError code msg, st)
     | Inr mf \<Rightarrow> (json_response StatusOK (ManifestJson mf), st \<lparr> sv_store := Put (Some mf) (sv_store st) \<rparr>))"
proof -
  have "cfg_resolver (main_config embedding n fl reg) = pickResolver embedding (fl_resolver fl)"
    by (simp add: main_config_def)
  with main_config_sel [OF assms(1), of embedding n reg] show ?thesis
    by (simp add: handleContext_def context_outcome_def assms(2,3) split: sum.split)
qed

section \<open>Properties\<close>

text \<open>C7: a remote call is a local one. A client that asks a server for a context over HTTP and JSON gets
  what the server's resolver and builder give for the request: the manifest, which the server has
  stored (its maps come back sorted), or the error with its status and its very text. Nothing is lost
  or added on the way.\<close>

theorem client_call_is_local:
  assumes "fl_enable_proxy fl" and "plain_token (fl_auth_token fl)" and "cl_token c = fl_auth_token fl"
    and "delivers (cl_base_url c) wire"
    and "cl_doer c = server_doer wire body_text (json_codec je) (main_config embedding n fl reg) newID"
    and "new_request ''POST'' (cl_base_url c @ ''/v1/context'') = None"
    and "valid_request req" and "valid_registry reg" and "valid_utf8 newID"
    and "valid_utf8 (fl_feedback_endpoint fl)"
  shows "ClientContext (json_io je new_request) c req st =
    (case context_outcome embedding fl reg newID req of
       Inl (status, msg) \<Rightarrow> (Inl (APIError status (error_message msg)), st)
     | Inr mf \<Rightarrow> (Inr (sort_schemas mf), st \<lparr> sv_store := Put (Some mf) (sv_store st) \<rparr>))"
proof -
  let ?s = "Marshal (enc_request req)"
  note out = client_context_sent [OF assms(2-5), of ?s]
  have "decode_context (json_codec je) ?s = Inr req"
    using Unmarshal_Marshal(3) [where t = "enc_request req" and d = dec_request and zero = zero_request
        and a = req and r = "[]" and je = je]
    by (simp add: json_codec_def good_max [OF good_request] request_roundtrip [OF assms(7)])
  note doer = out(1) [unfolded handleContext_outcome [OF assms(1) out(2), unfolded out(3), OF this]]
  have io: "ci_new_request (json_io je new_request) = new_request"
    "ci_marshal_context (json_io je new_request) req = Inr ?s"
    "ci_decode_manifest (json_io je new_request) = Decode je dec_manifest zero_manifest"
    "ci_decode_error (json_io je new_request) = error_field"
    by (simp_all add: json_io_def)
  show ?thesis
  proof (cases "context_outcome embedding fl reg newID req")
    case (Inl sm)
    obtain status msg where sm: "sm = (status, msg)" by (cases sm)
    with Inl have "300 \<le> status" by (auto dest: outcome_error)
    with assms(6) error_body [of msg] show ?thesis
      by (simp add: ClientContext_def client_do_def doer io Inl sm writeError_def json_response_def Let_def
          error_message_def)
  next
    case (Inr mf)
    then have "valid_manifest mf" using outcome_built valid_Build [OF assms(8-10)] by blast
    with assms(6) decode_body [of mf je] show ?thesis
      by (simp add: ClientContext_def client_do_def doer io Inr json_response_def Let_def)
  qed
qed

text \<open>A client with its token at the seeded server, all over text.\<close>

definition json_client :: "memory_store server_state acp_client" where
  "json_client = NewClient (\<lambda>q st. (Inl (Errorf ''unused''), st)) ''http://acp/''
     [WithToken ''t0k'', WithDoer (Some (server_doer demo_wire body_text (json_codec demo_errors)
        (main_config no_embedding demo_net demo_flags seeded) ''m-1''))]"

theorem client_call_is_local_witness:
  "case ClientContext (json_io demo_errors (\<lambda>m u. None)) json_client demo_request_value main_state of
     (Inr mf, st') \<Rightarrow> m_id mf = ''m-1'' \<and> m_actions mf \<noteq> []
   | (Inl e, st') \<Rightarrow> False"
proof -
  have c: "cl_base_url json_client = ''http://acp''" "cl_token json_client = ''t0k''"
    "cl_doer json_client = server_doer demo_wire body_text (json_codec demo_errors)
       (main_config no_embedding demo_net demo_flags seeded) ''m-1''"
    by (simp_all add: json_client_def NewClient_def WithToken_def WithDoer_def trim_right_byte_def)
  have pre: "fl_enable_proxy demo_flags" "plain_token (fl_auth_token demo_flags)"
    "cl_token json_client = fl_auth_token demo_flags" "delivers (cl_base_url json_client) demo_wire"
    by (simp add: demo_flags_def, code_simp, simp add: c demo_flags_def, simp only: c demo_delivers)
  have req: "valid_request demo_request_value" "valid_utf8 ''m-1''" "valid_utf8 (fl_feedback_endpoint demo_flags)"
    "valid_registry seeded"
    by (code_simp, simp, code_simp+)
  have out: "case context_outcome no_embedding demo_flags seeded ''m-1'' demo_request_value of
      Inl e \<Rightarrow> False | Inr mf \<Rightarrow> m_id mf = ''m-1'' \<and> m_actions mf \<noteq> []"
    by code_simp
  have new: "(\<lambda>m u. None) ''POST'' (cl_base_url json_client @ ''/v1/context'') = None" by simp
  note call = client_call_is_local [OF pre c(3) new req(1,4,2,3), of main_state]
  show ?thesis
    using out unfolding call by (auto simp: sort_schemas_def split: sum.splits)
qed

end
