(* ===== verification/Observability.thy ===== *)
theory Observability
  imports Prelude Float64 "HOL-Library.Word"
begin

unbundle bit_operations_syntax

text \<open>
  The telemetry helpers of \<open>internal/observability/observability.go\<close>: when traces are exported and how,
  which attributes the spans get, and the fingerprint of an intent. The OpenTelemetry SDK is an
  argument: of the resource merge and the exporter only whether they fail, of a span only whether it
  records. A span here is the list of the calls made on it.
\<close>

section \<open>Attributes and spans\<close>

datatype attr_value = AString string | AInt int | ABool bool

datatype span_call =
  SetAttribute string attr_value
| RecordErrorCall error
| SetStatusError string

record span =
  sp_recording :: bool
  sp_calls :: "span_call list"

datatype span_kind = KindServer | KindClient

text \<open>What is passed to \<open>Tracer().Start\<close>.\<close>

record span_start =
  ss_name :: string
  ss_kind :: span_kind
  ss_attributes :: "(string \<times> attr_value) list"

definition AttrOperationName :: string where "AttrOperationName = ''gen_ai.operation.name''"
definition AttrToolName :: string where "AttrToolName = ''gen_ai.tool.name''"
definition AttrToolType :: string where "AttrToolType = ''gen_ai.tool.type''"
definition AttrCACPManifestID :: string where "AttrCACPManifestID = ''clawd.acp.manifest_id''"
definition AttrCACPActionID :: string where "AttrCACPActionID = ''clawd.acp.action_id''"
definition AttrCACPIntent :: string where "AttrCACPIntent = ''clawd.acp.intent''"
definition AttrCACPIntentHash :: string where "AttrCACPIntentHash = ''clawd.acp.intent_hash''"
definition AttrCACPActions :: string where "AttrCACPActions = ''clawd.acp.action_count''"
definition AttrCACPCacheHit :: string where "AttrCACPCacheHit = ''clawd.acp.cache_hit''"
definition AttrCAuditSeq :: string where "AttrCAuditSeq = ''clawd.audit.seq''"
definition AttrCAuditTraceID :: string where "AttrCAuditTraceID = ''clawd.audit.trace_id''"

definition SpanContextHandler :: string where "SpanContextHandler = ''acp.context''"
definition SpanExecAction :: string where "SpanExecAction = ''acp.exec''"

section \<open>Helpers\<close>

definition coalesce :: "string \<Rightarrow> string \<Rightarrow> string" where
  "coalesce a b = (if a \<noteq> [] then a else b)"

definition isLocalEndpoint :: "string \<Rightarrow> bool" where
  "isLocalEndpoint ep \<longleftrightarrow>
     ep = ''localhost:4317'' \<or> ep = ''127.0.0.1:4317'' \<or> ep = ''0.0.0.0:4317'' \<or>
     ep = ''otel-collector:4317'' \<or> ep = ''opentelemetry-collector:4317''"

text \<open>The ellipsis is the three bytes of its UTF-8 encoding.\<close>

definition ellipsis :: string where
  "ellipsis = [CHR 0xE2, CHR 0x80, CHR 0xA6]"

definition truncate_string :: "string \<Rightarrow> nat \<Rightarrow> string" where
  "truncate_string s n = (if length s \<le> n then s else take n s @ ellipsis)"

definition fnv64_step :: "64 word \<Rightarrow> char \<Rightarrow> 64 word" where
  "fnv64_step h c = (h XOR of_char c) * 1099511628211"

definition hex_digits :: string where
  "hex_digits = ''0123456789abcdef''"

text \<open>The loop that fills the output from the right.\<close>

fun hex_loop :: "nat \<Rightarrow> 64 word \<Rightarrow> string \<Rightarrow> string" where
  "hex_loop 0 h out = out"
| "hex_loop (Suc k) h out = hex_loop k (drop_bit 4 h) (hex_digits ! unat (h AND 0xF) # out)"

definition intentHash :: "string \<Rightarrow> string" where
  "intentHash s = hex_loop 16 (foldl fnv64_step 14695981039346656037 s) []"

section \<open>Spans\<close>

definition StartContextSpan :: "string \<Rightarrow> span_start" where
  "StartContextSpan intent =
     \<lparr> ss_name = SpanContextHandler, ss_kind = KindServer,
       ss_attributes = [(AttrCACPIntent, AString (truncate_string intent 256)),
                        (AttrCACPIntentHash, AString (intentHash intent))] \<rparr>"

definition StartExecSpan :: "string \<Rightarrow> string \<Rightarrow> string \<Rightarrow> span_start" where
  "StartExecSpan manifestID actionID toolName =
     \<lparr> ss_name = SpanExecAction, ss_kind = KindClient,
       ss_attributes = [(AttrOperationName, AString ''execute_tool''),
                        (AttrToolType, AString ''acp''),
                        (AttrToolName, AString toolName),
                        (AttrCACPManifestID, AString manifestID),
                        (AttrCACPActionID, AString actionID)] \<rparr>"

definition SetAttributes :: "(string \<times> attr_value) list \<Rightarrow> span \<Rightarrow> span" where
  "SetAttributes attrs sp = sp \<lparr> sp_calls := sp_calls sp @ map (\<lambda>(k, v). SetAttribute k v) attrs \<rparr>"

text \<open>\<open>None\<close> is a nil span. An \<open>int\<close> of the source has 64 bits.\<close>

definition SetManifestEmitted :: "span option \<Rightarrow> string \<Rightarrow> int \<Rightarrow> bool \<Rightarrow> span option" where
  "SetManifestEmitted sp0 manifestID actionCount cacheHit =
     (case sp0 of
        None \<Rightarrow> None
      | Some sp \<Rightarrow>
          if \<not> sp_recording sp then sp0
          else Some (SetAttributes [(AttrCACPManifestID, AString manifestID),
                                    (AttrCACPActions, AInt actionCount),
                                    (AttrCACPCacheHit, ABool cacheHit)] sp))"

definition LinkAuditEntry :: "span option \<Rightarrow> 64 word \<Rightarrow> string \<Rightarrow> span option" where
  "LinkAuditEntry sp0 seq auditTraceID =
     (case sp0 of
        None \<Rightarrow> None
      | Some sp \<Rightarrow>
          if \<not> sp_recording sp then sp0
          else
            let sp' = SetAttributes [(AttrCAuditSeq, AInt (sint seq))] sp in
            Some (if auditTraceID \<noteq> [] then SetAttributes [(AttrCAuditTraceID, AString auditTraceID)] sp'
                  else sp'))"

definition RecordError :: "span option \<Rightarrow> error option \<Rightarrow> span option" where
  "RecordError sp0 err =
     (case (sp0, err) of
        (Some sp, Some e) \<Rightarrow>
          Some (sp \<lparr> sp_calls := sp_calls sp @ [RecordErrorCall e, SetStatusError (Error e)] \<rparr>)
      | _ \<Rightarrow> sp0)"

section \<open>Setting up the exporter\<close>

record 'f trace_config =
  tc_service_name :: string
  tc_service_version :: string
  tc_environment :: string
  tc_otlp_endpoint :: string
  tc_insecure :: bool
  tc_sampler_ratio :: 'f
  tc_disabled :: bool

datatype 'f sampler = AlwaysSample | ParentBasedRatio 'f

datatype resource_attr = ServiceName string | ServiceVersion string | Attr string string

text \<open>The options of the exporter and of the tracer provider; times in nanoseconds.\<close>

record 'f trace_plan =
  tp_endpoint :: string
  tp_compressor :: string
  tp_timeout :: int
  tp_insecure :: bool
  tp_max_batch :: int
  tp_batch_timeout :: int
  tp_sampler :: "'f sampler"
  tp_resource :: "resource_attr list"

text \<open>What \<open>Init\<close> leaves behind: nothing, only the propagators, or an installed provider as well.\<close>

datatype 'f tracing = Untouched | PropagatorsOnly | Installed "'f trace_plan"

definition resource_attrs :: "'f trace_config \<Rightarrow> resource_attr list" where
  "resource_attrs cfg =
     [ServiceName (coalesce (tc_service_name cfg) ''acp-server''),
      ServiceVersion (coalesce (tc_service_version cfg) ''0.0.0-dev''),
      Attr ''clawd.component'' ''acp-server'',
      Attr ''deployment.environment'' (coalesce (tc_environment cfg) ''dev'')]"

definition sampler_of :: "'f float64_ops \<Rightarrow> 'f \<Rightarrow> 'f sampler" where
  "sampler_of fp ratio =
     (if fp_lt fp (fp_of fp 0) ratio \<and> fp_lt fp ratio (fp_of fp 1) then ParentBasedRatio ratio
      else AlwaysSample)"

text \<open>\<open>merge\<close> is the error of merging the resource, \<open>exporter\<close> that of creating the exporter.\<close>

definition Init ::
    "'f float64_ops \<Rightarrow> (string \<Rightarrow> string) \<Rightarrow> (resource_attr list \<Rightarrow> error option) \<Rightarrow>
     (string \<Rightarrow> bool \<Rightarrow> error option) \<Rightarrow> 'f trace_config \<Rightarrow> error + 'f tracing" where
  "Init fp getenv merge exporter cfg =
     (if tc_disabled cfg then Inr Untouched
      else
        let endpoint = coalesce (tc_otlp_endpoint cfg) (getenv ''OTEL_EXPORTER_OTLP_ENDPOINT'') in
        if endpoint = [] then Inr PropagatorsOnly
        else
          let res = resource_attrs cfg; insecure = tc_insecure cfg \<or> isLocalEndpoint endpoint in
          (case merge res of
             Some e \<Rightarrow> Inl (Wrap ''observability: build resource: '' e)
           | None \<Rightarrow>
          (case exporter endpoint insecure of
             Some e \<Rightarrow> Inl (Wrap ''observability: OTLP exporter: '' e)
           | None \<Rightarrow>
             Inr (Installed \<lparr> tp_endpoint = endpoint, tp_compressor = ''gzip'', tp_timeout = 10 * 1000000000,
                    tp_insecure = insecure, tp_max_batch = 512, tp_batch_timeout = 2 * 1000000000,
                    tp_sampler = sampler_of fp (tc_sampler_ratio cfg), tp_resource = res \<rparr>))))"

text \<open>
  The shutdown function that \<open>Init\<close> returns: \<open>tp\<close> is the provider's own, under the context of the
  call; the state says whether the \<open>sync.Once\<close> has fired and which contexts the provider was given.
\<close>

record once_state =
  os_done :: bool
  os_shutdowns :: "string list"

definition shutdown :: "'f tracing \<Rightarrow> (string \<Rightarrow> error option) \<Rightarrow> string \<Rightarrow> once_state \<Rightarrow> error option \<times> once_state" where
  "shutdown t tp c st =
     (case t of
        Installed plan \<Rightarrow>
          if os_done st then (None, st)
          else (tp c, \<lparr> os_done = True, os_shutdowns = os_shutdowns st @ [c] \<rparr>)
      | _ \<Rightarrow> (None, st))"

fun shutdowns :: "'f tracing \<Rightarrow> (string \<Rightarrow> error option) \<Rightarrow> string list \<Rightarrow> once_state \<Rightarrow> error option list \<times> once_state" where
  "shutdowns t tp [] st = ([], st)"
| "shutdowns t tp (c # cs) st =
     (let (e, st1) = shutdown t tp c st; (es, st') = shutdowns t tp cs st1 in (e # es, st'))"

section \<open>Lemmas\<close>

text \<open>Reading the hexadecimal digits back.\<close>

definition hex_digit_value :: "char \<Rightarrow> nat" where
  "hex_digit_value c = (let n = of_char c in if n < 58 then n - 48 else n - 87)"

definition read_hex :: "string \<Rightarrow> nat" where
  "read_hex s = foldl (\<lambda>n c. 16 * n + hex_digit_value c) 0 s"

lemma hex_digit:
  assumes "n < 16"
  shows "hex_digit_value (hex_digits ! n) = n \<and> hex_digits ! n \<in> set hex_digits"
proof -
  have "list_all (\<lambda>n. hex_digit_value (hex_digits ! n) = n) [0..<16]" by code_simp
  then have "\<forall>n \<in> {0..<16}. hex_digit_value (hex_digits ! n) = n" by (simp add: list_all_iff)
  moreover have "length hex_digits = 16" by code_simp
  then have "hex_digits ! n \<in> set hex_digits" using assms by simp
  ultimately show ?thesis using assms by simp
qed

lemma unat_and_15: "unat (h AND 0xF :: 64 word) = unat h mod 16"
proof -
  have "n AND 15 = n mod 16" for n :: nat
    using take_bit_eq_mask [of 4 n] by (simp add: take_bit_eq_mod mask_eq_exp_minus_1)
  then show ?thesis by (simp add: unsigned_and_eq)
qed

lemma and_15_less: "unat (h AND 0xF :: 64 word) < 16"
  by (simp add: unat_and_15)

lemma unat_drop_4: "unat (drop_bit 4 (h :: 64 word)) = unat h div 16"
  by (simp add: drop_bit_eq_div unat_div)

lemma hex_loop_append: "hex_loop k h out = hex_loop k h [] @ out"
proof (induction k arbitrary: h out)
  case (Suc k)
  show ?case
    by (simp add: Suc.IH [of _ "_ # out"] Suc.IH [of _ "[_]"])
qed simp

lemma hex_loop_exact:
  "length (hex_loop k h []) = k \<and> set (hex_loop k h []) \<subseteq> set hex_digits \<and>
   read_hex (hex_loop k h []) = unat h mod 16 ^ k"
proof (induction k arbitrary: h)
  case (Suc k)
  let ?d = "hex_digits ! unat (h AND 0xF)"
  have s: "hex_loop (Suc k) h [] = hex_loop k (drop_bit 4 h) [] @ [?d]"
    by (simp add: hex_loop_append [of _ _ "[_]"])
  have d: "hex_digit_value ?d = unat h mod 16" "?d \<in> set hex_digits"
    using hex_digit [OF and_15_less [of h]] by (simp_all add: unat_and_15)
  have "read_hex (hex_loop (Suc k) h []) = 16 * (unat h div 16 mod 16 ^ k) + unat h mod 16"
    unfolding s using Suc.IH [of "drop_bit 4 h"] by (simp add: read_hex_def d(1) unat_drop_4)
  also have "\<dots> = unat h mod 16 ^ Suc k" by (simp add: mod_mult2_eq)
  finally show ?case using Suc.IH [of "drop_bit 4 h"] d(2) unfolding s by simp
qed (simp add: read_hex_def)

lemma intentHash_value:
  "length (intentHash s) = 16 \<and> set (intentHash s) \<subseteq> set hex_digits \<and>
   read_hex (intentHash s) = unat (foldl fnv64_step 14695981039346656037 s)"
proof -
  have "unat (h :: 64 word) mod 16 ^ 16 = unat h" for h
    using unsigned_less [where ?'a = nat and w = h] by simp
  with hex_loop_exact [of 16] show ?thesis unfolding intentHash_def by simp
qed

lemma intentHash_eq:
  "intentHash s = intentHash t \<longleftrightarrow>
   foldl fnv64_step 14695981039346656037 s = foldl fnv64_step 14695981039346656037 t"
  using intentHash_value [of s] intentHash_value [of t] by (metis intentHash_def word_unat_eq_iff)

text \<open>The prime is odd, so a step loses nothing.\<close>

lemma fnv_prime_inverse: "(1099511628211 :: 64 word) * 14886173955864302971 = 1"
  by simp

lemma fnv64_step_inject: "fnv64_step h c = fnv64_step h' c' \<longleftrightarrow> h XOR of_char c = h' XOR of_char c'"
proof -
  have "x = y" if "x * 1099511628211 = y * 1099511628211" for x y :: "64 word"
    using arg_cong [OF that, of "\<lambda>z. z * 14886173955864302971"]
    by (simp only: mult.assoc fnv_prime_inverse mult_1_right)
  then show ?thesis unfolding fnv64_step_def by (metis (no_types))
qed

lemma xor_cancel: "a XOR c = b XOR c \<longleftrightarrow> a = b" "c XOR a = c XOR b \<longleftrightarrow> a = b" for a b c :: "64 word"
proof -
  have c: "(x XOR c) XOR c = x" for x by (simp only: xor.assoc xor_self_eq xor.right_neutral)
  show "a XOR c = b XOR c \<longleftrightarrow> a = b" using arg_cong [of "a XOR c" "b XOR c" "\<lambda>x. x XOR c"] unfolding c by blast
  then show "c XOR a = c XOR b \<longleftrightarrow> a = b" by (simp only: xor.commute)
qed

lemma of_char_word_inject: "(of_char c :: 64 word) = of_char c' \<longleftrightarrow> c = c'"
proof -
  have "unat (of_char d :: 64 word) = of_char d" for d
  proof -
    have "(of_char d :: 64 word) = of_nat (of_char d)" by (simp only: of_nat_of_char)
    moreover have "(of_char d :: nat) < 2 ^ 64" by (rule less_trans [of _ 256]) simp_all
    ultimately show ?thesis by (simp add: unsigned_of_nat take_bit_eq_mod)
  qed
  then show ?thesis by (metis of_char_eq_iff)
qed

lemma foldl_fnv64_inject: "foldl fnv64_step h s = foldl fnv64_step h' s \<longleftrightarrow> h = h'"
  by (induction s arbitrary: h h') (simp_all add: fnv64_step_inject xor_cancel)


lemma shutdowns_installed:
  "shutdowns (Installed plan) tp cs st =
     (if os_done st then (map (\<lambda>c. None) cs, st)
      else (case cs of [] \<Rightarrow> ([], st)
        | c # cs' \<Rightarrow> (tp c # map (\<lambda>c. None) cs', \<lparr> os_done = True, os_shutdowns = os_shutdowns st @ [c] \<rparr>)))"
proof (induction cs arbitrary: st)
  case (Cons c cs)
  show ?case
    using Cons.IH [of st] Cons.IH [of "\<lparr> os_done = True, os_shutdowns = os_shutdowns st @ [c] \<rparr>"]
    by (simp add: shutdown_def)
qed simp

section \<open>Properties\<close>

text \<open>the fingerprint of an intent has 16 lowercase hexadecimal digits, which are those of its 64-bit
  FNV-1a hash. Intents that differ in their last byte only never share it, and appending the same
  text to two intents neither makes nor breaks a collision.\<close>

theorem intentHash_exact:
  "length (intentHash s) = 16 \<and> set (intentHash s) \<subseteq> set ''0123456789abcdef'' \<and>
   read_hex (intentHash s) =
     unat (foldl (\<lambda>h c. (h XOR of_char c) * 1099511628211) (14695981039346656037 :: 64 word) s) \<and>
   (intentHash (s @ [a]) = intentHash (s @ [b]) \<longleftrightarrow> a = b) \<and>
   (intentHash (s @ u) = intentHash (t @ u) \<longleftrightarrow> intentHash s = intentHash t)"
proof -
  have "fnv64_step = (\<lambda>h c. (h XOR of_char c) * 1099511628211)" by (intro ext) (simp add: fnv64_step_def)
  then show ?thesis
    using intentHash_value [of s] unfolding intentHash_eq hex_digits_def
    by (simp add: foldl_fnv64_inject fnv64_step_inject xor_cancel of_char_word_inject flip: fnv64_step_def)
qed

text \<open>a context span carries at most 259 bytes of the intent, a prefix of it, and the intent as a
  whole only when it is short; the fingerprint is that of the whole intent.\<close>

theorem context_span_bounded:
  "\<exists>txt. ss_attributes (StartContextSpan intent) =
     [(''clawd.acp.intent'', AString txt), (''clawd.acp.intent_hash'', AString (intentHash intent))] \<and>
   length txt \<le> 259 \<and> (\<exists>rest. txt = take 256 intent @ rest \<and> (rest = [] \<longleftrightarrow> length intent \<le> 256))"
  by (auto simp: StartContextSpan_def AttrCACPIntent_def AttrCACPIntentHash_def truncate_string_def ellipsis_def)

text \<open>the provider is shut down once. However often the function that \<open>Init\<close> returns is called, an
  installed provider is shut down exactly once, with the context of the first call, whose error that
  call reports; all other calls report none, and without a provider nothing is ever shut down.\<close>

theorem shutdown_once:
  assumes "Init fp getenv merge exporter cfg = Inr t"
  shows "case shutdowns t tp (c # cs) \<lparr> os_done = False, os_shutdowns = [] \<rparr> of (es, st) \<Rightarrow>
      if \<not> tc_disabled cfg \<and> coalesce (tc_otlp_endpoint cfg) (getenv ''OTEL_EXPORTER_OTLP_ENDPOINT'') \<noteq> []
      then es = tp c # map (\<lambda>c. None) cs \<and> os_shutdowns st = [c]
      else es = map (\<lambda>c. None) (c # cs) \<and> os_shutdowns st = []"
proof -
  have none: "shutdowns t tp cs st = (map (\<lambda>c. None) cs, st)" if "\<forall>plan. t \<noteq> Installed plan" for cs st
    using that by (induction cs arbitrary: st) (auto simp: shutdown_def split: tracing.splits)
  have "(\<exists>plan. t = Installed plan) \<longleftrightarrow> \<not> tc_disabled cfg \<and>
      coalesce (tc_otlp_endpoint cfg) (getenv ''OTEL_EXPORTER_OTLP_ENDPOINT'') \<noteq> []"
    using assms by (auto simp: Init_def Let_def split: if_splits option.splits)
  then show ?thesis
    using none [of "c # cs"] by (auto simp: shutdowns_installed simp del: shutdowns.simps)
qed

text \<open>the cut of \<open>truncate\<close> is made between bytes, not characters: an intent whose 256th byte starts a
  two-byte character is recorded with a lone lead byte before the ellipsis.\<close>

theorem truncate_splits_character:
  "truncate_string (replicate 255 CHR ''a'' @ [CHR 0xC3, CHR 0xA9]) 256 =
     replicate 255 CHR ''a'' @ [CHR 0xC3] @ ellipsis"
  by (simp add: truncate_string_def)

text \<open>an audit sequence number from \<open>2 ^ 63\<close> on is recorded as a negative number.\<close>

theorem audit_seq_wraps:
  assumes "sp_recording sp"
  shows "\<exists>sp'. LinkAuditEntry (Some sp) (2 ^ 64 - 1) [] = Some sp' \<and>
    sp_calls sp' = sp_calls sp @ [SetAttribute AttrCAuditSeq (AInt (- 1))]"
  using assms by (simp add: LinkAuditEntry_def SetAttributes_def)

theorem audit_seq_wraps_witness:
  "\<exists>sp'. LinkAuditEntry (Some \<lparr> sp_recording = True, sp_calls = [] \<rparr>) (2 ^ 64 - 1) [] = Some sp' \<and>
    sp_calls sp' = [SetAttribute AttrCAuditSeq (AInt (- 1))]"
  using audit_seq_wraps [of "\<lparr> sp_recording = True, sp_calls = [] \<rparr>"] by simp

section \<open>Witnesses\<close>

definition demo_trace :: "real trace_config" where
  "demo_trace = \<lparr> tc_service_name = [], tc_service_version = [], tc_environment = [],
     tc_otlp_endpoint = ''localhost:4317'', tc_insecure = False, tc_sampler_ratio = 1 / 2, tc_disabled = False \<rparr>"

theorem shutdown_once_witness:
  "\<exists>plan. Init real_ops (\<lambda>n. []) (\<lambda>r. None) (\<lambda>e i. None) demo_trace = Inr (Installed plan) \<and>
     tp_insecure plan \<and> tp_sampler plan = ParentBasedRatio (1 / 2) \<and>
     fst (shutdowns (Installed plan) (\<lambda>c. Some (Errorf c)) [''a'', ''b''] \<lparr> os_done = False, os_shutdowns = [] \<rparr>) =
       [Some (Errorf ''a''), None]"
proof -
  obtain plan where i: "Init real_ops (\<lambda>n. []) (\<lambda>r. None) (\<lambda>e i. None) demo_trace = Inr (Installed plan)"
      and p: "tp_insecure plan" "tp_sampler plan = ParentBasedRatio (1 / 2)"
    by (simp add: Init_def demo_trace_def coalesce_def Let_def isLocalEndpoint_def sampler_of_def)
  show ?thesis
    using shutdown_once [OF i, of "\<lambda>c. Some (Errorf c)" "''a''" "[''b'']"] p
    by (intro exI [of _ plan] conjI i) (simp_all add: demo_trace_def coalesce_def case_prod_unfold)
qed

end
