(* ===== verification/JsonValue.thy ===== *)
theory JsonValue
  imports JsonCodec
begin

text \<open>
  JSON values of no fixed type: what \<open>encoding/json\<close> makes of an \<open>interface{}\<close> (maps lose the order of
  their keys, numbers become a \<open>float64\<close> or, with \<open>UseNumber\<close>, stay as they are) and what it writes for
  one; and raw messages, which keep their text.
\<close>

section \<open>Raw messages\<close>

text \<open>A raw message by its value: members in their order, numbers by their literals.\<close>

fun raw_value :: "jtree \<Rightarrow> json" where
  "raw_value (JtLit l) =
     (if l = ''null'' then JNull else if l = ''true'' then JBool True else if l = ''false'' then JBool False
      else JNum l)"
| "raw_value (JtStr r) = JStr (unquote r)"
| "raw_value (JtArr ts) = JArr (map raw_value ts)"
| "raw_value (JtObj kvs) = JObj (map (\<lambda>(k, t). (unquote k, raw_value t)) kvs)"

text \<open>The tree of a value; \<open>num\<close> writes the numbers. The keys of a Go map are written in their order, so
  the values made of maps list them in that order.\<close>

fun value_tree :: "(string \<Rightarrow> string) \<Rightarrow> json \<Rightarrow> jtree" where
  "value_tree num JNull = enc_null"
| "value_tree num (JBool b) = enc_bool b"
| "value_tree num (JNum n) = JtLit (num n)"
| "value_tree num (JStr s) = enc_string s"
| "value_tree num (JArr xs) = JtArr (map (value_tree num) xs)"
| "value_tree num (JObj m) = JtObj (map (\<lambda>(k, j). (quote k, value_tree num j)) m)"

definition raw_tree :: "json \<Rightarrow> jtree" where
  "raw_tree = value_tree id"

text \<open>The text of a raw message is written as it is, but for the characters that are not safe in HTML
  or JavaScript (\<open>appendCompact\<close> with escaping).\<close>

function html_escape :: "string \<Rightarrow> string" where
  "html_escape s =
     (case s of
        [] \<Rightarrow> []
      | c # cs \<Rightarrow>
          if c = CHR ''<'' \<or> c = CHR ''>'' \<or> c = CHR ''&'' then quote_byte c @ html_escape cs
          else if take 3 s = [CHR 0xE2, CHR 0x80, CHR 0xA8] \<or> take 3 s = [CHR 0xE2, CHR 0x80, CHR 0xA9] then
            quote_rune (take 3 s) @ html_escape (drop 3 s)
          else c # html_escape cs)"
  by pat_completeness auto
termination by (relation "measure length") auto

declare html_escape.simps [simp del]

lemma html_escape_Nil [simp]: "html_escape [] = []" by (simp add: html_escape.simps)

fun html_tree :: "jtree \<Rightarrow> jtree" where
  "html_tree (JtLit l) = JtLit l"
| "html_tree (JtStr r) = JtStr (html_escape r)"
| "html_tree (JtArr ts) = JtArr (map html_tree ts)"
| "html_tree (JtObj kvs) = JtObj (map (\<lambda>(k, t). (html_escape k, html_tree t)) kvs)"

lemma html_escape_safe:
  "list_all (\<lambda>c. c \<notin> {CHR ''<'', CHR ''>'', CHR ''&'', CHR 0xE2}) p \<Longrightarrow> html_escape (p @ r) = p @ html_escape r"
proof (induction p)
  case (Cons c p)
  then show ?case by (subst append_Cons, subst html_escape.simps) simp
qed simp

lemma scan_escape_safe:
  assumes "scan_escape s = Some (e, q)"
  shows "list_all (\<lambda>c. c \<notin> {CHR ''<'', CHR ''>'', CHR ''&'', CHR 0xE2}) e \<and> scans_over (CHR 0x5C # e)"
proof -
  obtain d ds where s: "s = d # ds" using assms by (cases s) (auto simp: scan_escape_def)
  have hex: "\<not> hex_digit c" if "c \<in> {CHR ''<'', CHR ''>'', CHR ''&'', CHR 0xE2}" for c
    using that by (elim insertE emptyE) (simp_all only:, code_simp+)
  show ?thesis
  proof (cases "simple_escape d")
    case True
    with assms scans_over_escape [of d] show ?thesis
      by (auto simp: s scan_escape_def simple_escape_def)
  next
    case False
    with assms have e: "e = CHR ''u'' # take 4 ds" "length (take 4 ds) = 4" "list_all hex_digit (take 4 ds)"
      by (auto simp: s scan_escape_def split: if_splits)
    have "list_all (\<lambda>c. c \<notin> {CHR ''<'', CHR ''>'', CHR ''&'', CHR 0xE2}) (take 4 ds)"
      using e(3) hex by (auto simp: list_all_iff)
    with scans_over_u [OF e(2,3)] e(1) show ?thesis by simp
  qed
qed

lemma scans_over_rune: "scans_over (CHR 0x5C # ''u2028'')" "scans_over (CHR 0x5C # ''u2029'')"
  by (rule scans_over_u; code_simp)+

lemma scans_over_html: "scan_string s = Some (r, q) \<Longrightarrow> scans_over (html_escape r)"
proof (induction s arbitrary: r q rule: measure_induct_rule [of length])
  case (less s)
  obtain c cs where s: "s = c # cs" using less.prems by (cases s) (simp_all add: scan_string.simps)
  consider (quote) "c = CHR 0x22" | (escape) "c = CHR 0x5C" | (plain) "c \<noteq> CHR 0x22" "c \<noteq> CHR 0x5C" by blast
  then show ?case
  proof cases
    case quote
    then have "scan_string s = Some ([], cs)" by (simp add: s scan_string.simps [of "CHR 0x22 # cs"])
    then show ?thesis using less.prems by (simp add: scans_over_Nil)
  next
    case escape
    then obtain e z r1 where e: "scan_escape cs = Some (e, z)" "scan_string z = Some (r1, q)" "r = c # e @ r1"
      using less.prems by (auto simp: s scan_string.simps [of "CHR 0x5C # cs"] split: option.splits)
    note safe = scan_escape_safe [OF e(1)]
    have "length z < length s" using scan_escape_split [OF e(1)] by (simp add: s)
    from less.IH [OF this e(2)] have "scans_over (html_escape r1)" .
    moreover have "html_escape r = (c # e) @ html_escape r1"
      using safe escape html_escape_safe [of "c # e" r1] by (simp add: e(3))
    ultimately show ?thesis using safe escape scans_over_append [of "c # e"] by simp
  next
    case plain
    then obtain r1 where r1: "scan_string cs = Some (r1, q)" "r = c # r1" "\<not> c < CHR 0x20"
      using less.prems by (auto simp: s scan_string.simps [of "c # cs"] split: if_splits)
    have IH: "scans_over (html_escape r1)" using less.IH [OF _ r1(1)] by (simp add: s)
    show ?thesis
    proof (cases "take 3 r = [CHR 0xE2, CHR 0x80, CHR 0xA8] \<or> take 3 r = [CHR 0xE2, CHR 0x80, CHR 0xA9]")
      case True
      then obtain x r2 where r2: "r = CHR 0xE2 # CHR 0x80 # x # r2" "x = CHR 0xA8 \<or> x = CHR 0xA9"
        by (cases r; cases "tl r"; cases "tl (tl r)") auto
      have "cs = CHR 0x80 # x # r2 @ CHR 0x22 # q"
        using scan_string_split [OF less.prems] r2 by (simp add: s)
      moreover have "scan_string cs = Some (CHR 0x80 # x # r2, q)" using r1 r2 by simp
      ultimately have "scan_string (r2 @ CHR 0x22 # q) = Some (r2, q)"
        using r2(2) by (auto simp: scan_string.simps [of "_ # _ # _"] scan_string.simps [of "_ # _ @ _"])
      then have "scans_over (html_escape r2)"
        using \<open>cs = _\<close> by (intro less.IH [of "r2 @ CHR 0x22 # q" r2 q]) (simp_all add: s)
      moreover have "html_escape r = quote_rune (take 3 r) @ html_escape r2"
        using True r2 by (subst html_escape.simps) auto
      moreover have "scans_over (quote_rune (take 3 r))"
        using True scans_over_rune by (auto simp: quote_rune_def)
      ultimately show ?thesis using scans_over_append by simp
    next
      case False
      then have "html_escape r = (if c \<in> {CHR ''<'', CHR ''>'', CHR ''&''} then quote_byte c else [c]) @ html_escape r1"
        using r1(2) by (subst html_escape.simps) auto
      moreover have "byte c < 0x80" if "c \<in> {CHR ''<'', CHR ''>'', CHR ''&''}" using that by auto
      ultimately show ?thesis
        using IH scans_over_append scans_over_byte [OF plain r1(3)] scans_over_quote_byte [of c] by auto
    qed
  qed
qed

lemma string_ok_html: "string_ok r \<Longrightarrow> string_ok (html_escape r)"
proof -
  assume "string_ok r"
  then have "scans_over (html_escape r)"
    using scans_over_html [of "r @ [CHR 0x22]" r "[]"] by (simp add: string_ok_def)
  then show ?thesis by (simp add: string_ok_def scans_over_def scan_string.simps [of "[CHR 0x22]"])
qed

lemma depth_html: "depth (html_tree t) = depth t"
proof (induction t)
  case (JtArr ts)
  then have "map depth (map html_tree ts) = map depth ts" by simp
  then show ?case by (simp only: html_tree.simps depth.simps)
next
  case (JtObj kvs)
  then have "map (\<lambda>(k, t). depth t) (map (\<lambda>(k, t). (html_escape k, html_tree t)) kvs) = map (\<lambda>(k, t). depth t) kvs"
    by (auto simp: case_prod_unfold)
  then show ?case by (simp only: html_tree.simps depth.simps)
qed simp_all

lemma good_html: "good d t \<Longrightarrow> good d (html_tree t)"
proof -
  have "wf_tree t \<Longrightarrow> wf_tree (html_tree t)"
    by (induction t) (auto simp: list_all_iff string_ok_html)
  then show "good d t \<Longrightarrow> ?thesis" by (simp add: good_def depth_html)
qed

section \<open>Values of interface type\<close>

text \<open>\<open>num\<close> reads a number; one out of range is an error that leaves nil. The later of two members with
  the same key wins.\<close>

definition go_map :: "(string \<times> 'v) list \<Rightarrow> (string \<times> 'v) list" where
  "go_map kvs = sort_key fst (fold (\<lambda>(k, v). AList.update k v) kvs [])"

fun iface_value :: "(string \<Rightarrow> string option) \<Rightarrow> jtree \<Rightarrow> json" where
  "iface_value num (JtLit l) =
     (if l = ''null'' then JNull else if l = ''true'' then JBool True else if l = ''false'' then JBool False
      else (case num l of None \<Rightarrow> JNull | Some n \<Rightarrow> JNum n))"
| "iface_value num (JtStr r) = JStr (unquote r)"
| "iface_value num (JtArr ts) = JArr (map (iface_value num) ts)"
| "iface_value num (JtObj kvs) = JObj (go_map (map (\<lambda>(k, t). (unquote k, iface_value num t)) kvs))"

fun iface_error :: "(string \<Rightarrow> string option) \<Rightarrow> jtree \<Rightarrow> bool" where
  "iface_error num (JtLit l) = (l \<notin> {''null'', ''true'', ''false''} \<and> num l = None)"
| "iface_error num (JtStr r) = False"
| "iface_error num (JtArr ts) = list_ex (iface_error num) ts"
| "iface_error num (JtObj kvs) = list_ex (\<lambda>(k, t). iface_error num t) kvs"

definition dec_iface :: "(string \<Rightarrow> string option) \<Rightarrow> json dec" where
  "dec_iface num t old = (iface_value num t, iface_error num t)"

text \<open>A \<open>map[string]interface{}\<close>; nil is \<open>JNull\<close>.\<close>

definition dec_iface_map :: "(string \<Rightarrow> string option) \<Rightarrow> json dec" where
  "dec_iface_map num t old =
     (if is_null t then (JNull, False)
      else (case t of
          JtObj kvs \<Rightarrow>
            (JObj (go_map ((case old of JObj m \<Rightarrow> m | _ \<Rightarrow> []) @
               map (\<lambda>(k, t). (unquote k, iface_value num t)) kvs)), iface_error num t)
        | _ \<Rightarrow> (old, True)))"

text \<open>\<open>float64\<close>: what \<open>ParseFloat\<close> and \<open>%v\<close> make of a literal, \<open>None\<close> out of range, and how the encoder
  writes the number.\<close>

record float_text =
  ft_read :: "string \<Rightarrow> string option"
  ft_write :: "string \<Rightarrow> string"

section \<open>Values that survive\<close>

text \<open>Strings of UTF-8, numbers that \<open>num\<close> writes and \<open>rd\<close> reads, and not too deep.\<close>

fun value_ok :: "(string \<Rightarrow> string) \<Rightarrow> (string \<Rightarrow> string option) \<Rightarrow> json \<Rightarrow> bool" where
  "value_ok num rd JNull = True"
| "value_ok num rd (JBool b) = True"
| "value_ok num rd (JNum n) = (literal_ok (num n) \<and> num n \<notin> {''null'', ''true'', ''false''} \<and> rd (num n) = Some n)"
| "value_ok num rd (JStr s) = valid_utf8 s"
| "value_ok num rd (JArr xs) = list_all (value_ok num rd) xs"
| "value_ok num rd (JObj m) = list_all (\<lambda>(k, j). valid_utf8 k \<and> value_ok num rd j) m"

text \<open>Every map in its canonical form.\<close>

fun canonical :: "json \<Rightarrow> bool" where
  "canonical (JArr xs) = list_all canonical xs"
| "canonical (JObj m) = (sorted (map fst m) \<and> distinct (map fst m) \<and> list_all (\<lambda>(k, j). canonical j) m)"
| "canonical j = True"

fun json_depth :: "json \<Rightarrow> nat" where
  "json_depth (JArr xs) = Suc (fold max (map json_depth xs) 0)"
| "json_depth (JObj m) = Suc (fold max (map (\<lambda>(k, j). json_depth j) m) 0)"
| "json_depth j = 0"

lemma valid_utf8_step:
  assumes "valid_utf8 (c # cs)"
  shows "rune_len (c # cs) \<noteq> 0 \<and> valid_utf8 (drop (rune_len (c # cs)) (c # cs))"
proof -
  let ?s = "c # cs"
  have eq: "(if rune_len ?s = 0 then RuneError @ ToValidUTF8 cs
      else take (rune_len ?s) ?s @ ToValidUTF8 (drop (rune_len ?s) ?s)) = ?s"
    using assms unfolding valid_utf8_def by (subst (asm) ToValidUTF8.simps) simp
  have "rune_len ?s \<noteq> 0"
  proof
    assume z: "rune_len ?s = 0"
    have "rune_len RuneError = 3" by code_simp
    then have "rune_len (RuneError @ ToValidUTF8 cs) = 3"
      using rune_len_take [of RuneError "ToValidUTF8 cs"] by (simp add: RuneError_def)
    with eq z show False by simp
  qed
  moreover have "take (rune_len ?s) ?s @ ToValidUTF8 (drop (rune_len ?s) ?s) =
      take (rune_len ?s) ?s @ drop (rune_len ?s) ?s"
    using eq calculation by (simp only: append_take_drop_id if_False)
  ultimately show ?thesis unfolding valid_utf8_def by (simp only: append_same_eq same_append_eq simp_thms)
qed

lemma valid_append: "valid_utf8 a \<Longrightarrow> valid_utf8 b \<Longrightarrow> valid_utf8 (a @ b)"
proof (induction a rule: measure_induct_rule [of length])
  case (less a)
  show ?case
  proof (cases a)
    case (Cons c cs)
    define n where "n = rune_len a"
    have n: "n \<noteq> 0" "valid_utf8 (drop n a)" "n \<le> length a"
      using valid_utf8_step [of c cs] less.prems(1) rune_len_le [of a] by (simp_all add: Cons n_def)
    have "rune_len (a @ b) = n"
      using rune_len_take [of a "drop n a @ b"] n(1) by (simp flip: n_def append_assoc)
    moreover have "valid_utf8 (drop n a @ b)"
      using n Cons by (intro less.IH less.prems(2)) auto
    moreover have "ToValidUTF8 (a @ b) = take n (a @ b) @ ToValidUTF8 (drop n (a @ b))"
      using n(1) \<open>rune_len (a @ b) = n\<close> by (subst ToValidUTF8.simps) (simp add: Cons)
    moreover have "drop n (a @ b) = drop n a @ b" using n(3) by simp
    ultimately show ?thesis using n(3) by (simp add: valid_utf8_def)
  qed (use less.prems in simp)
qed

lemma unquote_quote_valid: "valid_utf8 s \<Longrightarrow> unquote (quote s) = s"
  by (simp add: unquote_quote valid_utf8_def)

lemma depth_value_tree: "depth (value_tree num j) = json_depth j"
proof (induction j)
  case (JArr xs)
  then have "map depth (map (value_tree num) xs) = map json_depth xs" by simp
  then show ?case by (simp only: value_tree.simps depth.simps json_depth.simps)
next
  case (JObj m)
  then have "map (\<lambda>(k, t). depth t) (map (\<lambda>(k, j). (quote k, value_tree num j)) m) = map (\<lambda>(k, j). json_depth j) m"
    by (auto simp: case_prod_unfold)
  then show ?case by (simp only: value_tree.simps depth.simps json_depth.simps)
qed (simp_all add: enc_null_def enc_bool_def enc_string_def)

lemma good_value:
  assumes "value_ok num rd j" and "json_depth j \<le> d" shows "good d (value_tree num j)"
proof -
  have "wf_tree (value_tree num j)"
    using assms(1)
  proof (induction j)
    case (JObj m)
    then show ?case by (auto simp: list_all_iff string_ok_quote)
  qed (use good_null good_bool good_string in \<open>auto simp: good_def list_all_iff\<close>)
  with assms(2) show ?thesis by (simp add: good_def depth_value_tree)
qed

text \<open>Without numbers every value can be written.\<close>

fun no_numbers :: "json \<Rightarrow> bool" where
  "no_numbers (JNum n) = False"
| "no_numbers (JArr xs) = list_all no_numbers xs"
| "no_numbers (JObj m) = list_all (\<lambda>(k, j). no_numbers j) m"
| "no_numbers j = True"

lemma good_no_numbers:
  assumes "no_numbers j" and "json_depth j \<le> d" shows "good d (raw_tree j)"
proof -
  have "wf_tree (raw_tree j)"
    using assms(1)
  proof (induction j)
    case (JObj m)
    then show ?case by (fastforce simp: raw_tree_def list_all_iff string_ok_quote)
  qed (use good_null good_bool good_string in \<open>auto simp: good_def raw_tree_def list_all_iff\<close>)
  with assms(2) show ?thesis by (simp add: good_def raw_tree_def depth_value_tree)
qed

lemma raw_value_tree: "value_ok id Some j \<Longrightarrow> raw_value (raw_tree j) = j"
proof (induction j)
  case (JObj m)
  then show ?case
    by (auto simp: raw_tree_def list_all_iff unquote_quote_valid intro!: map_idI)
qed (auto simp: raw_tree_def enc_null_def enc_bool_def enc_string_def list_all_iff unquote_quote_valid
    intro!: map_idI)

lemma fold_update_distinct:
  "distinct (map fst m) \<Longrightarrow> set (map fst m) \<inter> fst ` set acc = {} \<Longrightarrow>
     fold (\<lambda>(k, v). AList.update k v) m acc = acc @ m"
proof (induction m arbitrary: acc)
  case (Cons kv m)
  obtain k v where kv: "kv = (k, v)" by (cases kv)
  have "AList.update k v acc = acc @ [(k, v)]"
    using Cons.prems(2) by (intro update_new) (auto simp: kv)
  with Cons.IH [of "acc @ [(k, v)]"] Cons.prems show ?case by (auto simp: kv)
qed simp

lemma go_map_canonical: "sorted (map fst m) \<Longrightarrow> distinct (map fst m) \<Longrightarrow> go_map m = m"
  using fold_update_distinct [of m "[]"] by (simp add: go_map_def sort_key_id)

lemma iface_value_tree:
  "value_ok num rd j \<Longrightarrow> canonical j \<Longrightarrow>
     iface_value rd (value_tree num j) = j \<and> \<not> iface_error rd (value_tree num j)"
proof (induction j)
  case (JArr xs)
  then show ?case by (auto simp: list_all_iff list_ex_iff intro!: map_idI)
next
  case (JObj m)
  have "iface_value rd (value_tree num j) = j \<and> \<not> iface_error rd (value_tree num j) \<and> unquote (quote k) = k"
    if "(k, j) \<in> set m" for k j
    using JObj.IH [of "(k, j)" j] JObj.prems that by (fastforce simp: list_all_iff unquote_quote_valid)
  then have m: "map (\<lambda>(k, t). (unquote k, iface_value rd t)) (map (\<lambda>(k, j). (quote k, value_tree num j)) m) = m"
    and e: "\<not> list_ex (\<lambda>(k, t). iface_error rd t) (map (\<lambda>(k, j). (quote k, value_tree num j)) m)"
    by (auto simp: list_ex_iff case_prod_unfold intro!: map_idI)
  have "go_map m = m" using JObj.prems(2) by (intro go_map_canonical) simp_all
  with m e show ?case by (simp only: value_tree.simps iface_value.simps iface_error.simps simp_thms)
qed (auto simp: enc_null_def enc_bool_def enc_string_def unquote_quote_valid)

end
