(* ===== verification/JsonRpc.thy ===== *)
theory JsonRpc
  imports JsonValue LineScanner
begin

text \<open>
  What the JSON-RPC endpoints of the repository share: raw fields, fields that only have to have the
  right type, the version, ids that are passed on as they came, and lines that hold one message.
\<close>

section \<open>Fields\<close>

text \<open>A raw field, set by any value; and a field that only has to have the right type.\<close>

definition dec_raw_option :: "string option dec" where
  "dec_raw_option t old = (Some (tree_text t), False)"

definition dec_ignored :: "'b dec \<Rightarrow> 'b \<Rightarrow> 'a dec" where
  "dec_ignored d zero t a = (a, snd (d t zero))"

text \<open>The first field of every message.\<close>

definition version_field :: "string \<times> jtree option" where
  "version_field = (''jsonrpc'', Some (enc_string ''2.0''))"

section \<open>Tags\<close>

lemma folded_rpc_tags:
  "fold_name ''jsonrpc'' = ''JSONRPC''" "fold_name ''id'' = ''ID''" "fold_name ''method'' = ''METHOD''"
  "fold_name ''params'' = ''PARAMS''" "fold_name ''result'' = ''RESULT''" "fold_name ''error'' = ''ERROR''"
  "fold_name ''code'' = ''CODE''" "fold_name ''message'' = ''MESSAGE''" "fold_name ''name'' = ''NAME''"
  "fold_name ''arguments'' = ''ARGUMENTS''"
  by code_simp+

lemma valid_rpc_tags:
  "list_all valid_utf8 [''jsonrpc'', ''id'', ''method'', ''params'', ''result'', ''error'', ''code'', ''message'',
     ''name'', ''arguments'', ''2.0'']"
proof -
  have "list_all ascii [''jsonrpc'', ''id'', ''method'', ''params'', ''result'', ''error'', ''code'', ''message'',
     ''name'', ''arguments'', ''2.0'']"
    by code_simp
  then show ?thesis by (rule list.pred_mono_strong) (rule ascii_valid)
qed

lemmas rpc_tag_facts = folded_rpc_tags valid_rpc_tags [simplified]

lemma dec_ignored_enc: "snd (d t zero) = False \<Longrightarrow> dec_ignored d zero t a = (a, False)"
  by (simp add: dec_ignored_def)

lemma version_decodes: "dec_ignored dec_string [] (enc_string ''2.0'') a = (a, False)"
  by (simp add: dec_ignored_def dec_enc_string valid_rpc_tags [simplified])

section \<open>What decoding keeps\<close>

text \<open>Every value a decoder of structs has gone through satisfies what each field keeps.\<close>

fun members :: "jtree \<Rightarrow> (string \<times> jtree) list" where
  "members (JtObj kvs) = kvs"
| "members t = []"

lemma dec_struct_inv:
  assumes "I old" and "\<And>f k v a. f \<in> set fs \<Longrightarrow> (k, v) \<in> set (members t) \<Longrightarrow>
      fold_name (fst f) = fold_name (unquote k) \<Longrightarrow> I a \<Longrightarrow> I (fst (snd f v a))"
  shows "I (fst (dec_struct fs t old))"
proof (cases t)
  case (JtObj kvs)
  let ?step = "\<lambda>(k, v) (a, e). (case find (\<lambda>f. fold_name (fst f) = fold_name (unquote k)) fs of
      None \<Rightarrow> (a, e) | Some f \<Rightarrow> (case snd f v a of (a', e') \<Rightarrow> (a', e \<or> e')))"
  have "I (fst (fold ?step ms (a, e)))" if "set ms \<subseteq> set kvs" "I a" for ms a e
    using that
  proof (induction ms arbitrary: a e)
    case (Cons m ms)
    obtain k v where m: "m = (k, v)" by (cases m)
    have "I (fst (?step m (a, e)))"
    proof (cases "find (\<lambda>f. fold_name (fst f) = fold_name (unquote k)) fs")
      case (Some f)
      then have "f \<in> set fs" "fold_name (fst f) = fold_name (unquote k)" by (auto simp: find_Some_iff)
      with assms(2) [of f k v a] Cons.prems Some JtObj show ?thesis
        by (auto simp: m case_prod_unfold)
    qed (use Cons.prems in \<open>simp add: m\<close>)
    with Cons.IH [of "fst (?step m (a, e))" "snd (?step m (a, e))"] Cons.prems(1) show ?case
      by simp
  qed simp
  from this [of kvs old False] assms(1) show ?thesis by (simp add: dec_struct_def JtObj)
qed (use assms(1) in \<open>auto simp: dec_struct_def\<close>)

section \<open>Ids\<close>

text \<open>The texts of values that a decoder found inside another.\<close>

definition written_id :: "string \<Rightarrow> bool" where
  "written_id s \<longleftrightarrow> (\<exists>t. good 9999 t \<and> s = tree_text t)"

lemma good_members:
  "good (Suc d) t \<Longrightarrow> (k, v) \<in> set (members t) \<Longrightarrow> good d v"
  by (cases t) (auto simp: good_Obj list_all_iff)

lemma written_id_parse:
  assumes "written_id s" shows "\<exists>t. parse_tree s = Some t \<and> good 9999 t \<and> s \<noteq> []"
proof -
  obtain t where t: "good 9999 t" "s = tree_text t" using assms by (auto simp: written_id_def)
  then have p: "parse_tree s = Some t" using parse_tree_text(1) [of t] by (simp add: good_def maxNestingDepth_def)
  moreover have "parse_tree [] = None" by code_simp
  ultimately show ?thesis using t(1) by (cases s) auto
qed

lemma written_member: "parse_tree s = Some t \<Longrightarrow> (k, v) \<in> set (members t) \<Longrightarrow> written_id (tree_text v)"
  using parse_tree_wf [of s t] good_members [of 9999 t k v] by (auto simp: written_id_def good_def maxNestingDepth_def)

section \<open>Lines\<close>

text \<open>A line that is a JSON object whose first member is the version.\<close>

definition framed :: "string \<Rightarrow> bool" where
  "framed line \<longleftrightarrow> (case parse_tree line of
     Some (JtObj (kv # kvs)) \<Rightarrow> kv = (''jsonrpc'', JtStr ''2.0'') | _ \<Rightarrow> False)"

lemma version_first: "\<exists>kvs. enc_struct (version_field # fs) = JtObj ((''jsonrpc'', JtStr ''2.0'') # kvs)"
proof -
  have "quote ''jsonrpc'' = ''jsonrpc''" "quote ''2.0'' = ''2.0''" by code_simp+
  then show ?thesis by (simp add: version_field_def enc_struct_def map_filter_simps enc_string_def)
qed

lemma good_version: "(k, Some t) = version_field \<Longrightarrow> good d t"
  by (auto simp: version_field_def good_string)

lemma framed_Marshal:
  assumes "good maxNestingDepth (enc_struct (version_field # fs))"
  shows "framed (Marshal (enc_struct (version_field # fs)) @ [CHR 0x0A]) \<and>
    CHR 0x0A \<notin> set (Marshal (enc_struct (version_field # fs)))"
proof -
  let ?t = "enc_struct (version_field # fs)"
  obtain kvs where "?t = JtObj ((''jsonrpc'', JtStr ''2.0'') # kvs)" using version_first by blast
  moreover have "parse_tree (tree_text ?t @ [CHR 0x0A]) = Some ?t"
    using assms by (simp add: good_def parse_tree_text)
  ultimately have "framed (tree_text ?t @ [CHR 0x0A])" by (simp add: framed_def)
  moreover have "CHR 0x0A \<notin> set (tree_text ?t)"
    using Marshal_printed [OF assms] by (auto simp: Marshal_def printed_no_newline)
  ultimately show ?thesis by (simp add: Marshal_def)
qed

text \<open>A stream of such lines.\<close>

lemma stream_lines_concat:
  "list_all (\<lambda>d. CHR 0x0A \<notin> set d) ds \<Longrightarrow>
     stream_lines (concat (map (\<lambda>d. d @ [CHR 0x0A]) ds)) = map (\<lambda>d. d @ [CHR 0x0A]) ds"
  by (induction ds) (simp_all add: stream_lines_line)

end
