(* ===== verification/BridgeJson.thy ===== *)
theory BridgeJson
  imports BridgeSession JsonRpc
begin

text \<open>
  The JSON-RPC messages of \<open>internal/bridge\<close> and \<open>internal/mcpclient\<close> as text: the structs with their
  tags, and the bridge and its client as programs on bytes. A raw message that is only passed on or
  decoded again is kept as text without white space; a raw result is kept by its value.
\<close>

section \<open>Decoding\<close>


definition zero_rpc_request :: rpc_request where
  "zero_rpc_request = \<lparr> rpc_request_id = None, rpc_method = [], rpc_params = None \<rparr>"

definition dec_rpc_request :: "rpc_request dec" where
  "dec_rpc_request = dec_struct
     [(''jsonrpc'', dec_ignored dec_string []),
      (''id'', dec_field rpc_request_id rpc_request_id_update dec_raw_option),
      (''method'', dec_field rpc_method rpc_method_update dec_string),
      (''params'', dec_field rpc_params rpc_params_update dec_raw_option)]"

definition rpc_parse :: "json_errors \<Rightarrow> string \<Rightarrow> error + rpc_request" where
  "rpc_parse je = Unmarshal je dec_rpc_request zero_rpc_request"

text \<open>\<open>toolsCallParams\<close>; missing parameters are the empty text.\<close>

definition dec_call_params :: "(string \<Rightarrow> string option) \<Rightarrow> (string \<times> json) dec" where
  "dec_call_params num = dec_struct
     [(''name'', dec_field fst apfst dec_string),
      (''arguments'', dec_field snd apsnd (dec_iface_map num))]"

definition call_decode :: "json_errors \<Rightarrow> float_text \<Rightarrow> string option \<Rightarrow> error + string \<times> json" where
  "call_decode je ft params =
     Unmarshal je (dec_call_params (ft_read ft)) ([], JNull) (case params of None \<Rightarrow> [] | Some s \<Rightarrow> s)"




section \<open>Encoding\<close>

text \<open>A raw id is compacted; one that is no JSON is an error of the encoder, an empty one is left out.\<close>

definition enc_id :: "rpc_id \<Rightarrow> jtree option option" where
  "enc_id i =
     (case i of None \<Rightarrow> Some None
      | Some s \<Rightarrow> if s = [] then Some None else map_option (Some \<circ> html_tree) (parse_tree s))"

fun enc_message :: "rpc_message \<Rightarrow> jtree option" where
  "enc_message (RpcResult i v) =
     map_option (\<lambda>idt. enc_struct [version_field, (''id'', idt), (''result'', Some (raw_tree v))]) (enc_id i)"
| "enc_message (RpcError i code msg) =
     map_option (\<lambda>idt. enc_struct [version_field, (''id'', idt),
       (''error'', Some (enc_struct [(''code'', Some (enc_int code)), (''message'', Some (enc_string msg))]))])
       (enc_id i)"
| "enc_message (RpcNotification meth) = Some (enc_struct [version_field, (''method'', Some (enc_string meth))])"

definition rpc_marshal :: "rpc_message \<Rightarrow> error + string" where
  "rpc_marshal m =
     (case enc_message m of
        None \<Rightarrow> Inl (Errorf ''json: error calling MarshalJSON for type json.RawMessage'')
      | Some t \<Rightarrow> Inr (Marshal t))"



section \<open>The decoders on what is written\<close>





section \<open>What the bridge writes\<close>

text \<open>The form of a message and of a bridge that only writes such messages, for a kind of ids, of texts
  and of values up to a depth.\<close>

definition message_form ::
    "(string \<Rightarrow> bool) \<Rightarrow> (string \<Rightarrow> bool) \<Rightarrow> (nat \<Rightarrow> json \<Rightarrow> bool) \<Rightarrow> rpc_message \<Rightarrow> bool" where
  "message_form is_id is_text is_value m =
     (case m of
        RpcResult i v \<Rightarrow> pred_option is_id i \<and> is_value 9999 v
      | RpcError i code msg \<Rightarrow> pred_option is_id i \<and> int64 code \<and> is_text msg
      | RpcNotification meth \<Rightarrow> meth = ''notifications/tools/list_changed'')"

definition bridge_form :: "(string \<Rightarrow> bool) \<Rightarrow> (nat \<Rightarrow> json \<Rightarrow> bool) \<Rightarrow> bridge \<Rightarrow> bool" where
  "bridge_form is_text is_value b \<longleftrightarrow>
     (\<forall>(i, t) \<in> set (br_reg b). is_value 9997 (toolToMCP t)) \<and>
     (\<forall>(n, ds) \<in> set (br_tools b). is_text (ds_source_name ds) \<and> is_text (ds_tool_name ds)) \<and>
     pred_option (\<lambda>call. \<forall>source tool args. (case call source tool args of
         Inl e \<Rightarrow> is_text (Error e) | Inr v \<Rightarrow> is_value 9999 (raw_json v))) (br_forward b)"

text \<open>What the handlers need of texts and values to keep the form.\<close>

locale reply_form =
  fixes is_text :: "string \<Rightarrow> bool" and is_value :: "nat \<Rightarrow> json \<Rightarrow> bool"
  assumes ascii_text: "ascii s \<Longrightarrow> is_text s"
    and append_text: "is_text s \<Longrightarrow> is_text s' \<Longrightarrow> is_text (s @ s')"
    and value_str: "is_text s \<Longrightarrow> is_value d (JStr s)"
    and value_bool: "is_value d (JBool x)"
    and value_arr: "(\<And>v. v \<in> set vs \<Longrightarrow> is_value d v) \<Longrightarrow> is_value (Suc d) (JArr vs)"
    and value_obj: "(\<And>k v. (k, v) \<in> set kvs \<Longrightarrow> is_text k \<and> is_value d v) \<Longrightarrow> is_value (Suc d) (JObj kvs)"
    and value_mono: "is_value d v \<Longrightarrow> d \<le> d' \<Longrightarrow> is_value d' v"
begin

lemma words:
  "is_text ''tools''" "is_text ''content''" "is_text ''isError''" "is_text ''text''" "is_text ''type''"
  "is_text ''capabilities''" "is_text ''listChanged''" "is_text ''protocolVersion''" "is_text ''2025-03-26''"
  "is_text ''serverInfo''" "is_text ''name''" "is_text ''acp-bridge''" "is_text ''version''" "is_text ''0.2.0''"
  "is_text ''invalid params: ''" "is_text ''unknown tool: ''" "is_text ''method not found: ''" "is_text ''Tool ''"
  "is_text '' routed to downstream ''" "is_text ''.''"
  by (rule ascii_text, code_simp)+

lemma prefixed:
  assumes "is_text s"
  shows "is_text (''invalid params: '' @ s)" "is_text (''unknown tool: '' @ s)"
    "is_text (''method not found: '' @ s)"
  by (intro append_text words assms)+

lemma value_small:
  "is_value 9999 (JObj [])"
  "is_value 9999 initialize_result"
  "is_text s \<Longrightarrow> is_value 9999 (text_content s x)"
proof -
  have "is_value (Suc 0) (JObj [])" by (rule value_obj) simp
  then show "is_value 9999 (JObj [])" by (rule value_mono) simp
  have "is_value (Suc (Suc (Suc 0))) initialize_result"
    unfolding initialize_result_def
    by (intro value_obj; auto simp: words intro!: value_obj value_str value_bool)
  then show "is_value 9999 initialize_result" by (rule value_mono) simp
  show "is_value 9999 (text_content s x)" if "is_text s"
  proof -
    have "is_value (Suc (Suc (Suc 0))) (text_content s x)"
      unfolding text_content_def using that
      by (intro value_obj; auto simp: words intro!: value_arr value_obj value_str value_bool)
    then show ?thesis by (rule value_mono) simp
  qed
qed

lemma value_tools:
  assumes "\<And>t. t \<in> set ts \<Longrightarrow> is_value 9997 (toolToMCP t)"
  shows "is_value 9999 (JObj [(''tools'', JArr (map toolToMCP ts))])"
proof -
  have "is_value (Suc 9997) (JArr (map toolToMCP ts))" by (rule value_arr) (use assms in auto)
  then have "is_value (Suc (Suc 9997)) (JObj [(''tools'', JArr (map toolToMCP ts))])"
    by (intro value_obj) (auto simp: words)
  then show ?thesis by simp
qed

lemma list_form:
  assumes "bridge_form is_text is_value b" and "pred_option is_id (rpc_request_id req)"
  shows "list_all (message_form is_id is_text is_value) (fst (handleToolsList req b))"
proof -
  have "is_value 9997 (toolToMCP t)" if "t \<in> set (Lookup (br_reg b) caps)" for t caps
    using that assms(1) by (auto simp: set_Lookup bridge_form_def)
  then show ?thesis
    using assms(2) value_tools by (simp add: handleToolsList_reply message_form_def)
qed

lemma call_form:
  assumes "bridge_form is_text is_value b" and "pred_option is_id (rpc_request_id req)"
    and "case decode (rpc_params req) of Inl e \<Rightarrow> is_text (Error e) | Inr (name, args) \<Rightarrow> is_text name"
  shows "list_all (message_form is_id is_text is_value) (fst (handleToolsCall decode now req b))"
proof (cases "decode (rpc_params req)")
  case (Inl e)
  then show ?thesis
    using assms(2) prefixed(1) [of "Error e"] assms(3)
    by (simp add: handleToolsCall_def message_form_def int64_def)
next
  case (Inr na)
  obtain name args where na: "na = (name, args)" by (cases na)
  have name: "is_text name" using assms(3) by (simp add: Inr na)
  show ?thesis
  proof (cases "map_of (br_tools b) name")
    case None
    then show ?thesis
      using assms(2) prefixed(2) [OF name] by (simp add: handleToolsCall_def Inr na message_form_def int64_def)
  next
    case (Some ds)
    then have ds: "is_text (ds_source_name ds)" "is_text (ds_tool_name ds)"
      using assms(1) map_of_SomeD [OF Some] by (auto simp: bridge_form_def)
    have note_form: "list_all (message_form is_id is_text is_value) (maybeNotifyListChanged b')" for b'
      using maybeNotify_cases [of b'] by (auto simp: message_form_def list_changed_def)
    have reply: "is_value 9999 (case br_forward b of
        Some call \<Rightarrow> (case call (ds_source_name ds) (ds_tool_name ds) args of
            Inl e \<Rightarrow> text_content (Error e) True | Inr result \<Rightarrow> raw_json result)
      | None \<Rightarrow> text_content (''Tool '' @ name @ '' routed to downstream '' @ ds_source_name ds @ ''.'' @
          ds_tool_name ds) False)"
    proof (cases "br_forward b")
      case None
      have "is_text (''Tool '' @ name @ '' routed to downstream '' @ ds_source_name ds @ ''.'' @ ds_tool_name ds)"
        by (intro append_text words name ds)
      with None show ?thesis using value_small(3) by simp
    next
      case (Some call)
      then have "case call (ds_source_name ds) (ds_tool_name ds) args of
          Inl e \<Rightarrow> is_text (Error e) | Inr v \<Rightarrow> is_value 9999 (raw_json v)"
        using assms(1) by (simp add: bridge_form_def)
      with Some show ?thesis using value_small(3) by (simp split: sum.splits)
    qed
    show ?thesis
      using note_form reply assms(2) Some
      by (simp add: handleToolsCall_def Inr na Let_def message_form_def)
  qed
qed

lemma message_forms:
  assumes "bridge_form is_text is_value b" and "pred_option is_id (rpc_request_id req)" and "is_text (rpc_method req)"
    and "case decode (rpc_params req) of Inl e \<Rightarrow> is_text (Error e) | Inr (name, args) \<Rightarrow> is_text name"
  shows "list_all (message_form is_id is_text is_value) (fst (handleMessage decode now req b))"
  using list_form [OF assms(1,2)] call_form [where decode = decode, OF assms(1,2,4)] assms(2) prefixed(3) [OF assms(3)]
  by (simp add: handleMessage_def message_form_def value_small int64_def)

end

text \<open>Any text, and values that can be written; and texts and values that come back as they were.\<close>

definition any_text :: "string \<Rightarrow> bool" where
  "any_text s = True"

definition writable :: "nat \<Rightarrow> json \<Rightarrow> bool" where
  "writable d v = good d (raw_tree v)"


interpretation written: reply_form any_text writable
proof
  show "\<And>d s. writable d (JStr s)" "\<And>d x. writable d (JBool x)"
    by (simp_all add: writable_def raw_tree_def good_string good_bool)
  show "writable (Suc d) (JArr vs)" if "\<And>v. v \<in> set vs \<Longrightarrow> writable d v" for vs d
    using that by (auto simp: writable_def raw_tree_def good_Arr list_all_iff)
  show "writable (Suc d) (JObj kvs)" if "\<And>k v. (k, v) \<in> set kvs \<Longrightarrow> any_text k \<and> writable d v" for kvs d
    using that by (fastforce simp: writable_def raw_tree_def good_Obj list_all_iff string_ok_quote)
  show "writable d v \<Longrightarrow> d \<le> d' \<Longrightarrow> writable d' v" for d d' v
    unfolding writable_def by (rule good_mono)
qed (simp_all add: any_text_def)


subsection \<open>Whatever the bridge is asked\<close>

lemma parsed_id:
  assumes "rpc_parse je line = Inr req" shows "pred_option written_id (rpc_request_id req)"
proof -
  obtain t where t: "parse_tree line = Some t" "req = fst (dec_rpc_request t zero_rpc_request)"
    using assms by (auto simp: rpc_parse_def Unmarshal_def decoded_def split: option.splits prod.splits if_splits)
  have "pred_option written_id (rpc_request_id (fst (dec_rpc_request t zero_rpc_request)))"
    unfolding dec_rpc_request_def
  proof (rule dec_struct_inv)
    show "pred_option written_id (rpc_request_id zero_rpc_request)" by (simp add: zero_rpc_request_def)
    fix f :: "string \<times> rpc_request dec" and k v and a :: rpc_request
    assume f: "f \<in> set [(''jsonrpc'', dec_ignored dec_string []),
        (''id'', dec_field rpc_request_id rpc_request_id_update dec_raw_option),
        (''method'', dec_field rpc_method rpc_method_update dec_string),
        (''params'', dec_field rpc_params rpc_params_update dec_raw_option)]"
      and v: "(k, v) \<in> set (members t)" and a: "pred_option written_id (rpc_request_id a)"
    have "written_id (tree_text v)" by (rule written_member [OF t(1) v])
    with f a show "pred_option written_id (rpc_request_id (fst (snd f v a)))"
      by (auto simp: dec_ignored_def dec_field_def dec_raw_option_def split: prod.split)
  qed
  with t(2) show ?thesis by simp
qed

lemma enc_id_written:
  assumes "pred_option written_id i"
  shows "\<exists>idt. enc_id i = Some idt \<and> pred_option (good 9999) idt"
  using assms written_id_parse good_html by (cases i) (fastforce simp: enc_id_def)+

lemma enc_message_written:
  assumes "message_form written_id any_text writable m"
  shows "\<exists>t. enc_message m = Some t \<and> good maxNestingDepth t"
proof -
  note v = good_version
  have "\<exists>t. enc_message m = Some t \<and> good (Suc 9999) t"
  proof (cases m)
    case (RpcResult i r)
    with assms obtain idt where idt: "enc_id i = Some idt" "pred_option (good 9999) idt"
      using enc_id_written [of i] by (auto simp: message_form_def)
    moreover have "good 9999 (raw_tree r)" using assms by (simp add: RpcResult message_form_def writable_def)
    ultimately have "good (Suc 9999) (enc_struct [version_field, (''id'', idt), (''result'', Some (raw_tree r))])"
      by (intro good_struct) (auto dest: v)
    with idt show ?thesis by (simp add: RpcResult)
  next
    case (RpcError i code msg)
    with assms obtain idt where idt: "enc_id i = Some idt" "pred_option (good 9999) idt"
      using enc_id_written [of i] by (auto simp: message_form_def)
    have "good (Suc 0) (enc_struct [(''code'', Some (enc_int code)), (''message'', Some (enc_string msg))])"
      by (intro good_struct) (auto simp: good_int good_string)
    then have "good 9999 (enc_struct [(''code'', Some (enc_int code)), (''message'', Some (enc_string msg))])"
      by (rule good_mono) simp
    with idt have "good (Suc 9999) (enc_struct [version_field, (''id'', idt),
        (''error'', Some (enc_struct [(''code'', Some (enc_int code)), (''message'', Some (enc_string msg))]))])"
      by (intro good_struct) (auto dest: v)
    with idt show ?thesis by (simp add: RpcError)
  next
    case (RpcNotification meth)
    have "good (Suc 9999) (enc_struct [version_field, (''method'', Some (enc_string meth))])"
      by (intro good_struct) (auto dest: v simp: good_string)
    then show ?thesis by (simp add: RpcNotification)
  qed
  then show ?thesis by (simp add: maxNestingDepth_def)
qed

lemma bridge_form_setup: "same_setup b b' \<Longrightarrow> bridge_form T V b' \<longleftrightarrow> bridge_form T V b"
  by (simp add: bridge_form_def same_setup_def)

lemma line_written:
  assumes "bridge_form any_text writable b"
  shows "list_all (message_form written_id any_text writable) (fst (serve_line (rpc_parse je) decode now line b))"
proof -
  have "list_all (message_form written_id any_text writable) (fst (handleMessage decode now req b))"
    if "rpc_parse je line = Inr req" for req
    by (rule written.message_forms [OF assms parsed_id [OF that]])
      (simp_all add: any_text_def split: sum.split)
  then show ?thesis by (simp add: serve_line_def split: sum.split)
qed

lemma Serve_written:
  "bridge_form any_text writable b \<Longrightarrow>
     list_all (message_form written_id any_text writable) (fst (Serve (rpc_parse je) decode ls b))"
proof (induction ls arbitrary: b)
  case (Cons nl ls)
  obtain now line where nl: "nl = (now, line)" by (cases nl)
  let ?b' = "snd (serve_line (rpc_parse je) decode now line b)"
  have "same_setup b ?b'" using serve_line_state by blast
  then have "bridge_form any_text writable ?b'" using Cons.prems by (simp add: bridge_form_setup)
  from Cons.IH [OF this] line_written [OF Cons.prems, of je decode now line]
  show ?case by (simp add: nl case_prod_unfold Let_def)
qed simp

lemma enc_message_version: "enc_message m = Some t \<Longrightarrow> \<exists>fs. t = enc_struct (version_field # fs)"
  by (cases m) auto

lemma written_line:
  assumes "message_form written_id any_text writable m"
  shows "framed (writeJSON rpc_marshal m) \<and>
    (\<exists>data. rpc_marshal m = Inr data \<and> CHR 0x0A \<notin> set data)"
proof -
  obtain t where t: "enc_message m = Some t" "good maxNestingDepth t"
    using enc_message_written [OF assms] by blast
  with enc_message_version framed_Marshal show ?thesis
    by (fastforce simp: writeJSON_def rpc_marshal_def)
qed

lemma stream_lines_written:
  "list_all (message_form written_id any_text writable) ms \<Longrightarrow>
     stream_lines (bridge_stream rpc_marshal ms) = map (writeJSON rpc_marshal) ms"
proof (induction ms)
  case (Cons m ms)
  then obtain data where "rpc_marshal m = Inr data" "CHR 0x0A \<notin> set data"
    using written_line [of m] by auto
  with Cons show ?case by (simp add: bridge_stream_def writeJSON_def stream_lines_line)
qed (simp add: bridge_stream_def)

text \<open>\<open>Serve\<close> from the bytes it reads to the bytes it writes, and whether a line was too long; \<open>clock\<close>
  gives the time at which a line is handled.\<close>

definition bridge_process ::
    "json_errors \<Rightarrow> float_text \<Rightarrow> (nat \<Rightarrow> int) \<Rightarrow> bridge \<Rightarrow> string \<Rightarrow> string \<times> bool" where
  "bridge_process je ft clock b input =
     (case scan_lines (10 * 1024 * 1024) input of
        (ls, too_long) \<Rightarrow>
          (bridge_stream rpc_marshal (fst (Serve (rpc_parse je) (call_decode je ft)
             (zip (map clock [0..<length ls]) ls) b)), too_long))"

text \<open>C28: the bridge's output is framed. Whatever bytes it is fed, what it writes is a sequence of lines,
  and every line is a JSON object whose first member says \<open>"jsonrpc":"2.0"\<close>: no id, name, argument,
  result or error text that a peer chooses can break a line or the JSON in it. The tools and the
  results of the forwarder must not be nested beyond what a decoder reads.\<close>

theorem bridge_output_framed:
  assumes "bridge_form any_text writable b"
  shows "let out = fst (bridge_process je ft clock b input) in
    concat (stream_lines out) = out \<and> list_all framed (stream_lines out)"
proof -
  obtain ls too_long where ls: "scan_lines (10 * 1024 * 1024) input = (ls, too_long)" by (metis prod.exhaust)
  define out where "out = fst (Serve (rpc_parse je) (call_decode je ft) (zip (map clock [0..<length ls]) ls) b)"
  have written: "list_all (message_form written_id any_text writable) out"
    unfolding out_def by (rule Serve_written [OF assms])
  have "list_all framed (map (writeJSON rpc_marshal) out)"
    using written written_line by (auto simp: list_all_iff)
  with stream_lines_written [OF written] show ?thesis
    unfolding bridge_process_def ls prod.case fst_conv out_def [symmetric] Let_def
    by (simp add: bridge_stream_def)
qed

subsection \<open>What the client asks\<close>















section \<open>Calls over the pipes are calls of the handlers\<close>







text \<open>A client that pings and then calls a tool nobody has.\<close>

definition wire_floats :: float_text where
  "wire_floats = \<lparr> ft_read = Some, ft_write = id \<rparr>"




theorem bridge_output_framed_witness:
  "list_all framed (stream_lines (fst (bridge_process demo_errors wire_floats int wire_bridge
     (''{\"id\":[\"<\", 1], \"method\":\"ping\"}'' @ [CHR 0x0A] @ ''nonsense''))))"
proof -
  have "bridge_form any_text writable wire_bridge"
    by (simp add: wire_bridge_def NewBridge_def bridge_form_def NewMemoryRegistry_def)
  from bridge_output_framed [OF this, of demo_errors wire_floats int] show ?thesis unfolding Let_def by blast
qed











end
