(* ===== verification/VscodeConfig.thy ===== *)
theory VscodeConfig
  imports Prelude
begin

text \<open>
  The reader of VS Code style MCP configurations, \<open>internal/vscodeconfig/mcpjson.go\<close>: which servers
  of the file the bridge takes over and which it skips. Reading the file, the JSON decoder (in Commands),
  \<open>filepath.Join\<close> and the home directory are arguments.
\<close>

section \<open>Data\<close>

record mcp_server_config =
  vc_type :: string
  vc_command :: string
  vc_args :: "string list"
  vc_env :: "(string \<times> string) list"
  vc_url :: string

record vscode_source =
  vs_name :: string
  vs_type :: string
  vs_command :: string
  vs_args :: "string list"
  vs_env :: "(string \<times> string) list"
  vs_url :: string

record mcp_file =
  mf_servers :: "(string \<times> mcp_server_config) list"
  mf_mcp_servers :: "(string \<times> mcp_server_config) list"

section \<open>Operations\<close>

definition DefaultUserMCPPath ::
    "(string list \<Rightarrow> string) \<Rightarrow> error + string \<Rightarrow> string \<Rightarrow> string" where
  "DefaultUserMCPPath join homedir goos =
     (case homedir of Inl e \<Rightarrow> []
      | Inr home \<Rightarrow>
          if goos = ''darwin'' then
            join [home, ''Library'', ''Application Support'', ''Code'', ''User'', ''mcp.json'']
          else if goos = ''windows'' then
            join [home, ''AppData'', ''Roaming'', ''Code'', ''User'', ''mcp.json'']
          else join [home, ''.config'', ''Code'', ''User'', ''mcp.json''])"

text \<open>\<open>filepath.Base\<close> where the separator is a slash.\<close>

definition path_Base :: "string \<Rightarrow> string" where
  "path_Base p =
     (if p = [] then ''.''
      else
        let q = trim_right_byte CHR ''/'' p;
            r = rev (takeWhile (\<lambda>c. c \<noteq> CHR ''/'') (rev q)) in
        if r = [] then ''/'' else r)"

definition isACPBridge :: "string \<Rightarrow> mcp_server_config \<Rightarrow> bool" where
  "isACPBridge name server \<longleftrightarrow>
     Contains (ToLower name) ''acp-bridge'' \<or>
     ToLower (path_Base (vc_command server)) \<in> {''acp-bridge'', ''acp-bridge.exe''}"

definition normalizeType :: "string \<Rightarrow> mcp_server_config \<Rightarrow> string" where
  "normalizeType raw server =
     (let t = ToLower (TrimSpace raw) in
      if t = ''http'' \<or> t = ''sse'' \<or> t = ''streamable-http'' then ''http''
      else if t = ''stdio'' then ''stdio''
      else if TrimSpace (vc_url server) \<noteq> [] then ''http'' else ''stdio'')"

definition input_prompt :: string where
  "input_prompt = ''${input:''"

definition containsInputPrompt :: "mcp_server_config \<Rightarrow> bool" where
  "containsInputPrompt server \<longleftrightarrow>
     Contains (vc_command server) input_prompt \<or> Contains (vc_url server) input_prompt \<or>
     list_ex (\<lambda>a. Contains a input_prompt) (vc_args server) \<or>
     list_ex (\<lambda>(k, v). Contains v input_prompt) (vc_env server)"

definition vscode_source_of :: "string \<Rightarrow> mcp_server_config \<Rightarrow> vscode_source" where
  "vscode_source_of name server =
     \<lparr> vs_name = name, vs_type = normalizeType (vc_type server) server, vs_command = vc_command server,
       vs_args = vc_args server, vs_env = vc_env server, vs_url = vc_url server \<rparr>"

text \<open>The body of \<open>Load\<close>'s loop: \<open>None\<close> for a server that is skipped.\<close>

definition load_server :: "string \<Rightarrow> mcp_server_config \<Rightarrow> vscode_source option" where
  "load_server name server =
     (if isACPBridge name server then None
      else if containsInputPrompt server then None
      else
        let source = vscode_source_of name server in
        if vs_type source = ''stdio'' \<and> TrimSpace (vs_command source) = [] then None
        else if vs_type source = ''http'' then None
        else Some source)"

fun load_servers ::
    "(string \<times> mcp_server_config) list \<Rightarrow> string list \<Rightarrow> vscode_source list \<times> string list \<Rightarrow>
     vscode_source list \<times> string list" where
  "load_servers servers [] acc = acc"
| "load_servers servers (name # names) (sources, skipped) =
     (case map_of servers name of
        None \<Rightarrow> load_servers servers names (sources, skipped)
      | Some server \<Rightarrow>
          (case load_server name server of
             None \<Rightarrow> load_servers servers names (sources, skipped @ [name])
           | Some source \<Rightarrow> load_servers servers names (sources @ [source], skipped)))"

definition Load ::
    "(string \<Rightarrow> error + string) \<Rightarrow> (string \<Rightarrow> error + mcp_file) \<Rightarrow> string \<Rightarrow>
     error + vscode_source list \<times> string list" where
  "Load readFile decode path =
     (case readFile path of
        Inl e \<Rightarrow> Inl (Wrap (''vscodeconfig: read '' @ path @ '': '') e)
      | Inr text \<Rightarrow>
     (case decode text of
        Inl e \<Rightarrow> Inl (Wrap (''vscodeconfig: parse '' @ path @ '': '') e)
      | Inr body \<Rightarrow>
          (let servers = (if mf_servers body = [] then mf_mcp_servers body else mf_servers body) in
           Inr (load_servers servers (sort (map fst servers)) ([], [])))))"

section \<open>Lemmas\<close>

lemma load_servers_append:
  "set names \<subseteq> fst ` set servers \<Longrightarrow>
   load_servers servers names (sources, skipped) =
     (sources @ List.map_filter (\<lambda>n. load_server n (the (map_of servers n))) names,
      skipped @ filter (\<lambda>n. load_server n (the (map_of servers n)) = None) names)"
proof (induction names arbitrary: sources skipped)
  case (Cons n names)
  then obtain s where "map_of servers n = Some s"
    by (metis insert_subset list.simps(15) map_of_eq_None_iff not_None_eq)
  with Cons show ?case by (auto simp: map_filter_simps split: option.split)
qed (simp add: map_filter_simps)

lemma load_server_Some:
  "load_server n s = Some src \<longleftrightarrow> src = vscode_source_of n s \<and> \<not> isACPBridge n s \<and>
     \<not> containsInputPrompt s \<and> normalizeType (vc_type s) s = ''stdio'' \<and> TrimSpace (vc_command s) \<noteq> []"
proof -
  have "normalizeType (vc_type s) s = ''stdio'' \<or> normalizeType (vc_type s) s = ''http''"
    by (simp add: normalizeType_def Let_def)
  then show ?thesis by (auto simp: load_server_def vscode_source_of_def Let_def)
qed

lemma vs_name_of [simp]: "vs_name (vscode_source_of n s) = n"
  by (simp add: vscode_source_of_def)

section \<open>Properties\<close>

text \<open>C40: \<open>Load\<close> puts every server of the file into exactly one of its two lists, both in the order
  of the names, whatever the order in which the maps are visited; it takes over exactly the stdio
  servers with a command that need no prompt and are not the bridge itself, unchanged. The entries
  under \<open>mcpServers\<close> count only when \<open>servers\<close> is empty.\<close>

theorem Load_exact:
  assumes "readFile path = Inr text" and "decode text = Inr body"
    and "wf_map (mf_servers body)" and "wf_map (mf_mcp_servers body)"
  defines "servers \<equiv> if mf_servers body = [] then mf_mcp_servers body else mf_servers body"
  defines "usable \<equiv> \<lambda>n s. \<not> Contains (ToLower n) ''acp-bridge'' \<and>
      ToLower (path_Base (vc_command s)) \<notin> {''acp-bridge'', ''acp-bridge.exe''} \<and>
      \<not> containsInputPrompt s \<and> normalizeType (vc_type s) s = ''stdio'' \<and> TrimSpace (vc_command s) \<noteq> []"
  shows "\<exists>sources skipped. Load readFile decode path = Inr (sources, skipped) \<and>
    mset (map vs_name sources) + mset skipped = mset (map fst servers) \<and>
    sorted (map vs_name sources) \<and> sorted skipped \<and>
    set sources = {vscode_source_of n s | n s. (n, s) \<in> set servers \<and> usable n s} \<and>
    set skipped = {n | n s. (n, s) \<in> set servers \<and> \<not> usable n s}"
proof -
  let ?ns = "sort (map fst servers)"
  let ?f = "\<lambda>n. load_server n (the (map_of servers n))"
  let ?src = "List.map_filter ?f ?ns" and ?skip = "filter (\<lambda>n. ?f n = None) ?ns"
  have wf: "wf_map servers" using assms(3,4) by (simp add: servers_def)
  have load: "Load readFile decode path = Inr (?src, ?skip)"
    using assms(1,2) load_servers_append [of ?ns servers "[]" "[]"]
    by (simp add: Load_def servers_def Let_def)
  have f: "load_server n s = (if usable n s then Some (vscode_source_of n s) else None)" for n s
    using load_server_Some [of n s "vscode_source_of n s"] load_server_Some [of n s]
    unfolding usable_def isACPBridge_def by (cases "load_server n s") auto
  have names: "map vs_name (List.map_filter ?f ns) = filter (\<lambda>n. ?f n \<noteq> None) ns" for ns
    by (induction ns) (simp_all add: map_filter_simps f)
  have entry: "the (map_of servers n) = s" if "(n, s) \<in> set servers" for n s
    using wf_map_map_of [OF wf, of n s] that by simp
  have "mset (map vs_name ?src) + mset ?skip = mset ?ns"
    unfolding names using multiset_partition [of "mset ?ns" "\<lambda>n. ?f n \<noteq> None"]
    by simp
  moreover have "sorted (map vs_name ?src)" unfolding names
    using sorted_filter [of "\<lambda>n. n" ?ns] by simp
  moreover have "sorted ?skip" using sorted_filter [of "\<lambda>n. n" ?ns] by simp
  moreover have "set ?src = {vscode_source_of n s | n s. (n, s) \<in> set servers \<and> usable n s}"
  proof -
    have "set ?src = {x. \<exists>n \<in> fst ` set servers. ?f n = Some x}"
      by (auto simp: map_filter_def image_iff) force+
    also have "\<dots> = {x. \<exists>(n, s) \<in> set servers. load_server n s = Some x}"
      unfolding bex_simps 
      by (intro Collect_cong bex_cong refl) (simp add: split_beta entry [of "fst e" "snd e" for e])
    also have "\<dots> = {vscode_source_of n s | n s. (n, s) \<in> set servers \<and> usable n s}"
      unfolding f by (auto split: if_splits)
    finally show ?thesis .
  qed
  moreover have "set ?skip = {n | n s. (n, s) \<in> set servers \<and> \<not> usable n s}"
    using entry by (auto simp: f image_iff) force+
  ultimately show ?thesis using load by auto
qed

definition demo_server :: "string \<Rightarrow> string \<Rightarrow> mcp_server_config" where
  "demo_server cmd arg = \<lparr> vc_type = [], vc_command = cmd, vc_args = [arg], vc_env = [], vc_url = [] \<rparr>"

definition demo_file :: mcp_file where
  "demo_file = \<lparr> mf_servers = [],
     mf_mcp_servers = [(''git'', demo_server ''uvx'' ''git''), (''ask'', demo_server ''run'' ''-k=${input:key}''),
       (''self'', demo_server ''/opt/acp-bridge'' ''x''),
       (''web'', (demo_server [] []) \<lparr> vc_url := ''https://x'' \<rparr>)] \<rparr>"

theorem Load_exact_witness:
  "Load Inr (\<lambda>s. Inr demo_file) ''p'' =
     Inr ([vscode_source_of ''git'' (demo_server ''uvx'' ''git'')], [''ask'', ''self'', ''web'']) \<and>
   (\<exists>sources skipped. Load Inr (\<lambda>s. Inr demo_file) ''p'' = Inr (sources, skipped) \<and>
     mset (map vs_name sources) + mset skipped = mset [''git'', ''ask'', ''self'', ''web''])"
proof -
  have "wf_map (mf_servers demo_file)" "wf_map (mf_mcp_servers demo_file)"
    and nil: "mf_servers demo_file = []"
    and names: "map fst (mf_mcp_servers demo_file) = [''git'', ''ask'', ''self'', ''web'']"
    by code_simp+
  from Load_exact [of Inr "''p''" "''p''" "\<lambda>s. Inr demo_file" demo_file, OF refl refl this(1,2)]
  have "\<exists>sources skipped. Load Inr (\<lambda>s. Inr demo_file) ''p'' = Inr (sources, skipped) \<and>
     mset (map vs_name sources) + mset skipped = mset [''git'', ''ask'', ''self'', ''web'']"
    unfolding nil if_P [OF refl] names by blast
  moreover have "Load Inr (\<lambda>s. Inr demo_file) ''p'' =
      Inr ([vscode_source_of ''git'' (demo_server ''uvx'' ''git'')], [''ask'', ''self'', ''web''])"
    by code_simp
  ultimately show ?thesis by blast
qed

end
