(* ===== verification/AcpBridge.thy ===== *)
theory AcpBridge
  imports Bridge StdioClient VscodeConfig
begin

text \<open>
  The bridge command, \<open>cmd/acp-bridge/main.go\<close>: names and environment references of the configured
  sources are normalized, every source is imported into one registry, its client joins the pool of
  downstream clients, and the bridge is set up with all tools. Processes, the network, the
  environment and the decoders are arguments; the command line, the configuration files and the served
  process are in theory Commands, the decoders of tool lists in ToolListJson.
\<close>

section \<open>Configuration\<close>

record source_config =
  sf_name :: string
  sf_type :: string
  sf_url :: string
  sf_command :: string
  sf_args :: "string list"
  sf_env :: "(string \<times> string) list"
  sf_auth :: string
  sf_capabilities :: "string list"

record bridge_config =
  bc_sources :: "source_config list"
  bc_narrow_threshold :: int
  bc_window_size :: int

definition source_of_vscode :: "vscode_source \<Rightarrow> source_config" where
  "source_of_vscode s =
     \<lparr> sf_name = vs_name s, sf_type = vs_type s, sf_url = vs_url s, sf_command = vs_command s,
       sf_args = vs_args s, sf_env = vs_env s, sf_auth = [], sf_capabilities = [] \<rparr>"

definition sourceType :: "source_config \<Rightarrow> string" where
  "sourceType src =
     (let t = ToLower (TrimSpace (sf_type src)) in
      if t = [] then (if TrimSpace (sf_url src) \<noteq> [] then ''http'' else ''stdio'')
      else if t = ''streamable-http'' \<or> t = ''sse'' then ''http''
      else t)"

text \<open>The name of a source, reduced to letters, digits and single inner underscores; beyond ASCII the
  letters are those of the Unicode tables.\<close>

fun squash :: "bool \<Rightarrow> string \<Rightarrow> string" where
  "squash lastUnderscore [] = []"
| "squash lastUnderscore (c # cs) =
     (if \<not> not_alnum c then c # squash False cs
      else if lastUnderscore then squash True cs
      else CHR ''_'' # squash True cs)"

definition unicode_safe_name :: "string \<Rightarrow> string" where
  "unicode_safe_name = undefined"

definition trim_byte :: "char \<Rightarrow> string \<Rightarrow> string" where
  "trim_byte c s = trim_right_byte c (dropWhile (\<lambda>x. x = c) s)"

definition safeSourceName :: "string \<Rightarrow> string" where
  "safeSourceName name =
     (let n = ToLower (TrimSpace name) in
      if ascii n then trim_byte CHR ''_'' (squash False n) else unicode_safe_name n)"

section \<open>Environment references\<close>

text \<open>\<open>os.ExpandEnv\<close>: \<open>$name\<close>, \<open>${name}\<close> and the one-byte shell variables.\<close>

definition isShellSpecialVar :: "char \<Rightarrow> bool" where
  "isShellSpecialVar c \<longleftrightarrow> c \<in> set ''*#$@!?-'' \<or> digit_char c"

definition isAlphaNum :: "char \<Rightarrow> bool" where
  "isAlphaNum c \<longleftrightarrow> c = CHR ''_'' \<or> digit_char c \<or> lower_letter c \<or> upper_letter c"

text \<open>\<open>getShellName\<close>: the name at the start of a non-empty string and how many bytes it takes.\<close>

definition getShellName :: "string \<Rightarrow> string \<times> nat" where
  "getShellName s =
     (if hd s = CHR ''{'' then
        (if 2 < length s \<and> isShellSpecialVar (s ! 1) \<and> s ! 2 = CHR ''}'' then ([s ! 1], 3)
         else if CHR ''}'' \<in> set (tl s) then
           (let name = before_byte CHR ''}'' (tl s) in
            if name = [] then ([], 2) else (name, length name + 2))
         else ([], 1))
      else if isShellSpecialVar (hd s) then ([hd s], 1)
      else (let name = takeWhile isAlphaNum s in (name, length name)))"

fun ExpandEnv :: "(string \<Rightarrow> string) \<Rightarrow> string \<Rightarrow> string" where
  "ExpandEnv getenv [] = []"
| "ExpandEnv getenv (c # cs) =
     (if c = CHR ''$'' \<and> cs \<noteq> [] then
        (let (name, w) = getShellName cs in
         (if name = [] \<and> 0 < w then [] else if name = [] then [c] else getenv name) @
         ExpandEnv getenv (drop w cs))
      else c # ExpandEnv getenv cs)"

definition env_prefix :: string where
  "env_prefix = ''${env:''"

function expandEnv :: "(string \<Rightarrow> string) \<Rightarrow> string \<Rightarrow> string" where
  "expandEnv getenv s =
     (case Index s env_prefix of
        None \<Rightarrow> ExpandEnv getenv s
      | Some start \<Rightarrow>
          (let rest = drop (start + length env_prefix) s in
           ExpandEnv getenv (take start s) @
           (if CHR ''}'' \<in> set rest then
              getenv (before_byte CHR ''}'' rest) @
              expandEnv getenv (tl (dropWhile (\<lambda>c. c \<noteq> CHR ''}'') rest))
            else ExpandEnv getenv (drop start s))))"
  by pat_completeness auto
termination
proof (relation "measure (\<lambda>(g, s). length s)")
  fix getenv :: "string \<Rightarrow> string" and s rest :: string and start
  assume "Index s env_prefix = Some start" and "rest = drop (start + length env_prefix) s"
    and "CHR ''}'' \<in> set rest"
  then have "rest \<noteq> []" and "length rest \<le> length s" by (metis empty_iff empty_set, simp)
  then have "0 < length rest" "length rest \<le> length s" by simp_all
  moreover have "length (dropWhile (\<lambda>c. c \<noteq> CHR ''}'') rest) \<le> length rest"
    by (rule length_dropWhile_le)
  ultimately have "length (tl (dropWhile (\<lambda>c. c \<noteq> CHR ''}'') rest)) < length s"
    unfolding length_tl by linarith
  then show "((getenv, tl (dropWhile (\<lambda>c. c \<noteq> CHR ''}'') rest)), getenv, s) \<in>
      measure (\<lambda>(g, s). length s)" by simp
qed simp

declare expandEnv.simps [simp del]

definition expandSlice :: "(string \<Rightarrow> string) \<Rightarrow> string list \<Rightarrow> string list" where
  "expandSlice getenv values = map (expandEnv getenv) values"

definition expandMap :: "(string \<Rightarrow> string) \<Rightarrow> (string \<times> string) list \<Rightarrow> (string \<times> string) list" where
  "expandMap getenv values = map (map_prod id (expandEnv getenv)) values"

section \<open>Importing sources\<close>

text \<open>What importing relies on: starting a client, its handshake, its tools list, and HTTP.\<close>

record 'c downstream =
  de_spawn :: "stdio_command \<Rightarrow> error + 'c"
  de_initialize :: "'c \<Rightarrow> error option"
  de_list :: "'c \<Rightarrow> error + tool_descriptor list"
  de_net :: mcp_net

definition stdio_command_of :: "source_config \<Rightarrow> stdio_command" where
  "stdio_command_of src =
     \<lparr> cm_command = sf_command src, cm_args = sf_args src, cm_env = sf_env src \<rparr>"

definition stdio_source :: "source_config \<Rightarrow> mcp_source" where
  "stdio_source src =
     \<lparr> src_name = sf_name src, src_base_url = [], src_type = ''stdio'', src_auth = [],
       src_extra_capabilities = sf_capabilities src \<rparr>"

definition http_source :: "source_config \<Rightarrow> mcp_source" where
  "http_source src =
     \<lparr> src_name = sf_name src, src_base_url = sf_url src, src_type = [], src_auth = sf_auth src,
       src_extra_capabilities = sf_capabilities src \<rparr>"

definition importSource ::
    "(string \<Rightarrow> 'c option \<Rightarrow> 'm \<Rightarrow> error + 'm) \<Rightarrow> (tool \<Rightarrow> 'r \<Rightarrow> error + 'r) \<Rightarrow> 'c downstream \<Rightarrow>
     source_config \<Rightarrow> 'r \<times> 'm \<Rightarrow> (nat \<times> error option) \<times> 'r \<times> 'm" where
  "importSource add reg env src st =
     (case st of (r, m) \<Rightarrow>
      if sourceType src = ''stdio'' then
        (case de_spawn env (stdio_command_of src) of
           Inl e \<Rightarrow> ((0, Some e), r, m)
         | Inr client \<Rightarrow>
        (case de_initialize env client of
           Some e \<Rightarrow> ((0, Some e), r, m)
         | None \<Rightarrow>
        (case de_list env client of
           Inl e \<Rightarrow> ((0, Some e), r, m)
         | Inr descriptors \<Rightarrow>
        (case add (sf_name src) (Some client) m of
           Inl e \<Rightarrow> ((0, Some e), r, m)
         | Inr m' \<Rightarrow>
        (case McpRegisterAll reg (stdio_source src) descriptors r of (n, err, r') \<Rightarrow>
           ((n, err), r', m'))))))
      else if sourceType src = ''http'' then
        (case ImportSource (de_net env) reg (http_source src) r of (n, err, r') \<Rightarrow> ((n, err), r', m))
      else ((0, Some (Errorf (''unsupported source type '' @ fmt_q (sf_type src)))), r, m))"

definition expand_source :: "(string \<Rightarrow> string) \<Rightarrow> source_config \<Rightarrow> source_config" where
  "expand_source getenv src =
     \<lparr> sf_name = safeSourceName (sf_name src), sf_type = sf_type src,
       sf_url = expandEnv getenv (sf_url src), sf_command = expandEnv getenv (sf_command src),
       sf_args = expandSlice getenv (sf_args src), sf_env = expandMap getenv (sf_env src),
       sf_auth = expandEnv getenv (sf_auth src), sf_capabilities = sf_capabilities src \<rparr>"

text \<open>The loop of \<open>main\<close>: a source without a name or with an error is left out, the next one tried.\<close>

fun import_sources ::
    "(string \<Rightarrow> 'c option \<Rightarrow> 'm \<Rightarrow> error + 'm) \<Rightarrow> (tool \<Rightarrow> 'r \<Rightarrow> error + 'r) \<Rightarrow> 'c downstream \<Rightarrow>
     (string \<Rightarrow> string) \<Rightarrow> source_config list \<Rightarrow> 'r \<times> 'm \<Rightarrow> 'r \<times> 'm" where
  "import_sources add reg env getenv [] st = st"
| "import_sources add reg env getenv (src # srcs) st =
     (if safeSourceName (sf_name src) = [] then import_sources add reg env getenv srcs st
      else import_sources add reg env getenv srcs
        (snd (importSource add reg env (expand_source getenv src) st)))"

section \<open>Setting up the bridge\<close>

text \<open>The loop that cuts a tool id at its first dot.\<close>

definition split_id :: "string \<Rightarrow> string \<times> string" where
  "split_id i =
     (if CHR ''.'' \<in> set i
      then (before_byte CHR ''.'' i, tl (dropWhile (\<lambda>c. c \<noteq> CHR ''.'') i)) else (i, i))"

definition all_caps :: "registry \<Rightarrow> string list" where
  "all_caps reg = sorted_keys (concat (map t_capabilities (All reg)))"

definition register_tool :: "tool \<Rightarrow> bridge \<Rightarrow> bridge" where
  "register_tool t b = (case split_id (t_id t) of (source, name) \<Rightarrow> RegisterTool source name t b)"

definition bridge_setup ::
    "(int \<Rightarrow> 'c \<Rightarrow> string \<Rightarrow> json \<Rightarrow> error + raw_message) \<Rightarrow> bridge_config \<Rightarrow> registry \<Rightarrow> 'c manager \<Rightarrow> bridge" where
  "bridge_setup call cfg reg m =
     fold register_tool (All reg)
       (NewBridge reg
          (NewDeferredResolver \<lparr> do_all_capabilities = all_caps reg, do_fallback = None,
             do_window_size = bc_window_size cfg, do_narrow_threshold = bc_narrow_threshold cfg \<rparr>)
          (if 0 < ManagerCount m then Some (ManagerCall call m) else None))"

definition acp_bridge_main ::
    "(int \<Rightarrow> 'c \<Rightarrow> string \<Rightarrow> json \<Rightarrow> error + raw_message) \<Rightarrow> 'c downstream \<Rightarrow> (string \<Rightarrow> string) \<Rightarrow>
     bridge_config \<Rightarrow> vscode_source list \<Rightarrow> bridge" where
  "acp_bridge_main call env getenv cfg imported =
     (case import_sources ManagerRegister Register env getenv
         (bc_sources cfg @ map source_of_vscode imported)
         (NewMemoryRegistry, NewManager (30 * 1000000000)) of
        (reg, m) \<Rightarrow> bridge_setup call cfg reg m)"

section \<open>Lemmas\<close>

subsection \<open>Names\<close>

lemma set_squash: "c \<in> set (squash u s) \<Longrightarrow> \<not> not_alnum c \<or> c = CHR ''_''"
  by (induction u s rule: squash.induct) (auto split: if_splits)

lemma set_trim_byte: "set (trim_byte c s) \<subseteq> set s"
  by (auto simp: trim_byte_def trim_right_byte_def dest!: set_dropWhileD)

lemma safeSourceName_chars:
  assumes "ascii name" and "c \<in> set (safeSourceName name)"
  shows "\<not> not_alnum c \<or> c = CHR ''_''"
proof -
  have "safeSourceName name = trim_byte CHR ''_'' (squash False (ToLower (TrimSpace name)))"
    using assms(1) by (simp add: safeSourceName_def ascii_ToLower ascii_TrimSpace)
  with assms(2) set_trim_byte have "c \<in> set (squash False (ToLower (TrimSpace name)))" by fastforce
  then show ?thesis by (rule set_squash)
qed

lemma not_alnum_dot: "not_alnum CHR ''.''"
  by code_simp

lemma not_alnum_space: "space_char c \<Longrightarrow> not_alnum c"
proof -
  have "\<forall>c \<in> set [CHR 0x09, CHR 0x0A, CHR 0x0B, CHR 0x0C, CHR 0x0D, CHR 0x20]. not_alnum c"
    by code_simp
  moreover have "space_char c \<longleftrightarrow> c \<in> set [CHR 0x09, CHR 0x0A, CHR 0x0B, CHR 0x0C, CHR 0x0D, CHR 0x20]"
    by (simp only: space_char_def list.set)
  ultimately show "space_char c \<Longrightarrow> not_alnum c" by blast
qed

lemma ascii_alnum: "\<not> not_alnum c \<or> c = CHR ''_'' \<Longrightarrow> of_char c < (128 :: nat)"
  by (auto simp: not_alnum_def lower_letter_def upper_letter_def digit_char_def less_eq_char_def)

lemma safeSourceName_ascii:
  assumes "ascii name"
  shows "ascii (safeSourceName name) \<and> CHR ''.'' \<notin> set (safeSourceName name) \<and>
    (safeSourceName name \<noteq> [] \<longrightarrow> TrimSpace (safeSourceName name) \<noteq> [])"
proof -
  let ?n = "safeSourceName name"
  note chars = safeSourceName_chars [OF assms]
  have "\<forall>c \<in> set ?n. of_char c < (128 :: nat)" using chars ascii_alnum by blast
  then have a: "ascii ?n" unfolding ascii_iff_of_char .
  moreover have "CHR ''.'' \<noteq> CHR ''_''" by code_simp
  then have "CHR ''.'' \<notin> set ?n" using chars not_alnum_dot by blast
  moreover have "TrimSpace ?n \<noteq> []" if "?n \<noteq> []"
  proof -
    have hd: "hd ?n \<in> set ?n" using that by (rule list.set_sel(1))
    have "\<not> space_char CHR ''_''" by code_simp
    then have "\<not> space_char (hd ?n)" using chars [OF hd] not_alnum_space by metis
    from trim_ascii_not_Nil [OF hd this] show ?thesis unfolding TrimSpace_ascii [OF a] .
  qed
  ultimately show ?thesis by blast
qed

lemma split_id_dot: "CHR ''.'' \<notin> set n \<Longrightarrow> split_id (n @ ''.'' @ m) = (n, m)"
  by (simp add: split_id_def before_byte_def) (induction n, auto)

subsection \<open>One source\<close>

text \<open>The descriptors a source lists, when everything before works.\<close>

definition stdio_listing :: "'c downstream \<Rightarrow> source_config \<Rightarrow> tool_descriptor list option" where
  "stdio_listing env s =
     (case de_spawn env (stdio_command_of s) of Inl e \<Rightarrow> None
      | Inr c \<Rightarrow> (case de_initialize env c of Some e \<Rightarrow> None
      | None \<Rightarrow> (case de_list env c of Inl e \<Rightarrow> None | Inr ds \<Rightarrow> Some ds)))"

definition http_listing :: "mcp_net \<Rightarrow> mcp_source \<Rightarrow> tool_descriptor list option" where
  "http_listing n src =
     (let url = trim_right_byte CHR ''/'' (src_base_url src) @ ''/tools/list'' in
      if TrimSpace (src_name src) = [] \<or> TrimSpace (src_base_url src) = [] \<or> mn_build n url \<noteq> None
      then None
      else (case mn_fetch n \<lparr> mq_url = url,
               mq_authorization = (if src_auth src = [] then None else Some (src_auth src)),
               mq_accept = ''application/json'' \<rparr> of
          Inl e \<Rightarrow> None
        | Inr (status, body) \<Rightarrow> if status < 200 \<or> 300 \<le> status then None
            else (case mn_decode n body of Inl e \<Rightarrow> None | Inr ds \<Rightarrow> Some ds)))"

definition mcp_source_of :: "source_config \<Rightarrow> mcp_source" where
  "mcp_source_of s = (if sourceType s = ''stdio'' then stdio_source s else http_source s)"

definition listing :: "'c downstream \<Rightarrow> source_config \<Rightarrow> tool_descriptor list option" where
  "listing env s =
     (if sourceType s = ''stdio'' then stdio_listing env s
      else if sourceType s = ''http'' then http_listing (de_net env) (http_source s) else None)"

text \<open>The tools a source offers: the descriptors before the first one without a name.\<close>

definition offers :: "'c downstream \<Rightarrow> source_config \<Rightarrow> tool_descriptor \<Rightarrow> bool" where
  "offers env s d \<longleftrightarrow> (\<exists>ds. listing env s = Some ds \<and> d \<in> set (takeWhile named ds))"

definition client_for :: "'c downstream \<Rightarrow> source_config \<Rightarrow> 'c option" where
  "client_for env s =
     (if sourceType s = ''stdio'' \<and> listing env s \<noteq> None
      then Some (sum.projr (de_spawn env (stdio_command_of s))) else None)"

lemma src_name_of [simp]: "src_name (mcp_source_of s) = sf_name s"
  by (simp add: mcp_source_of_def stdio_source_def http_source_def)

lemma ImportSource_listing:
  "case http_listing n src of
     None \<Rightarrow> snd (snd (ImportSource n reg src r)) = r
   | Some ds \<Rightarrow> ImportSource n reg src r = McpRegisterAll reg src ds r"
  by (simp add: http_listing_def ImportSource_def Let_def split: option.split sum.split prod.split)

locale bridge_imports =
  reg: tool_registry r0 register get inv + pool: client_pool m0 add client
  for r0 :: 'r and register and get and inv and m0 :: 'm
    and add :: "string \<Rightarrow> 'c option \<Rightarrow> 'm \<Rightarrow> error + 'm" and client
begin

lemma importSource_effect:
  assumes "TrimSpace (sf_name s) \<noteq> []"
  obtains "listing env s = None" "snd (importSource add register env s (r, m)) = (r, m)"
  | ds c m' where "listing env s = Some ds" "client_for env s = Some c"
      "add (sf_name s) (Some c) m = Inr m'"
      "snd (importSource add register env s (r, m)) =
         (snd (snd (McpRegisterAll register (mcp_source_of s) ds r)), m')"
  | ds where "listing env s = Some ds" "client_for env s = None"
      "snd (importSource add register env s (r, m)) =
         (snd (snd (McpRegisterAll register (mcp_source_of s) ds r)), m)"
proof -
  consider (stdio) "sourceType s = ''stdio''" | (http) "sourceType s = ''http''"
    | (other) "sourceType s \<noteq> ''stdio''" "sourceType s \<noteq> ''http''" by blast
  then show thesis
  proof cases
    case stdio
    show thesis
    proof (cases "listing env s")
      case None
      with stdio that(1) show thesis
        by (auto simp: listing_def stdio_listing_def importSource_def split: sum.splits option.splits)
    next
      case (Some ds)
      with stdio obtain c where c: "de_spawn env (stdio_command_of s) = Inr c"
        "de_initialize env c = None" "de_list env c = Inr ds"
        by (auto simp: listing_def stdio_listing_def split: sum.splits option.splits)
      moreover obtain m' where m': "add (sf_name s) (Some c) m = Inr m'"
        using pool.register_client [OF assms] by blast
      ultimately have "snd (importSource add register env s (r, m)) =
          (snd (snd (McpRegisterAll register (mcp_source_of s) ds r)), m')"
        using stdio by (simp add: importSource_def mcp_source_of_def split_beta)
      moreover have "client_for env s = Some c" using stdio Some c by (simp add: client_for_def)
      ultimately show thesis using that(2) Some m' by blast
    qed
  next
    case http
    note imp = ImportSource_listing [of "de_net env" register "http_source s" r]
    have c: "client_for env s = None" using http by (simp add: client_for_def)
    show thesis
    proof (cases "listing env s")
      case None
      with http imp that(1) show thesis by (simp add: listing_def importSource_def split_beta)
    next
      case (Some ds)
      with http imp have "snd (importSource add register env s (r, m)) =
          (snd (snd (McpRegisterAll register (mcp_source_of s) ds r)), m)"
        by (simp add: listing_def importSource_def mcp_source_of_def split_beta)
      with that(3) Some c show thesis by blast
    qed
  next
    case other
    with that(1) show thesis by (simp add: listing_def importSource_def)
  qed
qed

end

subsection \<open>All sources\<close>

definition expanded :: "(string \<Rightarrow> string) \<Rightarrow> source_config list \<Rightarrow> source_config list" where
  "expanded getenv srcs =
     map (expand_source getenv) (filter (\<lambda>s. safeSourceName (sf_name s) \<noteq> []) srcs)"

lemma import_sources_fold:
  "import_sources add reg env getenv srcs st =
     fold (\<lambda>s st. snd (importSource add reg env s st)) (expanded getenv srcs) st"
  by (induction srcs arbitrary: st) (simp_all add: expanded_def)

text \<open>What importing relies on about a source: its name is usable and in ASCII, and so are the names
  of its tools.\<close>

definition plain_source :: "'c downstream \<Rightarrow> source_config \<Rightarrow> bool" where
  "plain_source env s \<longleftrightarrow> ascii (sf_name s) \<and> CHR ''.'' \<notin> set (sf_name s) \<and> TrimSpace (sf_name s) \<noteq> [] \<and>
     (\<forall>ds. listing env s = Some ds \<longrightarrow> list_all (\<lambda>d. ascii (td_name d)) ds)"

abbreviation tool_name :: "source_config \<Rightarrow> tool_descriptor \<Rightarrow> string" where
  "tool_name s d \<equiv> sf_name s @ ''.'' @ td_name d"

context bridge_imports begin

definition imported :: "'c downstream \<Rightarrow> source_config list \<Rightarrow> 'r \<times> 'm \<Rightarrow> bool" where
  "imported env srcs st \<longleftrightarrow> inv (fst st) \<and>
     (\<forall>i. (\<exists>t. get (fst st) i = Inr t) \<longleftrightarrow> (\<exists>s \<in> set srcs. \<exists>d. offers env s d \<and> i = tool_name s d)) \<and>
     (\<forall>i t. get (fst st) i = Inr t \<longrightarrow> t_id t = i) \<and>
     (\<forall>n. client (snd st) n = (case find (\<lambda>s. sf_name s = n \<and> client_for env s \<noteq> None) (rev srcs) of
        None \<Rightarrow> None | Some s \<Rightarrow> client_for env s))"

lemma registered_step:
  assumes "inv r" and "plain_source env s" and "listing env s = Some ds"
  defines "r' \<equiv> snd (snd (McpRegisterAll register (mcp_source_of s) ds r))"
  shows "inv r'"
    and "(\<exists>t. get r' i = Inr t) \<longleftrightarrow> (\<exists>t. get r i = Inr t) \<or> (\<exists>d. offers env s d \<and> i = tool_name s d)"
    and "get r' i = Inr t \<Longrightarrow> t_id t = i \<or> get r i = Inr t"
proof -
  let ?ts = "map (mcp_tool (mcp_source_of s)) (takeWhile named ds)"
  have res: "inv r' \<and> (\<forall>i. get r' i = (case find (\<lambda>t. t_id t = i) (rev ?ts) of
      None \<Rightarrow> get r i | Some t \<Rightarrow> Inr t))"
    using reg.McpRegisterAll_result [OF assms(1), of "mcp_source_of s" ds] assms(2,3)
    unfolding r'_def plain_source_def by (auto split: prod.splits)
  then show "inv r'" by blast
  have "find (\<lambda>t. t_id t = i) (rev ?ts) \<noteq> None \<longleftrightarrow> (\<exists>d. offers env s d \<and> i = tool_name s d)"
    using assms(3) by (auto simp: find_None_iff offers_def)
  then show "(\<exists>t. get r' i = Inr t) \<longleftrightarrow> (\<exists>t. get r i = Inr t) \<or> (\<exists>d. offers env s d \<and> i = tool_name s d)"
    using res by (auto split: option.splits)
  show "t_id t = i \<or> get r i = Inr t" if "get r' i = Inr t"
    using that res by (auto simp: find_Some_iff split: option.splits)
qed

lemma imported_snoc:
  assumes "imported env srcs (r, m)" and "inv r'"
    and "\<And>i. (\<exists>t. get r' i = Inr t) \<longleftrightarrow>
      (\<exists>t. get r i = Inr t) \<or> (\<exists>d. offers env s d \<and> i = tool_name s d)"
    and "\<And>i t. get r' i = Inr t \<Longrightarrow> t_id t = i \<or> get r i = Inr t"
    and "\<And>n. client m' n = (if sf_name s = n \<and> client_for env s \<noteq> None then client_for env s else client m n)"
  shows "imported env (srcs @ [s]) (r', m')"
  unfolding imported_def fst_conv snd_conv
proof (intro conjI allI impI)
  note old = assms(1) [unfolded imported_def fst_conv snd_conv]
  show "inv r'" by (rule assms(2))
  show "(\<exists>t. get r' i = Inr t) \<longleftrightarrow> (\<exists>s' \<in> set (srcs @ [s]). \<exists>d. offers env s' d \<and> i = tool_name s' d)" for i
    unfolding assms(3) old [THEN conjunct2, THEN conjunct1, rule_format] by auto
  show "t_id t = i" if "get r' i = Inr t" for i t
    using assms(4) [OF that] old by blast
  show "client m' n = (case find (\<lambda>s. sf_name s = n \<and> client_for env s \<noteq> None) (rev (srcs @ [s])) of
      None \<Rightarrow> None | Some s \<Rightarrow> client_for env s)" for n
    using old [THEN conjunct2, THEN conjunct2, THEN conjunct2]
    by (cases "client_for env s") (simp_all add: assms(5))
qed

lemma import_one:
  assumes "imported env srcs st" and "plain_source env s"
  shows "imported env (srcs @ [s]) (snd (importSource add register env s st))"
proof -
  obtain r m where st: "st = (r, m)" by (cases st)
  have blank: "TrimSpace (sf_name s) \<noteq> []" using assms(2) by (simp add: plain_source_def)
  have old: "imported env srcs (r, m)" "inv r" using assms(1) st by (simp_all add: imported_def)
  show ?thesis unfolding st
  proof (rule importSource_effect [OF blank, where env = env and r = r and m = m], goal_cases)
    case 1
    then have "client_for env s = None" "\<not> offers env s d" for d
      by (simp_all add: client_for_def offers_def)
    with 1 old show ?case unfolding 1 by (intro imported_snoc [OF old]) auto
  next
    case (2 ds c m')
    show ?case unfolding 2
      using registered_step [OF old(2) assms(2) 2(1)] pool.client_of_register [OF 2(3)] 2(2)
      by (intro imported_snoc [OF old(1)]) auto
  next
    case (3 ds)
    show ?case unfolding 3
      using registered_step [OF old(2) assms(2) 3(1)] 3(2) by (intro imported_snoc [OF old(1)]) auto
  qed
qed

lemma import_all:
  assumes "list_all (plain_source env) srcs"
  shows "imported env srcs (fold (\<lambda>s st. snd (importSource add register env s st)) srcs (r0, m0))"
  using assms
proof (induction srcs rule: rev_induct)
  case Nil
  have "\<nexists>t. get r0 i = Inr t" for i using reg.get_empty [of i] by auto
  then show ?case
    using reg.inv_empty pool.client_of_empty by (simp add: imported_def)
next
  case (snoc s srcs)
  then show ?case using import_one by simp
qed

end

interpretation importer: bridge_imports NewMemoryRegistry Register Get registry_inv
    "NewManager t :: 'c manager" ManagerRegister client_of for t
  by unfold_locales

subsection \<open>The bridge\<close>

definition entry_of :: "tool \<Rightarrow> downstream_tool" where
  "entry_of t = \<lparr> ds_source_name = fst (split_id (t_id t)), ds_tool_name = snd (split_id (t_id t)),
     ds_tool = t, ds_raw_schema = t_schema t \<rparr>"

lemma register_tools:
  "map_of (br_tools (fold register_tool ts b)) i =
     (case find (\<lambda>t. t_id t = i) (rev ts) of
        None \<Rightarrow> map_of (br_tools b) i | Some t \<Rightarrow> Some (entry_of t)) \<and>
   br_forward (fold register_tool ts b) = br_forward b"
  by (induction ts arbitrary: b)
    (auto simp: register_tool_def RegisterTool_def entry_of_def find_append update_conv' split_beta
      split: option.split)

lemma find_All:
  assumes "registry_inv r"
  shows "find (\<lambda>t. t_id t = i) (rev (All r)) = map_of r i"
proof -
  have wf: "wf_map r" and key: "k = t_id t" if "(k, t) \<in> set r" for k t
    using registry_invD [OF assms that] registry_inv_wf [OF assms] by auto
  show ?thesis
  proof (cases "find (\<lambda>t. t_id t = i) (rev (All r))")
    case None
    then have "i \<notin> fst ` set r" using key by (force simp: find_None_iff All_def)
    with None show ?thesis by (metis map_of_eq_None_iff)
  next
    case (Some t)
    then have "t \<in> set (rev (All r))" "t_id t = i"
      by (auto simp: find_Some_iff simp del: set_rev intro: nth_mem)
    then have "t \<in> snd ` set r" "t_id t = i" by (simp_all add: All_def)
    then have "(i, t) \<in> set r" using key by force
    with Some wf_map_map_of [OF registry_inv_wf [OF assms]] show ?thesis by metis
  qed
qed

lemma bridge_setup_tools:
  assumes "registry_inv reg"
  shows "map_of (br_tools (bridge_setup call cfg reg m)) i =
      (case Get reg i of Inl e \<Rightarrow> None | Inr t \<Rightarrow> Some (entry_of t)) \<and>
    br_forward (bridge_setup call cfg reg m) =
      (if 0 < ManagerCount m then Some (ManagerCall call m) else None)"
  using register_tools [of "All reg" _ i] find_All [OF assms, of i]
  by (simp add: bridge_setup_def NewBridge_def Get_def split: option.split)

lemma importSource_timeout:
  "mg_timeout (snd (snd (importSource ManagerRegister reg env s (r, m)))) = mg_timeout m"
  by (simp add: importSource_def ManagerRegister_def split_beta split: sum.split option.split)

lemma imports_timeout:
  "mg_timeout (snd (fold (\<lambda>s st. snd (importSource ManagerRegister reg env s st)) srcs st)) =
     mg_timeout (snd st)"
proof (induction srcs arbitrary: st)
  case (Cons s srcs)
  show ?case using importSource_timeout [of reg env s "fst st" "snd st"] Cons by simp
qed simp

lemma expanded_name:
  assumes "s \<in> set (expanded getenv srcs)"
  obtains s0 where "s0 \<in> set srcs" "sf_name s = safeSourceName (sf_name s0)" "sf_name s \<noteq> []"
proof -
  from assms obtain s0 where "s0 \<in> set srcs" "safeSourceName (sf_name s0) \<noteq> []"
    "s = expand_source getenv s0"
    by (auto simp: expanded_def)
  with that show thesis by (simp add: expand_source_def)
qed

lemma expanded_plain:
  assumes "list_all (\<lambda>s. ascii (sf_name s)) srcs"
    and "\<And>s ds. s \<in> set (expanded getenv srcs) \<Longrightarrow> listing env s = Some ds \<Longrightarrow>
      list_all (\<lambda>d. ascii (td_name d)) ds"
  shows "list_all (plain_source env) (expanded getenv srcs)"
proof -
  have "plain_source env s" if "s \<in> set (expanded getenv srcs)" for s
  proof -
    from that obtain s0 where "s0 \<in> set srcs" "sf_name s = safeSourceName (sf_name s0)"
      "sf_name s \<noteq> []" by (rule expanded_name)
    with assms(1) safeSourceName_ascii [of "sf_name s0"] assms(2) [OF that] show ?thesis
      by (simp add: plain_source_def list_all_iff)
  qed
  then show ?thesis by (simp add: list_all_iff)
qed

text \<open>The sources the command reads, normalized, and what the theorems assume of them.\<close>

definition main_sources :: "(string \<Rightarrow> string) \<Rightarrow> bridge_config \<Rightarrow> vscode_source list \<Rightarrow> source_config list" where
  "main_sources getenv cfg vs = expanded getenv (bc_sources cfg @ map source_of_vscode vs)"

definition plain_setup ::
    "'c downstream \<Rightarrow> (string \<Rightarrow> string) \<Rightarrow> bridge_config \<Rightarrow> vscode_source list \<Rightarrow> bool" where
  "plain_setup env getenv cfg vs \<longleftrightarrow>
     list_all (\<lambda>s. ascii (sf_name s)) (bc_sources cfg) \<and> list_all (\<lambda>s. ascii (vs_name s)) vs \<and>
     list_all (\<lambda>s. case listing env s of None \<Rightarrow> True | Some ds \<Rightarrow> list_all (\<lambda>d. ascii (td_name d)) ds)
       (main_sources getenv cfg vs)"

lemma plain_setup_ascii:
  "plain_setup env getenv cfg vs \<Longrightarrow>
     list_all (\<lambda>s. ascii (sf_name s)) (bc_sources cfg @ map source_of_vscode vs)"
  by (auto simp: plain_setup_def list_all_iff source_of_vscode_def)

lemma main_source_dot:
  assumes "s \<in> set (main_sources getenv cfg vs)" and "plain_setup env getenv cfg vs"
  shows "CHR ''.'' \<notin> set (sf_name s)"
proof -
  from assms(1) obtain s0 where "s0 \<in> set (bc_sources cfg @ map source_of_vscode vs)"
    "sf_name s = safeSourceName (sf_name s0)"
    unfolding main_sources_def by (rule expanded_name)
  with plain_setup_ascii [OF assms(2)] safeSourceName_ascii show ?thesis by (simp add: list_all_iff)
qed

lemma main_bridge:
  fixes call :: "int \<Rightarrow> 'c \<Rightarrow> string \<Rightarrow> json \<Rightarrow> error + raw_message" and env :: "'c downstream"
  assumes "plain_setup env getenv cfg vs"
  defines "E \<equiv> main_sources getenv cfg vs" and "b \<equiv> acp_bridge_main call env getenv cfg vs"
  obtains m where
    "\<And>i. map_of (br_tools b) i \<noteq> None \<longleftrightarrow> (\<exists>s \<in> set E. \<exists>d. offers env s d \<and> i = tool_name s d)"
    "\<And>i e. map_of (br_tools b) i = Some e \<Longrightarrow> \<exists>t. t_id t = i \<and> e = entry_of t"
    "br_forward b = (if 0 < ManagerCount m then Some (ManagerCall call m) else None)"
    "mg_timeout m = 30 * 1000000000"
    "\<And>n. client_of m n = (case find (\<lambda>s. sf_name s = n \<and> client_for env s \<noteq> None) (rev E) of
       None \<Rightarrow> None | Some s \<Rightarrow> client_for env s)"
proof -
  let ?srcs = "bc_sources cfg @ map source_of_vscode vs"
  have "list_all (plain_source env) E"
    unfolding E_def main_sources_def
  proof (rule expanded_plain)
    show "list_all (\<lambda>s. ascii (sf_name s)) ?srcs"
      by (rule plain_setup_ascii [OF assms(1)])
    show "list_all (\<lambda>d. ascii (td_name d)) ds"
      if "s \<in> set (expanded getenv ?srcs)" "listing env s = Some ds" for s ds
      using that assms(1) by (force simp: plain_setup_def main_sources_def list_all_iff)
  qed
  note imp = importer.import_all [OF this, of "30 * 1000000000"]
  obtain reg m where st: "fold (\<lambda>s st. snd (importSource ManagerRegister Register env s st)) E
      (NewMemoryRegistry, NewManager (30 * 1000000000)) = (reg, m)"
    by (metis prod.exhaust)
  have b: "b = bridge_setup call cfg reg m"
    using st by (simp add: b_def acp_bridge_main_def import_sources_fold E_def main_sources_def)
  note I = imp [unfolded st importer.imported_def fst_conv snd_conv]
  then have inv: "registry_inv reg" by blast
  note tls = bridge_setup_tools [OF inv, of call cfg m]
  have Get: "Get reg i = Inr t \<longleftrightarrow> map_of reg i = Some t" for i t
    by (simp add: Get_def split: option.split)
  have tools: "map_of (br_tools b) i = map_option entry_of (map_of reg i)" for i
    using tls [of i] unfolding b Get_def by (simp split: option.split)
  have t: "mg_timeout m = 30 * 1000000000"
    using imports_timeout [of Register env E "(NewMemoryRegistry, NewManager (30 * 1000000000))"]
    unfolding st by (simp add: NewManager_def)
  show thesis
  proof (rule that [of m])
    show "map_of (br_tools b) i \<noteq> None \<longleftrightarrow> (\<exists>s \<in> set E. \<exists>d. offers env s d \<and> i = tool_name s d)" for i
      unfolding tools I [THEN conjunct2, THEN conjunct1, rule_format, symmetric] Get by simp
    show "\<exists>t. t_id t = i \<and> e = entry_of t" if "map_of (br_tools b) i = Some e" for i e
      using that I [THEN conjunct2, THEN conjunct2, THEN conjunct1] unfolding tools Get by auto
    show "br_forward b = (if 0 < ManagerCount m then Some (ManagerCall call m) else None)"
      using tls unfolding b by blast
    show "mg_timeout m = 30 * 1000000000" by (rule t)
    show "client_of m n = (case find (\<lambda>s. sf_name s = n \<and> client_for env s \<noteq> None) (rev E) of
       None \<Rightarrow> None | Some s \<Rightarrow> client_for env s)" for n
      using I by blast
  qed
qed

lemma find_named:
  assumes "distinct (map f xs)" and "x \<in> set xs"
  shows "find (\<lambda>y. f y = f x \<and> P y) (rev xs) = (if P x then Some x else None)"
proof -
  have u: "y = x" if "y \<in> set xs" "f y = f x" for y
    using assms that by (auto simp: distinct_map inj_on_def)
  show ?thesis
  proof (cases "find (\<lambda>y. f y = f x \<and> P y) (rev xs)")
    case None
    with assms(2) show ?thesis by (auto simp: find_None_iff)
  next
    case (Some y)
    then have "y \<in> set (rev xs)" "f y = f x \<and> P y"
      by (auto simp: find_Some_iff simp del: set_rev intro: nth_mem)
    with u [of y] Some show ?thesis by auto
  qed
qed

lemma handleToolsCall_reply:
  assumes "decode (rpc_params req) = Inr (name, args)" and "map_of (br_tools b) name = Some e"
  shows "last (fst (handleToolsCall decode now req b)) = RpcResult (rpc_request_id req)
    (case br_forward b of
       Some call \<Rightarrow> (case call (ds_source_name e) (ds_tool_name e) args of
           Inl err \<Rightarrow> text_content (Error err) True | Inr result \<Rightarrow> raw_json result)
     | None \<Rightarrow> text_content (''Tool '' @ name @ '' routed to downstream '' @
         ds_source_name e @ ''.'' @ ds_tool_name e) False)"
  using assms by (simp add: handleToolsCall_def Let_def)

lemma main_bridge_ids:
  assumes "plain_setup env getenv cfg vs"
  shows "map_of (br_tools (acp_bridge_main call env getenv cfg vs)) i \<noteq> None \<longleftrightarrow>
    (\<exists>s \<in> set (main_sources getenv cfg vs). \<exists>d. offers env s d \<and> i = tool_name s d)"
  by (rule main_bridge [OF assms, of call]) blast

lemma main_bridge_entry:
  assumes "plain_setup env getenv cfg vs"
    and "map_of (br_tools (acp_bridge_main call env getenv cfg vs)) i = Some e"
  shows "\<exists>t. t_id t = i \<and> e = entry_of t"
  by (rule main_bridge [OF assms(1), of call]) (use assms(2) in blast)

lemma bridge_tools_facts:
  assumes "plain_setup env getenv cfg vs" and "s \<in> set (main_sources getenv cfg vs)" and "offers env s d"
  shows "\<exists>e. map_of (br_tools (acp_bridge_main call env getenv cfg vs)) (tool_name s d) = Some e \<and>
    ds_source_name e = sf_name s \<and> ds_tool_name e = td_name d"
proof -
  define b where "b = acp_bridge_main call env getenv cfg vs"
  have "map_of (br_tools b) (tool_name s d) \<noteq> None"
    using main_bridge_ids [OF assms(1), of call] assms(2,3) unfolding b_def by blast
  then obtain e where e: "map_of (br_tools b) (tool_name s d) = Some e" by blast
  obtain t where t: "t_id t = tool_name s d" "e = entry_of t"
    using main_bridge_entry [OF assms(1), of call] e unfolding b_def by blast
  have "CHR ''.'' \<notin> set (sf_name s)" by (rule main_source_dot [OF assms(2,1)])
  with e t split_id_dot show ?thesis by (simp add: entry_of_def b_def)
qed

subsection \<open>Environment references\<close>

lemma ExpandEnv_plain: "CHR ''$'' \<notin> set s \<Longrightarrow> ExpandEnv getenv s = s"
  by (induction s) auto

lemma Index_plain: "CHR ''$'' \<notin> set s \<Longrightarrow> Index s env_prefix = None"
  by (induction s) (auto simp: env_prefix_def HasPrefix_def)

lemma Index_env: "CHR ''$'' \<notin> set a \<Longrightarrow> Index (a @ env_prefix @ s) env_prefix = Some (length a)"
proof (induction a)
  case Nil
  then show ?case by (cases s) (simp_all add: env_prefix_def HasPrefix_def)
next
  case (Cons c a)
  then have "c \<noteq> CHR ''$''" by auto
  with Cons show ?case by (simp add: env_prefix_def HasPrefix_def)
qed

lemma expandEnv_plain: "CHR ''$'' \<notin> set s \<Longrightarrow> expandEnv getenv s = s"
  by (subst expandEnv.simps) (simp add: Index_plain ExpandEnv_plain)

lemma expandEnv_reference:
  assumes "CHR ''$'' \<notin> set a" and "CHR ''}'' \<notin> set n"
  shows "expandEnv getenv (a @ env_prefix @ n @ ''}'' @ s) = a @ getenv n @ expandEnv getenv s"
proof -
  have "takeWhile (\<lambda>c. c \<noteq> CHR ''}'') (n @ CHR ''}'' # s) = n"
    "dropWhile (\<lambda>c. c \<noteq> CHR ''}'') (n @ CHR ''}'' # s) = CHR ''}'' # s"
    using assms(2) by (induction n) auto
  then show ?thesis
    by (subst expandEnv.simps) (simp add: Index_env [OF assms(1)] ExpandEnv_plain assms(1) before_byte_def)
qed

text \<open>A text with references, and its value.\<close>

definition print_template :: "(string \<times> string) list \<Rightarrow> string \<Rightarrow> string" where
  "print_template refs tail = concat (map (\<lambda>(a, n). a @ ''${env:'' @ n @ ''}'') refs) @ tail"

definition template_value :: "(string \<Rightarrow> string) \<Rightarrow> (string \<times> string) list \<Rightarrow> string \<Rightarrow> string" where
  "template_value getenv refs tail = concat (map (\<lambda>(a, n). a @ getenv n) refs) @ tail"

section \<open>Properties\<close>

text \<open>C24: the bridge serves exactly the tools its sources offer. With ASCII names, the tools of the
  bridge that the command sets up are those of the descriptors that every source which could be
  started and listed has before its first nameless one, each under the name of its source and its
  own, and each leads back to a source and a tool of exactly these names.\<close>

theorem bridge_tools_exact:
  assumes "plain_setup env getenv cfg vs"
  shows "let b = acp_bridge_main call env getenv cfg vs; E = main_sources getenv cfg vs in
    (\<forall>i. map_of (br_tools b) i \<noteq> None \<longleftrightarrow>
       (\<exists>s \<in> set E. \<exists>d. offers env s d \<and> i = sf_name s @ ''.'' @ td_name d)) \<and>
    (\<forall>s \<in> set E. \<forall>d. offers env s d \<longrightarrow>
       (\<exists>e. map_of (br_tools b) (sf_name s @ ''.'' @ td_name d) = Some e \<and>
          ds_source_name e = sf_name s \<and> ds_tool_name e = td_name d))"
  using main_bridge_ids [OF assms, of call] bridge_tools_facts [OF assms, of _ _ call]
  unfolding Let_def by blast


text \<open>tools of an HTTP source are listed, but a call of one never leaves the bridge: importing
  them adds no client, so the reply is an error, or, when there is no client at all, a placeholder
  text that looks like a success.\<close>

theorem http_tools_cannot_be_called:
  assumes "plain_setup env getenv cfg vs" and "distinct (map sf_name (main_sources getenv cfg vs))"
    and "s \<in> set (main_sources getenv cfg vs)" and "offers env s d" and "sourceType s = ''http''"
    and "decode (rpc_params req) = Inr (sf_name s @ ''.'' @ td_name d, args)"
  shows "let b = snd (Serve parse decode ls (acp_bridge_main call env getenv cfg vs));
      name = sf_name s @ ''.'' @ td_name d in
    last (fst (handleToolsCall decode now req b)) \<in>
      {RpcResult (rpc_request_id req) (text_content
         (''mcpclient: no downstream client for source '' @ fmt_q (sf_name s)) True),
       RpcResult (rpc_request_id req) (text_content
         (''Tool '' @ name @ '' routed to downstream '' @ name) False)}"
proof -
  define b0 where "b0 = acp_bridge_main call env getenv cfg vs"
  define b where "b = snd (Serve parse decode ls b0)"
  have same: "br_tools b = br_tools b0" "br_forward b = br_forward b0"
    using Serve_state [of b0 parse decode ls] by (simp_all add: b_def same_setup_def)
  obtain e where e: "map_of (br_tools b0) (tool_name s d) = Some e" "ds_source_name e = sf_name s"
    "ds_tool_name e = td_name d"
    using bridge_tools_facts [OF assms(1,3,4), of call] unfolding b0_def by blast
  obtain m where fwd: "br_forward b0 = (if 0 < ManagerCount m then Some (ManagerCall call m) else None)"
    and "client_of m (sf_name s) = (case find (\<lambda>s'. sf_name s' = sf_name s \<and> client_for env s' \<noteq> None)
      (rev (main_sources getenv cfg vs)) of None \<Rightarrow> None | Some s \<Rightarrow> client_for env s)"
    by (rule main_bridge [OF assms(1), of call]) (auto simp: b0_def)
  then have "map_of (mg_clients m) (sf_name s) = None"
    using find_named [OF assms(2,3), of "\<lambda>s. client_for env s \<noteq> None"] assms(5)
    by (simp add: client_for_def client_of_def)
  then have "last (fst (handleToolsCall decode now req b)) \<in>
      {RpcResult (rpc_request_id req) (text_content
         (''mcpclient: no downstream client for source '' @ fmt_q (sf_name s)) True),
       RpcResult (rpc_request_id req) (text_content
         (''Tool '' @ tool_name s d @ '' routed to downstream '' @ tool_name s d) False)}"
    using handleToolsCall_reply [where decode = decode and req = req and name = "tool_name s d" and
      args = args and b = b and e = e, OF assms(6)] e fwd
    by (simp add: same ManagerCall_def)
  then show ?thesis by (simp only: Let_def b_def b0_def)
qed

text \<open>references to the environment are replaced once. In a text without other dollar signs every
  \<open>${env:NAME}\<close> becomes the value of the variable, which is not expanded again, and everything else
  stays.\<close>

theorem expandEnv_template:
  assumes "list_all (\<lambda>(a, n). CHR ''$'' \<notin> set a \<and> CHR ''}'' \<notin> set n) refs"
    and "CHR ''$'' \<notin> set tail"
  shows "expandEnv getenv (print_template refs tail) = template_value getenv refs tail"
  using assms(1)
proof (induction refs)
  case Nil
  then show ?case by (simp add: print_template_def template_value_def expandEnv_plain assms(2))
next
  case (Cons r refs)
  obtain a n where r: "r = (a, n)" by (cases r)
  have "print_template (r # refs) tail = a @ env_prefix @ n @ ''}'' @ print_template refs tail"
    by (simp add: print_template_def r env_prefix_def)
  with Cons expandEnv_reference [of a n getenv "print_template refs tail"] r show ?case
    by (simp add: template_value_def)
qed

theorem expandEnv_template_witness:
  "expandEnv (\<lambda>n. ''$'' @ n) (print_template [(''Bearer '', ''TOKEN''), (''.'', ''HOME'')] ''!'') =
     ''Bearer $TOKEN.$HOME!''"
proof -
  have "list_all (\<lambda>(a, n). CHR ''$'' \<notin> set a \<and> CHR ''}'' \<notin> set n)
      [(''Bearer '', ''TOKEN''), (''.'', ''HOME'')]" "CHR ''$'' \<notin> set ''!''" by simp_all
  from expandEnv_template [OF this] show ?thesis by (simp add: template_value_def)
qed

definition demo_descriptor :: "string \<Rightarrow> tool_descriptor" where
  "demo_descriptor n = \<lparr> td_name = n, td_description = [], td_input_schema = None \<rparr>"

text \<open>Clients are named by their command; a client lists one tool, and answers with its name.\<close>

definition demo_env :: "string downstream" where
  "demo_env = \<lparr> de_spawn = (\<lambda>cmd. Inr (cm_command cmd)), de_initialize = (\<lambda>c. None),
     de_list = (\<lambda>c. Inr [demo_descriptor (''t_'' @ c)]),
     de_net = \<lparr> mn_build = (\<lambda>u. None), mn_fetch = (\<lambda>r. Inr (200, [])),
       mn_decode = (\<lambda>b. Inr [demo_descriptor ''get'', demo_descriptor '' '']) \<rparr> \<rparr>"

definition demo_call :: "int \<Rightarrow> string \<Rightarrow> string \<Rightarrow> json \<Rightarrow> error + raw_message" where
  "demo_call timeout c name args = Inr (Some (JStr (c @ '' ran '' @ name)))"

definition demo_config_source :: "string \<Rightarrow> string \<Rightarrow> string \<Rightarrow> source_config" where
  "demo_config_source name cmd url =
     \<lparr> sf_name = name, sf_type = [], sf_url = url, sf_command = cmd, sf_args = [], sf_env = [],
       sf_auth = [], sf_capabilities = [] \<rparr>"

definition demo_cfg :: bridge_config where
  "demo_cfg = \<lparr> bc_sources = [demo_config_source ''My Src'' ''uvx'' [], demo_config_source ''Web'' [] ''https://w''],
     bc_narrow_threshold = 0, bc_window_size = 0 \<rparr>"

definition demo_call_request :: rpc_request where
  "demo_call_request = \<lparr> rpc_request_id = Some ''7'', rpc_method = ''tools/call'', rpc_params = None \<rparr>"

lemma demo_main_sources:
  "main_sources (\<lambda>n. []) demo_cfg [] =
     [demo_config_source ''my_src'' ''uvx'' [], demo_config_source ''web'' [] ''https://w'']"
  by code_simp

lemma demo_setup: "plain_setup demo_env (\<lambda>n. []) demo_cfg []"
  by code_simp

lemma demo_offers: "offers demo_env (demo_config_source ''my_src'' ''uvx'' []) (demo_descriptor ''t_uvx'')"
  "offers demo_env (demo_config_source ''web'' [] ''https://w'') (demo_descriptor ''get'')"
proof -
  have "listing demo_env (demo_config_source ''my_src'' ''uvx'' []) = Some [demo_descriptor ''t_uvx'']"
    "listing demo_env (demo_config_source ''web'' [] ''https://w'') =
       Some [demo_descriptor ''get'', demo_descriptor '' '']"
    "named (demo_descriptor ''t_uvx'')" "named (demo_descriptor ''get'')"
    by code_simp+
  then show "offers demo_env (demo_config_source ''my_src'' ''uvx'' []) (demo_descriptor ''t_uvx'')"
    "offers demo_env (demo_config_source ''web'' [] ''https://w'') (demo_descriptor ''get'')"
    by (simp_all add: offers_def)
qed

lemma demo_names: "distinct (map sf_name (main_sources (\<lambda>n. []) demo_cfg []))"
  unfolding demo_main_sources by (simp add: demo_config_source_def)

theorem bridge_tools_exact_witness:
  "map_of (br_tools (acp_bridge_main demo_call demo_env (\<lambda>n. []) demo_cfg [])) ''web.get'' \<noteq> None"
proof -
  have "''web.get'' = sf_name (demo_config_source ''web'' [] ''https://w'') @ ''.'' @
      td_name (demo_descriptor ''get'')" by code_simp
  with bridge_tools_exact [OF demo_setup, of demo_call, unfolded Let_def demo_main_sources] demo_offers(2)
  show ?thesis by auto
qed


theorem http_tools_cannot_be_called_witness:
  "last (fst (handleToolsCall (\<lambda>p. Inr (''web.get'', JNull)) 0 demo_call_request
     (snd (Serve demo_rpc (\<lambda>p. Inr (''web.get'', JNull)) []
        (acp_bridge_main demo_call demo_env (\<lambda>n. []) demo_cfg []))))) \<in>
   {RpcResult (Some ''7'') (text_content (''mcpclient: no downstream client for source '' @ fmt_q ''web'') True),
    RpcResult (Some ''7'') (text_content ''Tool web.get routed to downstream web.get'' False)}"
proof -
  let ?s = "demo_config_source ''web'' [] ''https://w''"
  have "sourceType ?s = ''http''" by code_simp
  moreover have "sf_name ?s @ ''.'' @ td_name (demo_descriptor ''get'') = ''web.get''" "sf_name ?s = ''web''"
    by code_simp+
  moreover have "?s \<in> set (main_sources (\<lambda>n. []) demo_cfg [])" by (simp add: demo_main_sources)
  ultimately show ?thesis
    using http_tools_cannot_be_called [OF demo_setup demo_names _ demo_offers(2),
      where decode = "\<lambda>p. Inr (''web.get'', JNull)" and req = demo_call_request and args = JNull
      and parse = demo_rpc and ls = "[]" and call = demo_call and now = 0]
    by (simp add: demo_call_request_def Let_def)
qed

text \<open>without different names it goes wrong: \<open>My-Src\<close> and \<open>my src\<close> become one name, the client of
  the second replaces that of the first, and the first one's tool, which stays listed, is sent to a
  server that does not have it.\<close>

theorem colliding_names_misroute:
  "let cfg = demo_cfg \<lparr> bc_sources := [demo_config_source ''My-Src'' ''a'' [], demo_config_source ''my src'' ''b'' []] \<rparr>;
       b = acp_bridge_main demo_call demo_env (\<lambda>n. []) cfg [] in
   map fst (br_tools b) = [''my_src.t_a'', ''my_src.t_b''] \<and>
   last (fst (handleToolsCall (\<lambda>p. Inr (''my_src.t_a'', JNull)) 0 demo_call_request b)) =
     RpcResult (Some ''7'') (JStr ''b ran t_a'')"
  by code_simp

end
