(* ===== verification/ImportDemo.thy ===== *)
theory ImportDemo
  imports McpSource
begin

text \<open>
  The \<open>import-demo\<close> command of \<open>cmd/import-demo/main.go\<close>: the parser of its repeatable
  \<open>-source\<close> flag, and the loop that imports every source and reports what each gave. The command
  line and the printed report are in theory Commands.
\<close>

section \<open>The flag\<close>

text \<open>\<open>strings.Cut\<close> at one byte.\<close>

definition Cut :: "char \<Rightarrow> string \<Rightarrow> (string \<times> string) option" where
  "Cut c s =
     (if c \<in> set s then Some (before_byte c s, tl (dropWhile (\<lambda>x. x \<noteq> c) s)) else None)"

definition empty_source :: mcp_source where
  "empty_source = \<lparr> src_name = [], src_base_url = [], src_type = [], src_auth = [],
     src_extra_capabilities = [] \<rparr>"

definition caps_of :: "string \<Rightarrow> string list" where
  "caps_of v = filter (\<lambda>c. c \<noteq> []) (map TrimSpace (Split CHR ''|'' v))"

text \<open>One pass of the loop over the pairs of the flag's value.\<close>

definition set_pair :: "string \<Rightarrow> mcp_source \<Rightarrow> error + mcp_source" where
  "set_pair kv src =
     (case Cut CHR ''='' (TrimSpace kv) of
        None \<Rightarrow> Inl (Errorf (''expected key=value, got '' @ fmt_q kv))
      | Some (k, v) \<Rightarrow>
          (let key = ToLower (TrimSpace k) in
           if key = ''name'' then Inr (src \<lparr> src_name := TrimSpace v \<rparr>)
           else if key = ''url'' \<or> key = ''baseurl'' then Inr (src \<lparr> src_base_url := TrimSpace v \<rparr>)
           else if key = ''auth'' then Inr (src \<lparr> src_auth := TrimSpace v \<rparr>)
           else if key = ''caps'' \<or> key = ''capabilities'' then
             Inr (src \<lparr> src_extra_capabilities := src_extra_capabilities src @ caps_of v \<rparr>)
           else Inl (Errorf (''unknown source key '' @ fmt_q k))))"

fun set_pairs :: "string list \<Rightarrow> mcp_source \<Rightarrow> error + mcp_source" where
  "set_pairs [] src = Inr src"
| "set_pairs (kv # kvs) src =
     (case set_pair kv src of Inl e \<Rightarrow> Inl e | Inr src' \<Rightarrow> set_pairs kvs src')"

definition SourceFlagSet :: "string \<Rightarrow> mcp_source list \<Rightarrow> error + mcp_source list" where
  "SourceFlagSet raw sources =
     (case set_pairs (Split CHR '','' raw) empty_source of
        Inl e \<Rightarrow> Inl e
      | Inr src \<Rightarrow>
          if src_name src = [] \<or> src_base_url src = [] then
            Inl (Errorf ''source needs at least name and url'')
          else Inr (sources @ [src]))"

definition SourceFlagString :: "mcp_source list \<Rightarrow> string" where
  "SourceFlagString sources = dec (length sources) @ '' source(s)''"

section \<open>The run\<close>

text \<open>The exit code 2 when there is no source; otherwise the report of every source (its count or its
  error, with the loop going on) and the registry at the end, whose tools are printed.\<close>

fun import_each ::
    "mcp_net \<Rightarrow> mcp_source list \<Rightarrow> registry \<Rightarrow> (string \<times> (error + nat)) list \<times> registry" where
  "import_each n [] reg = ([], reg)"
| "import_each n (src # srcs) reg =
     (case ImportSource n Register src reg of
        (k, err, reg1) \<Rightarrow>
          (case import_each n srcs reg1 of
             (rs, reg') \<Rightarrow>
               ((src_name src, (case err of Some e \<Rightarrow> Inl e | None \<Rightarrow> Inr k)) # rs, reg')))"

definition import_demo_main ::
    "mcp_net \<Rightarrow> mcp_source list \<Rightarrow> nat + (string \<times> (error + nat)) list \<times> tool list" where
  "import_demo_main n sources =
     (if sources = [] then Inl 2
      else (case import_each n sources NewMemoryRegistry of (rs, reg) \<Rightarrow> Inr (rs, All reg)))"

section \<open>Lemmas\<close>

lemma Cut_append: "c \<notin> set a \<Longrightarrow> Cut c (a @ c # b) = Some (a, b)"
  unfolding Cut_def before_byte_def by (induction a) auto

text \<open>A value that is empty or trimmed, and one without certain bytes.\<close>

definition plain_value :: "string \<Rightarrow> bool" where
  "plain_value v \<longleftrightarrow> v = [] \<or> trimmed v"

lemma TrimSpace_plain [simp]: "plain_value v \<Longrightarrow> TrimSpace v = v"
  by (auto simp: plain_value_def)

lemma set_pair_key:
  assumes "trimmed k" and "CHR ''='' \<notin> set k" and "ascii v" and "v = [] \<or> \<not> space_char (last v)"
  shows "Cut CHR ''='' (TrimSpace (k @ CHR ''='' # v)) = Some (k, v)"
proof -
  have "\<not> space_char CHR ''=''" "ascii [CHR ''='']" by code_simp+
  then have "trimmed (k @ CHR ''='' # v)"
    using assms by (auto simp: trimmed_def) (simp add: ascii_def)
  then show ?thesis using Cut_append assms(2) by simp
qed

lemma plain_value_end: "plain_value v \<Longrightarrow> ascii v \<and> (v = [] \<or> \<not> space_char (last v))"
  by (auto simp: plain_value_def trimmed_def)

lemma caps_of_Join:
  assumes "caps \<noteq> []" and "list_all (\<lambda>c. trimmed c \<and> CHR ''|'' \<notin> set c) caps"
  shows "caps_of (Join ''|'' caps) = caps"
proof -
  have "Split CHR ''|'' (Join ''|'' caps) = caps"
    using assms by (intro Split_Join) (auto simp: list_all_iff)
  moreover have "map TrimSpace caps = caps" using assms(2) by (simp add: list_all_iff map_idI)
  moreover have "filter (\<lambda>c. c \<noteq> []) caps = caps"
    using assms(2) by (intro filter_True) (auto simp: list_all_iff trimmed_def)
  ultimately show ?thesis by (simp add: caps_of_def)
qed



lemma Join_bar_end:
  "ps \<noteq> [] \<Longrightarrow> list_all trimmed ps \<Longrightarrow>
     ascii (Join ''|'' ps) \<and> Join ''|'' ps \<noteq> [] \<and> \<not> space_char (last (Join ''|'' ps))"
proof (induction "''|''" ps rule: Join.induct)
  case (3 x y ys)
  have "ascii ''|''" by code_simp
  moreover from 3 have "ascii (Join ''|'' (y # ys))" by simp
  ultimately have "ascii (''|'' @ Join ''|'' (y # ys))" by (simp only: ascii_append simp_thms)
  with 3 show ?case by (auto simp: trimmed_def)
qed (simp_all add: trimmed_def)

lemma set_Join: "set (Join [c] ps) \<subseteq> insert c (\<Union> (set ` set ps))"
  by (induction "[c]" ps rule: Join.induct) auto

text \<open>How a source is written on the command line, and which sources can be.\<close>

definition print_source :: "mcp_source \<Rightarrow> string" where
  "print_source src =
     Join '','' ([''name='' @ src_name src, ''url='' @ src_base_url src] @
       (if src_auth src = [] then [] else [''auth='' @ src_auth src]) @
       (if src_extra_capabilities src = [] then []
        else [''caps='' @ Join ''|'' (src_extra_capabilities src)]))"

definition printable_source :: "mcp_source \<Rightarrow> bool" where
  "printable_source src \<longleftrightarrow>
     trimmed (src_name src) \<and> trimmed (src_base_url src) \<and> plain_value (src_auth src) \<and> src_type src = [] \<and>
     CHR '','' \<notin> set (src_name src @ src_base_url src @ src_auth src) \<and>
     list_all (\<lambda>c. trimmed c \<and> CHR ''|'' \<notin> set c \<and> CHR '','' \<notin> set c) (src_extra_capabilities src)"

lemma set_pair_simps:
  assumes "ascii v" and "v = [] \<or> \<not> space_char (last v)"
  shows "set_pair (''name='' @ v) src = Inr (src \<lparr> src_name := TrimSpace v \<rparr>)"
    and "set_pair (''url='' @ v) src = Inr (src \<lparr> src_base_url := TrimSpace v \<rparr>)"
    and "set_pair (''auth='' @ v) src = Inr (src \<lparr> src_auth := TrimSpace v \<rparr>)"
    and "set_pair (''caps='' @ v) src =
      Inr (src \<lparr> src_extra_capabilities := src_extra_capabilities src @ caps_of v \<rparr>)"
proof -
  have k: "list_all (\<lambda>k. trimmed k \<and> CHR ''='' \<notin> set k \<and> ToLower (TrimSpace k) = k)
      [''name'', ''url'', ''auth'', ''caps'']" by code_simp
  have c: "Cut CHR ''='' (TrimSpace (k @ ''='' @ v)) = Some (k, v)" "ToLower (TrimSpace k) = k"
    if "k \<in> set [''name'', ''url'', ''auth'', ''caps'']" for k
    using set_pair_key [OF _ _ assms, of k] k [unfolded list_all_iff, rule_format, OF that]
    unfolding append_Cons append_Nil by blast+
  show "set_pair (''name='' @ v) src = Inr (src \<lparr> src_name := TrimSpace v \<rparr>)"
    using c [of "''name''"] by (simp add: set_pair_def)
  show "set_pair (''url='' @ v) src = Inr (src \<lparr> src_base_url := TrimSpace v \<rparr>)"
    using c [of "''url''"] by (simp add: set_pair_def)
  show "set_pair (''auth='' @ v) src = Inr (src \<lparr> src_auth := TrimSpace v \<rparr>)"
    using c [of "''auth''"] by (simp add: set_pair_def)
  show "set_pair (''caps='' @ v) src =
      Inr (src \<lparr> src_extra_capabilities := src_extra_capabilities src @ caps_of v \<rparr>)"
    using c [of "''caps''"] by (simp add: set_pair_def)
qed

lemma Split_print_source:
  assumes "printable_source src"
  shows "Split CHR '','' (print_source src) =
    [''name='' @ src_name src, ''url='' @ src_base_url src] @
       (if src_auth src = [] then [] else [''auth='' @ src_auth src]) @
       (if src_extra_capabilities src = [] then []
        else [''caps='' @ Join ''|'' (src_extra_capabilities src)])"
proof -
  have "CHR '','' \<notin> set (Join ''|'' (src_extra_capabilities src))"
    using set_Join [of "CHR ''|''" "src_extra_capabilities src"] assms
    by (auto simp: printable_source_def list_all_iff)
  then show ?thesis
    unfolding print_source_def using assms
    by (intro Split_Join) (auto simp: printable_source_def)
qed

section \<open>Properties\<close>

text \<open>the flag reads back what is written. A source whose values have no comma, no surrounding blanks
  and, in the capabilities, no bar is added at the end of the list exactly as it was.\<close>

theorem sourceFlag_roundtrip:
  assumes "printable_source src"
  shows "SourceFlagSet (print_source src) sources = Inr (sources @ [src])"
proof -
  have p: "trimmed (src_name src)" "trimmed (src_base_url src)" "plain_value (src_auth src)" "src_type src = []"
    using assms by (simp_all add: printable_source_def)
  have caps: "ascii (Join ''|'' cs) \<and> \<not> space_char (last (Join ''|'' cs)) \<and> caps_of (Join ''|'' cs) = cs"
    if "cs \<noteq> []" "cs = src_extra_capabilities src" for cs
    using Join_bar_end [of cs] caps_of_Join [of cs] assms that
    by (auto simp: printable_source_def list_all_iff)
  have ends: "ascii v \<and> (v = [] \<or> \<not> space_char (last v))" "TrimSpace v = v"
    if "v \<in> {src_name src, src_base_url src, src_auth src}" for v
    using p that plain_value_end by (auto simp: trimmed_def)
  have "set_pairs (Split CHR '','' (print_source src)) empty_source = Inr src"
    unfolding Split_print_source [OF assms]
    using set_pair_simps(1) [of "src_name src"] set_pair_simps(2) [of "src_base_url src"]
      set_pair_simps(3) [of "src_auth src"] set_pair_simps(4) [of "Join ''|'' (src_extra_capabilities src)"]
      ends caps p(4)
    by (cases src) (auto simp: empty_source_def)
  then show ?thesis
    using p by (simp add: SourceFlagSet_def trimmed_def)
qed

theorem sourceFlag_roundtrip_witness:
  "SourceFlagSet ''name=gh,url=http://gh:1,auth=bearer x=y,caps=a|b'' [] =
     Inr [\<lparr> src_name = ''gh'', src_base_url = ''http://gh:1'', src_type = [], src_auth = ''bearer x=y'',
            src_extra_capabilities = [''a'', ''b''] \<rparr>]"
proof -
  let ?s = "\<lparr> src_name = ''gh'', src_base_url = ''http://gh:1'', src_type = [], src_auth = ''bearer x=y'',
            src_extra_capabilities = [''a'', ''b''] \<rparr>"
  have "printable_source ?s" by code_simp
  from sourceFlag_roundtrip [OF this, of "[]"] show ?thesis by (simp add: print_source_def)
qed

text \<open>a credential with a comma cannot be given: the part after it is taken for another pair.\<close>

theorem comma_cuts_auth:
  "SourceFlagSet ''name=gh,url=http://gh:1,auth=a,b'' [] =
     Inl (Errorf (''expected key=value, got '' @ fmt_q ''b''))"
  by code_simp

end
