(* ===== verification/Flags.thy ===== *)
theory Flags
  imports Prelude
begin

text \<open>
  The command line as the package \<open>flag\<close> reads it for the commands: flags with one or two dashes,
  values after an equals sign or in the next argument, boolean flags without a value, and the first
  argument that is no flag ends the parsing. The process exits with 0 after a request for help and
  with 2 after any other error.
\<close>

section \<open>Parsing\<close>

text \<open>A flag by what it does to the options; a boolean flag needs no value.\<close>

datatype 'a flag_value =
  BoolFlag "bool \<Rightarrow> 'a \<Rightarrow> 'a"
| ValueFlag "string \<Rightarrow> 'a \<Rightarrow> error + 'a"

definition StringFlag :: "((string \<Rightarrow> string) \<Rightarrow> 'a \<Rightarrow> 'a) \<Rightarrow> 'a flag_value" where
  "StringFlag upd = ValueFlag (\<lambda>s a. Inr (upd (\<lambda>_. s) a))"

type_synonym 'a flag_set = "(string \<times> 'a flag_value) list"

datatype flag_error = ErrHelp | FlagFailure string

definition flag_exit :: "flag_error \<Rightarrow> nat" where
  "flag_exit e = (case e of ErrHelp \<Rightarrow> 0 | FlagFailure msg \<Rightarrow> 2)"

definition ParseBool :: "string \<Rightarrow> bool option" where
  "ParseBool s =
     (if s \<in> set [''1'', ''t'', ''T'', ''true'', ''TRUE'', ''True''] then Some True
      else if s \<in> set [''0'', ''f'', ''F'', ''false'', ''FALSE'', ''False''] then Some False
      else None)"

text \<open>An argument that is no flag, or the name and the value of a flag, if it has one; \<open>None\<close> for a
  malformed one.\<close>

definition is_flag :: "string \<Rightarrow> bool" where
  "is_flag s \<longleftrightarrow> 2 \<le> length s \<and> hd s = CHR ''-'' \<and> s \<noteq> ''--''"

definition flag_text :: "string \<Rightarrow> string" where
  "flag_text s = (if s ! 1 = CHR ''-'' then drop 2 s else drop 1 s)"

definition flag_name :: "string \<Rightarrow> string" where
  "flag_name s = before_byte CHR ''='' (flag_text s)"

definition flag_argument :: "string \<Rightarrow> string option" where
  "flag_argument s =
     (if CHR ''='' \<in> set (flag_text s) then Some (tl (dropWhile (\<lambda>c. c \<noteq> CHR ''='') (flag_text s))) else None)"

fun parse_flags :: "'a flag_set \<Rightarrow> string list \<Rightarrow> 'a \<Rightarrow> flag_error + 'a \<times> string list" where
  "parse_flags fs [] a = Inr (a, [])"
| "parse_flags fs (s # args) a =
     (if s = ''--'' then Inr (a, args)
      else if \<not> is_flag s then Inr (a, s # args)
      else if flag_text s = [] \<or> hd (flag_text s) = CHR ''-'' \<or> hd (flag_text s) = CHR ''='' then
        Inl (FlagFailure (''bad flag syntax: '' @ s))
      else (case map_of fs (flag_name s) of
          None \<Rightarrow>
            if flag_name s = ''help'' \<or> flag_name s = ''h'' then Inl ErrHelp
            else Inl (FlagFailure (''flag provided but not defined: -'' @ flag_name s))
        | Some (BoolFlag put) \<Rightarrow>
            (case flag_argument s of
               None \<Rightarrow> parse_flags fs args (put True a)
             | Some v \<Rightarrow>
                 (case ParseBool v of
                    None \<Rightarrow> Inl (FlagFailure (''invalid boolean value '' @ fmt_q v @ '' for -'' @ flag_name s @
                      '': parse error''))
                  | Some x \<Rightarrow> parse_flags fs args (put x a)))
        | Some (ValueFlag put) \<Rightarrow>
            (case flag_argument s of
               Some v \<Rightarrow>
                 (case put v a of
                    Inl e \<Rightarrow> Inl (FlagFailure (''invalid value '' @ fmt_q v @ '' for flag -'' @ flag_name s @
                      '': '' @ Error e))
                  | Inr a' \<Rightarrow> parse_flags fs args a')
             | None \<Rightarrow>
                 (case args of
                    [] \<Rightarrow> Inl (FlagFailure (''flag needs an argument: -'' @ flag_name s))
                  | v # args' \<Rightarrow>
                      (case put v a of
                         Inl e \<Rightarrow> Inl (FlagFailure (''invalid value '' @ fmt_q v @ '' for flag -'' @ flag_name s @
                           '': '' @ Error e))
                       | Inr a' \<Rightarrow> parse_flags fs args' a')))))"

declare parse_flags.simps [simp del]

definition names_flag :: "string \<Rightarrow> string \<Rightarrow> bool" where
  "names_flag n s \<longleftrightarrow> is_flag s \<and> flag_name s = n"

section \<open>Lemmas\<close>

text \<open>What a set flag keeps of a view of the options.\<close>

definition keeps :: "('a \<Rightarrow> 'v) \<Rightarrow> 'a flag_value \<Rightarrow> bool" where
  "keeps view f \<longleftrightarrow> (case f of
     BoolFlag put \<Rightarrow> \<forall>x a. view (put x a) = view a
   | ValueFlag put \<Rightarrow> \<forall>s a a'. put s a = Inr a' \<longrightarrow> view a' = view a)"

lemma keeps_StringFlag: "(\<And>f a. view (upd f a) = view a) \<Longrightarrow> keeps view (StringFlag upd)"
  by (auto simp: keeps_def StringFlag_def)

text \<open>Only a flag that is named on the command line can change what it sets.\<close>

lemma parse_flags_keeps:
  assumes "parse_flags fs args a = Inr (a', rest)"
    and "\<And>n f. (n, f) \<in> set fs \<Longrightarrow> keeps view f \<or> (\<forall>s \<in> set args. \<not> names_flag n s)"
  shows "view a' = view a"
  using assms
proof (induction fs args a rule: parse_flags.induct)
  case (2 fs s args a)
  show ?case
  proof (cases "is_flag s \<and> s \<noteq> ''--''")
    case False
    with "2.prems"(1) show ?thesis by (auto simp: parse_flags.simps(2) split: if_splits)
  next
    case True
    with "2.prems"(1) obtain f where f: "map_of fs (flag_name s) = Some f"
      and g: "\<not> (flag_text s = [] \<or> hd (flag_text s) = CHR ''-'' \<or> hd (flag_text s) = CHR ''='')"
      by (auto simp: parse_flags.simps(2) split: if_splits option.splits)
    have k: "keeps view f" using "2.prems"(2) [OF map_of_SomeD [OF f]] True by (auto simp: names_flag_def)
    have rest: "keeps view f' \<or> (\<forall>s \<in> set xs. \<not> names_flag n s)" if "(n, f') \<in> set fs" "set xs \<subseteq> set args" for n f' xs
      using "2.prems"(2) [OF that(1)] that(2) by auto
    note ne = conjunct2 [OF True] and fl = conjunct1 [OF True]
    show ?thesis
    proof (cases f)
      case (BoolFlag put)
      show ?thesis
      proof (cases "flag_argument s")
        case None
        have "view a' = view (put True a)"
          by (rule "2.IH"(1) [OF ne _ g f BoolFlag None])
            (use "2.prems"(1) ne fl g f BoolFlag None rest in \<open>auto simp: parse_flags.simps(2)\<close>)
        with k show ?thesis by (simp add: keeps_def BoolFlag)
      next
        case (Some v)
        obtain x where x: "ParseBool v = Some x"
          using "2.prems"(1) ne fl g f BoolFlag Some by (auto simp: parse_flags.simps(2) split: option.splits)
        have "view a' = view (put x a)"
          by (rule "2.IH"(2) [OF ne _ g f BoolFlag Some x])
            (use "2.prems"(1) ne fl g f BoolFlag Some x rest in \<open>auto simp: parse_flags.simps(2)\<close>)
        with k show ?thesis by (simp add: keeps_def BoolFlag)
      qed
    next
      case (ValueFlag put)
      show ?thesis
      proof (cases "flag_argument s")
        case (Some v)
        obtain a1 where a1: "put v a = Inr a1"
          using "2.prems"(1) ne fl g f ValueFlag Some by (auto simp: parse_flags.simps(2) split: sum.splits)
        have "view a' = view a1"
          by (rule "2.IH"(4) [OF ne _ g f ValueFlag Some a1])
            (use "2.prems"(1) ne fl g f ValueFlag Some a1 rest in \<open>auto simp: parse_flags.simps(2)\<close>)
        with k a1 show ?thesis by (simp add: keeps_def ValueFlag)
      next
        case None
        obtain v args' a1 where a1: "args = v # args'" "put v a = Inr a1"
          using "2.prems"(1) ne fl g f ValueFlag None
          by (auto simp: parse_flags.simps(2) split: list.splits sum.splits)
        have "view a' = view a1"
          by (rule "2.IH"(3) [OF ne _ g f ValueFlag None a1])
            (use "2.prems"(1) ne fl g f ValueFlag None a1 rest in \<open>auto simp: parse_flags.simps(2)\<close>)
        with k a1 show ?thesis by (simp add: keeps_def ValueFlag)
      qed
    qed
  qed
qed (simp add: parse_flags.simps)

text \<open>A value given with an equals sign, and a value in the next argument.\<close>

lemma parse_flags_value:
  assumes "map_of fs n = Some (StringFlag upd)" and "n \<noteq> []" and "hd n \<notin> {CHR ''-'', CHR ''=''}"
    and "CHR ''='' \<notin> set n"
  shows "parse_flags fs ((CHR ''-'' # n @ ''='' @ v) # args) a = parse_flags fs args (upd (\<lambda>_. v) a)"
    and "parse_flags fs ((CHR ''-'' # n) # v # args) a = parse_flags fs args (upd (\<lambda>_. v) a)"
proof -
  obtain c cs where n: "n = c # cs" "c \<noteq> CHR ''-''" "c \<noteq> CHR ''=''"
    using assms(2,3) by (cases n) auto
  have t: "takeWhile (\<lambda>x. x \<noteq> CHR ''='') cs = cs" "dropWhile (\<lambda>x. x \<noteq> CHR ''='') cs = []"
    using assms(4) n(1) by (auto simp: takeWhile_eq_all_conv dropWhile_eq_Nil_conv)
  have tv: "takeWhile (\<lambda>x. x \<noteq> CHR ''='') (cs @ CHR ''='' # v) = cs"
    "dropWhile (\<lambda>x. x \<noteq> CHR ''='') (cs @ CHR ''='' # v) = CHR ''='' # v"
    using assms(4) n(1) by (auto simp: takeWhile_append dropWhile_append)
  show "parse_flags fs ((CHR ''-'' # n @ ''='' @ v) # args) a = parse_flags fs args (upd (\<lambda>_. v) a)"
    using assms(1) n by (simp add: parse_flags.simps(2) is_flag_def flag_text_def flag_name_def before_byte_def
        flag_argument_def tv StringFlag_def)
  show "parse_flags fs ((CHR ''-'' # n) # v # args) a = parse_flags fs args (upd (\<lambda>_. v) a)"
    using assms(1,4) n by (simp add: parse_flags.simps(2) is_flag_def flag_text_def flag_name_def before_byte_def
        flag_argument_def t StringFlag_def)
qed

end
