(* ===== verification/Commands.thy ===== *)
theory Commands
  imports AcpServer Observability BridgeJson AcpBridge ImportDemo Flags
begin

text \<open>
  The commands from their command line on: \<open>cmd/acp-server\<close>, \<open>cmd/acp-bridge\<close> and
  \<open>cmd/import-demo\<close> with their flags, defaults, configuration files and exit codes. The environment,
  the file system and the network are arguments; the log of acp-server is in theory Telemetry; signals are not modelled.
\<close>

section \<open>acp-server\<close>




text \<open>What \<open>main\<close> sets tracing up with; an error leaves the process without it.\<close>

definition server_tracing ::
    "'f float64_ops \<Rightarrow> (string \<Rightarrow> string) \<Rightarrow> (resource_attr list \<Rightarrow> error option) \<Rightarrow>
     (string \<Rightarrow> bool \<Rightarrow> error option) \<Rightarrow> string \<Rightarrow> 'f tracing" where
  "server_tracing fp getenv merge exporter acpVersion =
     (case Init fp getenv merge exporter
         \<lparr> tc_service_name = ''acp-server'', tc_service_version = acpVersion,
           tc_environment = getenv ''CLAWD_DEPLOYMENT_ENV'', tc_otlp_endpoint = [], tc_insecure = False,
           tc_sampler_ratio = fp_of fp 0, tc_disabled = False \<rparr> of
        Inl e \<Rightarrow> Untouched
      | Inr t \<Rightarrow> t)"


definition acp_server_exit :: "listen_event \<Rightarrow> error option \<Rightarrow> nat" where
  "acp_server_exit ev stopped = (case ListenAndServe ev stopped of None \<Rightarrow> 0 | Some e \<Rightarrow> 1)"

section \<open>acp-bridge\<close>

record bridge_args =
  ba_config :: string
  ba_import_vscode :: bool
  ba_vscode_config :: string
  ba_version :: bool

definition bridge_flag_set :: "bridge_args flag_set" where
  "bridge_flag_set =
     [(''config'', StringFlag ba_config_update),
      (''import-vscode'', BoolFlag (\<lambda>b. ba_import_vscode_update (\<lambda>_. b))),
      (''vscode-mcp-config'', StringFlag ba_vscode_config_update),
      (''version'', BoolFlag (\<lambda>b. ba_version_update (\<lambda>_. b)))]"

definition bridge_defaults :: bridge_args where
  "bridge_defaults =
     \<lparr> ba_config = [], ba_import_vscode = False, ba_vscode_config = [], ba_version = False \<rparr>"

text \<open>The configuration file and the file of VS Code, by their tags.\<close>

definition zero_source_config :: source_config where
  "zero_source_config =
     \<lparr> sf_name = [], sf_type = [], sf_url = [], sf_command = [], sf_args = [], sf_env = [], sf_auth = [],
       sf_capabilities = [] \<rparr>"

definition dec_source_config :: "source_config dec" where
  "dec_source_config = dec_struct
     [(''name'', dec_field sf_name sf_name_update dec_string),
      (''type'', dec_field sf_type sf_type_update dec_string),
      (''url'', dec_field sf_url sf_url_update dec_string),
      (''command'', dec_field sf_command sf_command_update dec_string),
      (''args'', dec_field sf_args sf_args_update (dec_list [] dec_string)),
      (''env'', dec_field sf_env sf_env_update (dec_map [] dec_string)),
      (''auth'', dec_field sf_auth sf_auth_update dec_string),
      (''capabilities'', dec_field sf_capabilities sf_capabilities_update (dec_list [] dec_string))]"

definition zero_bridge_config :: bridge_config where
  "zero_bridge_config = \<lparr> bc_sources = [], bc_narrow_threshold = 0, bc_window_size = 0 \<rparr>"

definition dec_bridge_config :: "bridge_config dec" where
  "dec_bridge_config = dec_struct
     [(''sources'', dec_field bc_sources bc_sources_update (dec_list zero_source_config dec_source_config)),
      (''narrow_threshold'', dec_field bc_narrow_threshold bc_narrow_threshold_update dec_int),
      (''window_size'', dec_field bc_window_size bc_window_size_update dec_int)]"

definition zero_server_config :: mcp_server_config where
  "zero_server_config = \<lparr> vc_type = [], vc_command = [], vc_args = [], vc_env = [], vc_url = [] \<rparr>"

definition dec_server_config :: "mcp_server_config dec" where
  "dec_server_config = dec_struct
     [(''type'', dec_field vc_type vc_type_update dec_string),
      (''command'', dec_field vc_command vc_command_update dec_string),
      (''args'', dec_field vc_args vc_args_update (dec_list [] dec_string)),
      (''env'', dec_field vc_env vc_env_update (dec_map [] dec_string)),
      (''url'', dec_field vc_url vc_url_update dec_string)]"

definition zero_mcp_file :: mcp_file where
  "zero_mcp_file = \<lparr> mf_servers = [], mf_mcp_servers = [] \<rparr>"

definition dec_mcp_file :: "mcp_file dec" where
  "dec_mcp_file = dec_struct
     [(''servers'', dec_field mf_servers mf_servers_update (dec_map zero_server_config dec_server_config)),
      (''mcpServers'', dec_field mf_mcp_servers mf_mcp_servers_update (dec_map zero_server_config dec_server_config))]"

definition read_config :: "json_errors \<Rightarrow> (string \<Rightarrow> error + string) \<Rightarrow> string \<Rightarrow> error + bridge_config" where
  "read_config je readFile path =
     (if path = [] then Inr zero_bridge_config
      else (case readFile path of
          Inl e \<Rightarrow> Inl e
        | Inr data \<Rightarrow> Unmarshal je dec_bridge_config zero_bridge_config data))"

text \<open>\<open>default_path\<close> is \<open>DefaultUserMCPPath\<close>.\<close>

definition import_vscode ::
    "json_errors \<Rightarrow> (string \<Rightarrow> error + string) \<Rightarrow> string \<Rightarrow> bridge_args \<Rightarrow> error + vscode_source list" where
  "import_vscode je readFile default_path ba =
     (if \<not> ba_import_vscode ba \<and> ba_vscode_config ba = [] then Inr []
      else
        let path = (if ba_vscode_config ba = [] then default_path else ba_vscode_config ba) in
        if path = [] then Inl (Errorf ''could not resolve VS Code mcp.json path'')
        else (case Load readFile (Unmarshal je dec_mcp_file zero_mcp_file) path of
            Inl e \<Rightarrow> Inl e
          | Inr (sources, skipped) \<Rightarrow> Inr sources))"

text \<open>\<open>main\<close> up to serving: the exit code and what was printed, or the bridge.\<close>

definition acp_bridge_command ::
    "json_errors \<Rightarrow> (string \<Rightarrow> error + string) \<Rightarrow> string \<Rightarrow> string \<Rightarrow>
     (bridge_config \<Rightarrow> vscode_source list \<Rightarrow> bridge) \<Rightarrow> string list \<Rightarrow> nat \<times> string + bridge" where
  "acp_bridge_command je readFile default_path version set_up args =
     (case parse_flags bridge_flag_set args bridge_defaults of
        Inl e \<Rightarrow> Inl (flag_exit e, [])
      | Inr (ba, rest) \<Rightarrow>
          if ba_version ba then Inl (0, version @ [CHR 0x0A])
          else (case read_config je readFile (ba_config ba) of
              Inl e \<Rightarrow> Inl (1, [])
            | Inr cfg \<Rightarrow>
                (case import_vscode je readFile default_path ba of
                   Inl e \<Rightarrow> Inl (1, [])
                 | Inr imported \<Rightarrow> Inr (set_up cfg imported))))"

text \<open>The whole process: its exit code and its standard output for its standard input.\<close>

definition acp_bridge_process ::
    "(int \<Rightarrow> 'c \<Rightarrow> string \<Rightarrow> json \<Rightarrow> error + raw_message) \<Rightarrow> 'c downstream \<Rightarrow> (string \<Rightarrow> string) \<Rightarrow> json_errors \<Rightarrow>
     float_text \<Rightarrow> (string \<Rightarrow> error + string) \<Rightarrow> string \<Rightarrow> string \<Rightarrow> (nat \<Rightarrow> int) \<Rightarrow> string list \<Rightarrow> string \<Rightarrow>
     nat \<times> string" where
  "acp_bridge_process call env getenv je ft readFile default_path version clock args input =
     (case acp_bridge_command je readFile default_path version (acp_bridge_main call env getenv) args of
        Inl ended \<Rightarrow> ended
      | Inr b \<Rightarrow>
          (case bridge_process je ft clock b input of
             (out, too_long) \<Rightarrow> (if too_long then 1 else 0, out)))"

section \<open>import-demo\<close>

definition import_demo_command ::
    "mcp_net \<Rightarrow> string list \<Rightarrow> nat + mcp_source list \<times> (string \<times> (error + nat)) list \<times> tool list" where
  "import_demo_command n args =
     (case parse_flags [(''source'', ValueFlag SourceFlagSet)] args [] of
        Inl e \<Rightarrow> Inl (flag_exit e)
      | Inr (sources, rest) \<Rightarrow>
          (case import_demo_main n sources of
             Inl code \<Rightarrow> Inl code
           | Inr (reports, tools) \<Rightarrow> Inr (sources, reports, tools)))"

text \<open>The printed report. A field of a width is filled up by runes; a byte that is no rune counts as
  one.\<close>

function rune_count :: "string \<Rightarrow> nat" where
  "rune_count s = (if s = [] then 0 else Suc (rune_count (drop (max 1 (rune_len s)) s)))"
  by pat_completeness auto
termination by (relation "measure length") (auto simp: max_def)

declare rune_count.simps [simp del]

definition fmt_left :: "nat \<Rightarrow> string \<Rightarrow> string" where
  "fmt_left width s = s @ replicate (width - rune_count s) CHR '' ''"

definition fmt_strings :: "string list \<Rightarrow> string" where
  "fmt_strings xs = ''['' @ Join '' '' xs @ '']''"

definition box_line :: "nat \<Rightarrow> string" where
  "box_line k = concat (replicate k [CHR 0xE2, CHR 0x94, CHR 0x80])"

definition print_import :: "mcp_source \<times> (error + nat) \<Rightarrow> string" where
  "print_import r =
     (case r of (src, result) \<Rightarrow>
      box_line 3 @ '' '' @ src_name src @ '' ('' @ src_base_url src @ '') '' @ box_line 41 @ [CHR 0x0A] @
      (case result of
         Inl e \<Rightarrow> ''  '' @ [CHR 0xE2, CHR 0x9D, CHR 0x8C] @ '' import failed: '' @ Error e
       | Inr k \<Rightarrow> ''  '' @ [CHR 0xE2, CHR 0x9C, CHR 0x85] @ '' imported '' @ dec k @ '' tool(s)'') @
      [CHR 0x0A, CHR 0x0A])"

definition print_tool :: "tool \<Rightarrow> string" where
  "print_tool t =
     ''  '' @ fmt_left 40 (t_id t) @ ''  caps='' @ fmt_strings (t_capabilities t) @ ''  endpoint='' @
     t_endpoint t @ [CHR 0x0A]"

definition import_demo_output ::
    "mcp_source list \<times> (string \<times> (error + nat)) list \<times> tool list \<Rightarrow> string" where
  "import_demo_output r =
     (case r of (sources, reports, tools) \<Rightarrow>
      ''ACP MCP-source importer'' @ [CHR 0x0A] @ ''  upstream servers : '' @ dec (length sources) @
      [CHR 0x0A, CHR 0x0A] @ concat (map print_import (zip sources (map snd reports))) @
      ''=== ACP registry now holds '' @ dec (length tools) @ '' tool(s) ==='' @ [CHR 0x0A, CHR 0x0A] @
      concat (map print_tool tools))"

section \<open>Properties\<close>





text \<open>How sources are written on the command line of \<open>import-demo\<close>.\<close>

definition source_args :: "mcp_source list \<Rightarrow> string list" where
  "source_args srcs = concat (map (\<lambda>src. [''-source'', print_source src]) srcs)"

lemma parse_source_args:
  "list_all printable_source srcs \<Longrightarrow>
     parse_flags [(''source'', ValueFlag SourceFlagSet)] (source_args srcs) acc = Inr (acc @ srcs, [])"
proof (induction srcs arbitrary: acc)
  case (Cons src srcs)
  have f: "is_flag ''-source''" "flag_text ''-source'' = ''source''" "flag_name ''-source'' = ''source''"
    "flag_argument ''-source'' = None" by code_simp+
  have "SourceFlagSet (print_source src) acc = Inr (acc @ [src])"
    using Cons.prems by (intro sourceFlag_roundtrip) simp
  with Cons.IH [of "acc @ [src]"] Cons.prems f show ?case
    by (simp add: source_args_def parse_flags.simps(2) [of _ "''-source''"])
qed (simp add: source_args_def parse_flags.simps)

text \<open>the command line of \<open>import-demo\<close> means what it says. Any sources whose values have no comma, bar or
  surrounding blanks, written as one \<open>-source\<close> each, are what is imported, in their order; without
  any the exit code is 2.\<close>

theorem import_demo_command_line:
  assumes "list_all printable_source srcs"
  shows "import_demo_command n (source_args srcs) =
    (if srcs = [] then Inl 2
     else case import_each n srcs NewMemoryRegistry of (reports, reg) \<Rightarrow> Inr (srcs, reports, All reg))"
  using parse_source_args [OF assms, of "[]"]
  by (simp add: import_demo_command_def import_demo_main_def split: prod.split)

definition refused_net :: mcp_net where
  "refused_net = \<lparr> mn_build = (\<lambda>u. None), mn_fetch = (\<lambda>q. Inl (Errorf ''down'')),
     mn_decode = (\<lambda>s. Inr []) \<rparr>"

theorem import_demo_command_line_witness:
  "import_demo_command refused_net (source_args [\<lparr> src_name = ''gh'', src_base_url = ''http://gh:1'', src_type = [],
       src_auth = ''bearer x=y'', src_extra_capabilities = [''a'', ''b''] \<rparr>]) =
     Inr ([\<lparr> src_name = ''gh'', src_base_url = ''http://gh:1'', src_type = [], src_auth = ''bearer x=y'',
       src_extra_capabilities = [''a'', ''b''] \<rparr>], [(''gh'', Inl (Wrap ''mcp: fetch gh: '' (Errorf ''down'')))], [])"
proof -
  let ?s = "\<lparr> src_name = ''gh'', src_base_url = ''http://gh:1'', src_type = [], src_auth = ''bearer x=y'',
            src_extra_capabilities = [''a'', ''b''] \<rparr>"
  have p: "list_all printable_source [?s]" by code_simp
  show ?thesis unfolding import_demo_command_line [OF p, of refused_net] by code_simp
qed

end
