(* ===== verification/ToolListJson.thy ===== *)
theory ToolListJson
  imports BridgeJson
begin

text \<open>
  The body of a \<open>tools/list\<close> answer as \<open>internal/sources/mcp\<close> decodes it, and what becomes of the tools
  that a bridge lists when they are imported again through it.
\<close>

section \<open>Decoding\<close>







section \<open>Schemas have no numbers\<close>










section \<open>Properties\<close>





end
