(* ===== verification/AnfMcp.thy ===== *)
theory AnfMcp
  imports Generic K8sTranslator
begin

text \<open>
  The ANF MCP server: the JSON-RPC server of \<open>pkg/anfmcp/server.go\<close>, the tools that
  \<open>pkg/anftools/tools.go\<close> registers with it, and the wiring of \<open>cmd/anf-mcp/main.go\<close>. The JSON
  decoders (theories AnfJson and ViewJson have them) and the formatted time of the clock are arguments;
  lines and bytes are in AnfJson, logging is not modelled. The registration mutex makes every access atomic.
\<close>

section \<open>Data\<close>

definition protocolVersion :: string where
  "protocolVersion = ''2025-06-18''"

text \<open>A handler gets the formatted time and the arguments; \<open>None\<close> is a nil function, a nil schema.\<close>

type_synonym tool_handler = "string \<Rightarrow> (string \<times> json) list \<Rightarrow> error + string"

record anf_tool =
  at_name :: string
  at_description :: string
  at_input_schema :: "(string \<times> json) list option"
  at_handler :: "tool_handler option"

record anf_resource =
  rc_uri :: string
  rc_name :: string
  rc_description :: string
  rc_mime_type :: string
  rc_read :: "(error + string) option"

record anf_server =
  as_name :: string
  as_version :: string
  as_instructions :: string
  as_tools :: "(string \<times> anf_tool) list"
  as_tool_order :: "string list"
  as_resources :: "(string \<times> anf_resource) list"
  as_res_order :: "string list"

definition WithInstructions :: "string \<Rightarrow> anf_server \<Rightarrow> anf_server" where
  "WithInstructions txt s = s \<lparr> as_instructions := txt \<rparr>"

definition NewServer :: "string \<Rightarrow> string \<Rightarrow> (anf_server \<Rightarrow> anf_server) list \<Rightarrow> anf_server" where
  "NewServer name version opts =
     fold (\<lambda>opt s. opt s) opts
       \<lparr> as_name = name, as_version = version, as_instructions = [], as_tools = [], as_tool_order = [],
         as_resources = [], as_res_order = [] \<rparr>"

section \<open>Registration\<close>

definition AnfRegisterTool :: "anf_tool \<Rightarrow> anf_server \<Rightarrow> error + anf_server" where
  "AnfRegisterTool t s =
     (if at_name t = [] then Inl (Errorf ''anfmcp: tool name is empty'')
      else if at_handler t = None then
        Inl (Errorf (''anfmcp: tool '' @ fmt_q (at_name t) @ '' has nil handler''))
      else if map_of (as_tools s) (at_name t) \<noteq> None then
        Inl (Errorf (''anfmcp: tool '' @ fmt_q (at_name t) @ '' already registered''))
      else Inr (s \<lparr> as_tools := AList.update (at_name t) t (as_tools s),
                    as_tool_order := as_tool_order s @ [at_name t] \<rparr>))"

definition RegisterResource :: "anf_resource \<Rightarrow> anf_server \<Rightarrow> error + anf_server" where
  "RegisterResource r s =
     (if rc_uri r = [] then Inl (Errorf ''anfmcp: resource URI is empty'')
      else if rc_read r = None then
        Inl (Errorf (''anfmcp: resource '' @ fmt_q (rc_uri r) @ '' has nil reader''))
      else if map_of (as_resources s) (rc_uri r) \<noteq> None then
        Inl (Errorf (''anfmcp: resource '' @ fmt_q (rc_uri r) @ '' already registered''))
      else Inr (s \<lparr> as_resources := AList.update (rc_uri r) r (as_resources s),
                    as_res_order := as_res_order s @ [rc_uri r] \<rparr>))"

section \<open>Requests\<close>

text \<open>\<open>rpcRequest\<close>: the raw text of the id and of the parameters, empty when absent.\<close>

record anf_request =
  aq_id :: string
  aq_method :: string
  aq_params :: string

datatype anf_response =
  AnfResult string json
| AnfError string int string

record anf_codec =
  ac_request :: "string \<Rightarrow> error + anf_request"
  ac_version :: "string \<Rightarrow> error + string"
  ac_call :: "string \<Rightarrow> error + string \<times> (string \<times> json) list"
  ac_uri :: "string \<Rightarrow> error + string"

definition codeParseError :: int where "codeParseError = - 32700"
definition codeMethodNotFound :: int where "codeMethodNotFound = - 32601"
definition codeInvalidParams :: int where "codeInvalidParams = - 32602"
definition codeInternalError :: int where "codeInternalError = - 32603"

definition normalizeID :: "string \<Rightarrow> string" where
  "normalizeID i = (if i = [] then ''null'' else i)"

definition anf_ok :: "string \<Rightarrow> json \<Rightarrow> anf_response" where
  "anf_ok i result = AnfResult (normalizeID i) result"

definition anf_fail :: "string \<Rightarrow> int \<Rightarrow> string \<Rightarrow> anf_response" where
  "anf_fail i code message = AnfError (normalizeID i) code message"

text \<open>The maps below list their keys in the order in which they are marshalled.\<close>

definition server_capabilities :: json where
  "server_capabilities = JObj [(''resources'', JObj []), (''tools'', JObj [])]"

definition server_info :: "anf_server \<Rightarrow> json" where
  "server_info s = JObj [(''name'', JStr (as_name s)), (''version'', JStr (as_version s))]"

definition discoverResult :: "anf_server \<Rightarrow> json" where
  "discoverResult s =
     JObj ([(''capabilities'', server_capabilities)] @
       (if as_instructions s \<noteq> [] then [(''instructions'', JStr (as_instructions s))] else []) @
       [(''serverInfo'', server_info s), (''supportedVersions'', JArr [JStr protocolVersion])])"

definition initializeResult :: "anf_codec \<Rightarrow> anf_server \<Rightarrow> string \<Rightarrow> json" where
  "initializeResult cd s params =
     (let version =
        (if params = [] then protocolVersion
         else (case ac_version cd params of
             Inl e \<Rightarrow> protocolVersion
           | Inr v \<Rightarrow> if v \<noteq> [] then v else protocolVersion)) in
      JObj [(''capabilities'', server_capabilities), (''protocolVersion'', JStr version),
            (''serverInfo'', server_info s)])"

definition describe_tool :: "anf_tool \<Rightarrow> json" where
  "describe_tool t =
     JObj [(''description'', JStr (at_description t)),
           (''inputSchema'', JObj (case at_input_schema t of
              None \<Rightarrow> [(''type'', JStr ''object'')] | Some schema \<Rightarrow> schema)),
           (''name'', JStr (at_name t))]"

definition nil_tool :: anf_tool where
  "nil_tool = \<lparr> at_name = [], at_description = [], at_input_schema = None, at_handler = None \<rparr>"

definition toolsList :: "anf_server \<Rightarrow> json" where
  "toolsList s =
     JObj [(''tools'', JArr (map (\<lambda>name. describe_tool
        (case map_of (as_tools s) name of None \<Rightarrow> nil_tool | Some t \<Rightarrow> t)) (as_tool_order s)))]"

definition toolResult :: "string \<Rightarrow> bool \<Rightarrow> json" where
  "toolResult txt isError =
     JObj [(''content'', JArr [JObj [(''text'', JStr txt), (''type'', JStr ''text'')]]),
           (''isError'', JBool isError)]"

definition toolsCall :: "anf_codec \<Rightarrow> string \<Rightarrow> anf_server \<Rightarrow> anf_request \<Rightarrow> anf_response" where
  "toolsCall cd now s req =
     (case ac_call cd (aq_params req) of
        Inl e \<Rightarrow> anf_fail (aq_id req) codeInvalidParams (''invalid params: '' @ Error e)
      | Inr (name, args) \<Rightarrow>
          if name = [] then anf_fail (aq_id req) codeInvalidParams ''missing tool name''
          else (case map_of (as_tools s) name of
              None \<Rightarrow> anf_fail (aq_id req) codeInvalidParams (''unknown tool: '' @ name)
            | Some t \<Rightarrow>
                (case the (at_handler t) now args of
                   Inl e \<Rightarrow> anf_ok (aq_id req) (toolResult (Error e) True)
                 | Inr txt \<Rightarrow> anf_ok (aq_id req) (toolResult txt False))))"

definition nil_resource :: anf_resource where
  "nil_resource = \<lparr> rc_uri = [], rc_name = [], rc_description = [], rc_mime_type = [], rc_read = None \<rparr>"

definition describe_resource :: "anf_resource \<Rightarrow> json" where
  "describe_resource r =
     JObj [(''description'', JStr (rc_description r)), (''mimeType'', JStr (rc_mime_type r)),
           (''name'', JStr (rc_name r)), (''uri'', JStr (rc_uri r))]"

definition resourcesList :: "anf_server \<Rightarrow> json" where
  "resourcesList s =
     JObj [(''resources'', JArr (map (\<lambda>uri. describe_resource
        (case map_of (as_resources s) uri of None \<Rightarrow> nil_resource | Some r \<Rightarrow> r)) (as_res_order s)))]"

definition resourcesRead :: "anf_codec \<Rightarrow> anf_server \<Rightarrow> anf_request \<Rightarrow> anf_response" where
  "resourcesRead cd s req =
     (case ac_uri cd (aq_params req) of
        Inl e \<Rightarrow> anf_fail (aq_id req) codeInvalidParams (''invalid params: '' @ Error e)
      | Inr uri \<Rightarrow>
          if uri = [] then anf_fail (aq_id req) codeInvalidParams ''missing resource uri''
          else (case map_of (as_resources s) uri of
              None \<Rightarrow> anf_fail (aq_id req) codeInvalidParams (''unknown resource: '' @ uri)
            | Some r \<Rightarrow>
                (case the (rc_read r) of
                   Inl e \<Rightarrow> anf_fail (aq_id req) codeInternalError (''read resource: '' @ Error e)
                 | Inr body \<Rightarrow> anf_ok (aq_id req)
                     (JObj [(''contents'', JArr [JObj [(''mimeType'', JStr (rc_mime_type r)),
                        (''text'', JStr body), (''uri'', JStr (rc_uri r))]])]))))"

text \<open>\<open>handle\<close>; \<open>None\<close> when nothing is to be written.\<close>

definition anf_handle :: "anf_codec \<Rightarrow> string \<Rightarrow> anf_server \<Rightarrow> anf_request \<Rightarrow> anf_response option" where
  "anf_handle cd now s req =
     (let i = aq_id req; m = aq_method req in
      if i = [] then None
      else if m = ''server/discover'' then Some (anf_ok i (discoverResult s))
      else if m = ''initialize'' then Some (anf_ok i (initializeResult cd s (aq_params req)))
      else if m = ''ping'' then Some (anf_ok i (JObj []))
      else if m = ''tools/list'' then Some (anf_ok i (toolsList s))
      else if m = ''tools/call'' then Some (toolsCall cd now s req)
      else if m = ''resources/list'' then Some (anf_ok i (resourcesList s))
      else if m = ''resources/read'' then Some (resourcesRead cd s req)
      else Some (anf_fail i codeMethodNotFound (''method not found: '' @ m)))"

definition anf_line :: "anf_codec \<Rightarrow> string \<Rightarrow> anf_server \<Rightarrow> string \<Rightarrow> anf_response option" where
  "anf_line cd now s line =
     (case ac_request cd line of
        Inl e \<Rightarrow> Some (AnfError ''null'' codeParseError ''parse error'')
      | Inr req \<Rightarrow> anf_handle cd now s req)"

text \<open>
  \<open>Serve\<close>: what each call of \<open>Scan\<close> finds, with the formatted time then. A cancelled context is
  seen before the line is handled; a scanner error (a line beyond 16 MiB, a failing read) ends the
  loop, as does the end of the input.
\<close>

datatype anf_input = ALine string string | ACancelled error | AScanError error

fun AnfServe :: "anf_codec \<Rightarrow> anf_server \<Rightarrow> anf_input list \<Rightarrow> anf_response list \<times> error option" where
  "AnfServe cd s [] = ([], None)"
| "AnfServe cd s (AScanError e # is) = ([], Some (Wrap ''anfmcp: read: '' e))"
| "AnfServe cd s (ACancelled e # is) = ([], Some e)"
| "AnfServe cd s (ALine now line # is) =
     (let (out, err) = AnfServe cd s is in
      (if line = [] then (out, err)
       else (case anf_line cd now s line of None \<Rightarrow> (out, err) | Some r \<Rightarrow> (r # out, err))))"

section \<open>The tools\<close>

definition stringArg :: "(string \<times> json) list \<Rightarrow> string \<Rightarrow> string \<Rightarrow> string" where
  "stringArg args key dflt =
     (case as_string (field args key) of Some v \<Rightarrow> v | None \<Rightarrow> dflt)"

definition encodeHandler :: tool_handler where
  "encodeHandler now args =
     (case map_of args ''data'' of
        None \<Rightarrow> Inl (Errorf ''missing required argument: data'')
      | Some data \<Rightarrow>
          (case GenericTranslate data (stringArg args ''source'' ''agent-input'')
              (stringArg args ''scope'' []) now of
             Inl e \<Rightarrow> Inl (Wrap ''encode: '' e)
           | Inr doc \<Rightarrow> Inr (EncodeToString doc)))"

text \<open>The typed view is decoded from the arguments marshalled again.\<close>

record 'f view_codec =
  vw_marshal :: "json \<Rightarrow> error + string"
  vw_unmarshal :: "string \<Rightarrow> error + 'f namespace_view"
  vw_floats :: "'f float_ops"
  vw_durations :: duration_ops
  vw_sort :: "(anf_alert \<Rightarrow> nat) \<Rightarrow> anf_alert list \<Rightarrow> anf_alert list"

definition kubernetesHandler :: "'f view_codec \<Rightarrow> tool_handler" where
  "kubernetesHandler vw now args =
     (case map_of args ''view'' of
        None \<Rightarrow> Inl (Errorf ''missing required argument: view'')
      | Some raw \<Rightarrow>
          (case vw_marshal vw raw of
             Inl e \<Rightarrow> Inl (Wrap ''marshal view: '' e)
           | Inr b \<Rightarrow>
               (case vw_unmarshal vw b of
                  Inl e \<Rightarrow> Inl (Wrap ''decode view: '' e)
                | Inr view \<Rightarrow> Inr (EncodeToString
                    (KubernetesTranslate (vw_floats vw) (vw_durations vw) (vw_sort vw) view now)))))"

definition object_schema :: "(string \<times> json) list \<Rightarrow> string \<Rightarrow> (string \<times> json) list" where
  "object_schema props required =
     [(''properties'', JObj props), (''required'', JArr [JStr required]), (''type'', JStr ''object'')]"

definition encodeTool :: anf_tool where
  "encodeTool =
     \<lparr> at_name = ''anf_encode'',
       at_description = ''Encode an arbitrary JSON value as Agent Native Format (ANF), a '' @
         ''line-oriented, token-minimal representation. The mapping is deterministic and '' @
         ''structure-preserving: no fields are dropped and no semantics are inferred. Use it '' @
         ''to compress verbose JSON state before putting it in the context window.'',
       at_input_schema = Some (object_schema
         [(''data'', JObj [(''description'',
             JStr ''Any JSON value (object, array, or scalar) to encode as ANF.'')]),
          (''scope'', JObj [(''description'',
             JStr ''Optional label for the @scope header and root entity name.''), (''type'', JStr ''string'')]),
          (''source'', JObj [(''description'',
             JStr ''Optional label for the @source header (default \"agent-input\").''),
             (''type'', JStr ''string'')])] ''data''),
       at_handler = Some encodeHandler \<rparr>"

definition kubernetesTool :: "'f view_codec \<Rightarrow> anf_tool" where
  "kubernetesTool vw =
     \<lparr> at_name = ''anf_encode_kubernetes'',
       at_description = ''Encode a Kubernetes namespace view as ANF using the domain '' @
         ''translator, which surfaces health, alerts, and available actions first. Input '' @
         ''is a namespace view object with cluster, namespace, and resource lists.'',
       at_input_schema = Some (object_schema
         [(''view'', JObj [(''description'',
             JStr (''A Kubernetes namespace view: cluster, namespace, deployments[], '' @
               ''services[], jobs[], cronjobs[], events[], agentPermissions{}.'')),
             (''type'', JStr ''object'')])] ''view''),
       at_handler = Some (kubernetesHandler vw) \<rparr>"

definition AnfToolsRegister :: "'f view_codec \<Rightarrow> anf_server \<Rightarrow> error + anf_server" where
  "AnfToolsRegister vw s =
     (case AnfRegisterTool encodeTool s of
        Inl e \<Rightarrow> Inl e
      | Inr s' \<Rightarrow> AnfRegisterTool (kubernetesTool vw) s')"

section \<open>The command\<close>

definition anf_instructions :: string where
  "anf_instructions =
     ''anf_encode turns any JSON value into Agent Native Format: a line-oriented, '' @
     ''token-minimal representation that keeps the same facts in far fewer tokens. Use it to '' @
     ''compress verbose tool output or system state before adding it to context. '' @
     ''anf_encode_kubernetes does the same for a Kubernetes namespace view and surfaces health first. '' @
     ''Read the anf://spec/format resource for the exact format.''"

definition spec_resource :: "string \<Rightarrow> anf_resource" where
  "spec_resource specMarkdown =
     \<lparr> rc_uri = ''anf://spec/format'', rc_name = ''Agent Native Format specification'',
       rc_description = ''The ANF format definition (FORMAT.md).'', rc_mime_type = ''text/markdown'',
       rc_read = Some (Inr specMarkdown) \<rparr>"

text \<open>\<open>version\<close> and the embedded \<open>FORMAT.md\<close> are set at build time.\<close>

definition buildServer :: "'f view_codec \<Rightarrow> string \<Rightarrow> string \<Rightarrow> error + anf_server" where
  "buildServer vw version specMarkdown =
     (case AnfToolsRegister vw (NewServer ''anf-mcp'' version [WithInstructions anf_instructions]) of
        Inl e \<Rightarrow> Inl e
      | Inr s \<Rightarrow> RegisterResource (spec_resource specMarkdown) s)"

section \<open>Lemmas\<close>

text \<open>What registration keeps: the order lists are the keys of the maps, without repetition, and
  everything registered has a name and something to call.\<close>

definition server_inv :: "anf_server \<Rightarrow> bool" where
  "server_inv s \<longleftrightarrow> map fst (as_tools s) = as_tool_order s \<and> distinct (as_tool_order s) \<and>
     map fst (as_resources s) = as_res_order s \<and> distinct (as_res_order s) \<and>
     list_all (\<lambda>(n, t). n = at_name t \<and> n \<noteq> [] \<and> at_handler t \<noteq> None) (as_tools s) \<and>
     list_all (\<lambda>(u, r). u = rc_uri r \<and> u \<noteq> [] \<and> rc_read r \<noteq> None) (as_resources s)"

lemma server_inv_New: "server_inv (NewServer name version [])"
  by (simp add: server_inv_def NewServer_def)

lemma server_inv_Instructions: "server_inv (WithInstructions txt s) = server_inv s"
  by (simp add: server_inv_def WithInstructions_def)

lemma update_unbound: "map_of m k = None \<Longrightarrow> AList.update k v m = m @ [(k, v)]"
  by (rule update_new) (simp add: map_of_eq_None_iff)

lemma AnfRegisterTool_Inr:
  "AnfRegisterTool t s = Inr s' \<longleftrightarrow> at_name t \<noteq> [] \<and> at_handler t \<noteq> None \<and>
     map_of (as_tools s) (at_name t) = None \<and>
     s' = s \<lparr> as_tools := as_tools s @ [(at_name t, t)], as_tool_order := as_tool_order s @ [at_name t] \<rparr>"
  by (auto simp: AnfRegisterTool_def update_unbound)

lemma RegisterResource_Inr:
  "RegisterResource r s = Inr s' \<longleftrightarrow> rc_uri r \<noteq> [] \<and> rc_read r \<noteq> None \<and>
     map_of (as_resources s) (rc_uri r) = None \<and>
     s' = s \<lparr> as_resources := as_resources s @ [(rc_uri r, r)], as_res_order := as_res_order s @ [rc_uri r] \<rparr>"
  by (auto simp: RegisterResource_def update_unbound)

lemma unbound_key: "map fst m = ks \<Longrightarrow> map_of m k = None \<longleftrightarrow> k \<notin> set ks"
  by (metis map_of_eq_None_iff set_map)

lemma server_inv_RegisterTool:
  assumes "server_inv s" and "AnfRegisterTool t s = Inr s'" shows "server_inv s'"
proof -
  have "map fst (as_tools s) = as_tool_order s" using assms(1) by (simp add: server_inv_def)
  moreover have "map_of (as_tools s) (at_name t) = None" using assms(2) unfolding AnfRegisterTool_Inr by (elim conjE)
  ultimately have "at_name t \<notin> set (as_tool_order s)" using unbound_key by metis
  with assms show ?thesis unfolding AnfRegisterTool_Inr server_inv_def by simp
qed

lemma server_inv_RegisterResource:
  assumes "server_inv s" and "RegisterResource r s = Inr s'" shows "server_inv s'"
proof -
  have "map fst (as_resources s) = as_res_order s" using assms(1) by (simp add: server_inv_def)
  moreover have "map_of (as_resources s) (rc_uri r) = None" using assms(2) unfolding RegisterResource_Inr by (elim conjE)
  ultimately have "rc_uri r \<notin> set (as_res_order s)" using unbound_key by metis
  with assms show ?thesis unfolding RegisterResource_Inr server_inv_def by simp
qed

text \<open>The registration of several tools, as far as it goes.\<close>

fun register_tools_in_order :: "anf_tool list \<Rightarrow> anf_server \<Rightarrow> error + anf_server" where
  "register_tools_in_order [] s = Inr s"
| "register_tools_in_order (t # ts) s =
     (case AnfRegisterTool t s of Inl e \<Rightarrow> Inl e | Inr s' \<Rightarrow> register_tools_in_order ts s')"

lemma register_tools_in_order:
  assumes "server_inv s"
  shows "case register_tools_in_order ts s of
      Inl e \<Rightarrow> \<not> (list_all (\<lambda>t. at_name t \<noteq> [] \<and> at_handler t \<noteq> None) ts \<and>
        distinct (as_tool_order s @ map at_name ts))
    | Inr s' \<Rightarrow> list_all (\<lambda>t. at_name t \<noteq> [] \<and> at_handler t \<noteq> None) ts \<and>
        distinct (as_tool_order s @ map at_name ts) \<and> server_inv s' \<and>
        as_tools s' = as_tools s @ map (\<lambda>t. (at_name t, t)) ts"
  using assms
proof (induction ts arbitrary: s)
  case (Cons t ts)
  have keys: "map fst (as_tools s) = as_tool_order s" "distinct (as_tool_order s)"
    using Cons.prems by (simp_all add: server_inv_def)
  note unbound = unbound_key [OF keys(1), of "at_name t"]
  show ?case
  proof (cases "AnfRegisterTool t s")
    case (Inl e)
    then have "at_name t = [] \<or> at_handler t = None \<or> at_name t \<in> set (as_tool_order s)"
      using unbound by (auto simp: AnfRegisterTool_def split: if_splits)
    with Inl show ?thesis by auto
  next
    case (Inr s')
    note s' = Inr [unfolded AnfRegisterTool_Inr]
    then have new: "at_name t \<noteq> []" "at_handler t \<noteq> None" "at_name t \<notin> set (as_tool_order s)"
      and sel: "as_tool_order s' = as_tool_order s @ [at_name t]"
        "as_tools s' = as_tools s @ [(at_name t, t)]"
      using unbound by auto
    have inv: "server_inv s'" by (rule server_inv_RegisterTool [OF Cons.prems Inr])
    from Cons.IH [OF inv] show ?thesis
      using new sel Inr by (cases "register_tools_in_order ts s'") auto
  qed
qed (use assms in \<open>simp add: server_inv_def\<close>)

lemma toolsList_inv:
  assumes "server_inv s"
  shows "toolsList s = JObj [(''tools'', JArr (map (describe_tool \<circ> snd) (as_tools s)))]"
proof -
  have keys: "map fst (as_tools s) = as_tool_order s" "distinct (map fst (as_tools s))"
    using assms by (simp_all add: server_inv_def)
  have "(case map_of (as_tools s) (fst e) of None \<Rightarrow> nil_tool | Some t \<Rightarrow> t) = snd e"
    if "e \<in> set (as_tools s)" for e
    using map_of_is_SomeI [OF keys(2), of "fst e" "snd e"] that by simp
  then have "map (\<lambda>name. describe_tool (case map_of (as_tools s) name of None \<Rightarrow> nil_tool | Some t \<Rightarrow> t))
      (as_tool_order s) = map (describe_tool \<circ> snd) (as_tools s)"
    unfolding keys(1) [symmetric] map_map by (intro map_cong refl) simp
  then show ?thesis by (simp only: toolsList_def)
qed

text \<open>The server the command builds.\<close>

definition anf_mcp_server :: "'f view_codec \<Rightarrow> string \<Rightarrow> string \<Rightarrow> anf_server" where
  "anf_mcp_server vw version md =
     \<lparr> as_name = ''anf-mcp'', as_version = version, as_instructions = anf_instructions,
       as_tools = [(''anf_encode'', encodeTool), (''anf_encode_kubernetes'', kubernetesTool vw)],
       as_tool_order = [''anf_encode'', ''anf_encode_kubernetes''],
       as_resources = [(''anf://spec/format'', spec_resource md)],
       as_res_order = [''anf://spec/format''] \<rparr>"

lemma buildServer: "buildServer vw version md = Inr (anf_mcp_server vw version md)"
proof -
  have "at_name encodeTool = ''anf_encode''" "at_handler encodeTool \<noteq> None"
    "at_name (kubernetesTool vw) = ''anf_encode_kubernetes''" "at_handler (kubernetesTool vw) \<noteq> None"
    "rc_uri (spec_resource md) = ''anf://spec/format''" "rc_read (spec_resource md) \<noteq> None"
    by (simp_all add: encodeTool_def kubernetesTool_def spec_resource_def)
  then show ?thesis
    by (simp add: buildServer_def AnfToolsRegister_def AnfRegisterTool_def RegisterResource_def
        NewServer_def WithInstructions_def anf_mcp_server_def)
qed

definition anf_reply_id :: "anf_response \<Rightarrow> string" where
  "anf_reply_id r = (case r of AnfResult i _ \<Rightarrow> i | AnfError i _ _ \<Rightarrow> i)"

lemma anf_handle_id:
  "case anf_handle cd now s req of None \<Rightarrow> aq_id req = [] | Some r \<Rightarrow> aq_id req \<noteq> [] \<and> anf_reply_id r = aq_id req"
  by (auto simp: anf_handle_def Let_def toolsCall_def resourcesRead_def anf_ok_def anf_fail_def
      normalizeID_def anf_reply_id_def split: sum.split option.split prod.split)

fun served :: "anf_input list \<Rightarrow> (string \<times> string) list" where
  "served (ALine now line # is) = (now, line) # served is"
| "served is = []"

lemma AnfServe_eq:
  "fst (AnfServe cd s is) =
     List.map_filter (\<lambda>(now, line). if line = [] then None else anf_line cd now s line) (served is)"
  by (induction cd s "is" rule: AnfServe.induct) (auto simp: map_filter_simps split_beta split: option.split)

section \<open>Properties\<close>

text \<open>C35: the reply discipline of the ANF server. The replies are those of the lines before the first
  read error or cancellation, in order; an empty line and a message without an id get none, a line
  that is no JSON request gets one parse error with a null id, and every other line exactly one
  reply, with the id of its request. What a line is answered does not depend on the lines before.\<close>

theorem anf_one_reply_per_request:
  "fst (AnfServe cd s is) =
     List.map_filter (\<lambda>(now, line). if line = [] then None else anf_line cd now s line) (served is) \<and>
   (case ac_request cd line of
      Inl e \<Rightarrow> anf_line cd now s line = Some (AnfError ''null'' (- 32700) ''parse error'')
    | Inr req \<Rightarrow> (case anf_line cd now s line of
        None \<Rightarrow> aq_id req = []
      | Some r \<Rightarrow> aq_id req \<noteq> [] \<and> anf_reply_id r = aq_id req))"
  unfolding anf_line_def codeParseError_def
  using AnfServe_eq [of cd s "is", unfolded anf_line_def codeParseError_def]
    anf_handle_id [where cd = cd and now = now and s = s]
  by (cases "ac_request cd line") simp_all

text \<open>tools are listed in the order of their registration. Registering tools one after the other
  succeeds exactly when all have a name and a handler and no name is taken or repeated, and then
  the list shows the tools there were before and these, each once and as described.\<close>

theorem registered_tools_are_listed:
  assumes "server_inv s"
  shows "case register_tools_in_order ts s of
      Inl e \<Rightarrow> (\<exists>t \<in> set ts. at_name t = [] \<or> at_handler t = None) \<or>
        \<not> distinct (as_tool_order s @ map at_name ts)
    | Inr s' \<Rightarrow> list_all (\<lambda>t. at_name t \<noteq> [] \<and> at_handler t \<noteq> None) ts \<and>
        distinct (as_tool_order s @ map at_name ts) \<and> server_inv s' \<and>
        toolsList s' = JObj [(''tools'', JArr (map (describe_tool \<circ> snd) (as_tools s) @ map describe_tool ts))]"
proof (cases "register_tools_in_order ts s")
  case (Inl e)
  with register_tools_in_order [OF assms, of ts] show ?thesis by (auto simp: list_all_iff)
next
  case (Inr s')
  with register_tools_in_order [OF assms, of ts] toolsList_inv [of s'] show ?thesis by (simp add: o_def)
qed

theorem registered_tools_are_listed_witness:
  "case register_tools_in_order [encodeTool] (NewServer ''x'' ''1'' []) of
     Inl e \<Rightarrow> False
   | Inr s' \<Rightarrow> toolsList s' = JObj [(''tools'', JArr [describe_tool encodeTool])]"
proof -
  have "register_tools_in_order [encodeTool] (NewServer ''x'' ''1'' []) =
      Inr (sum.projr (AnfRegisterTool encodeTool (NewServer ''x'' ''1'' [])))"
    by (simp add: AnfRegisterTool_def encodeTool_def NewServer_def)
  moreover have "as_tools (NewServer ''x'' ''1'' []) = []" by (simp add: NewServer_def)
  ultimately show ?thesis
    using registered_tools_are_listed [OF server_inv_New [of "''x''" "''1''"], of "[encodeTool]"] by simp
qed

text \<open>\<open>anf_encode\<close> loses nothing. The server that the command builds answers a call of the tool
  with an error text exactly when \<open>data\<close> is missing or nested beyond the bound; otherwise with the
  encoding of a document that holds every scalar of the data with its path, exactly as often, and
  neither alerts nor actions.\<close>

theorem anf_encode_lossless:
  assumes "ac_call cd (aq_params req) = Inr (''anf_encode'', args)" and "aq_id req \<noteq> []"
  shows "buildServer vw version md = Inr (anf_mcp_server vw version md) \<and>
    (\<exists>txt failed. toolsCall cd now (anf_mcp_server vw version md) req =
        AnfResult (aq_id req) (toolResult txt failed) \<and>
      (case map_of args ''data'' of
         None \<Rightarrow> failed \<and> txt = ''missing required argument: data''
       | Some data \<Rightarrow>
           if maxDepth + 1 < nesting data
           then failed \<and> txt = ''encode: generic: input nesting exceeds 512 levels''
           else \<not> failed \<and> (\<exists>d. txt = EncodeToString d \<and>
             mset (document_leaves d) = mset (input_leaves data) \<and> dc_alerts d = [] \<and> dc_actions d = [])))"
proof -
  have call: "toolsCall cd now (anf_mcp_server vw version md) req =
      (case encodeHandler now args of
         Inl e \<Rightarrow> AnfResult (aq_id req) (toolResult (Error e) True)
       | Inr txt \<Rightarrow> AnfResult (aq_id req) (toolResult txt False))"
    using assms by (simp add: toolsCall_def anf_mcp_server_def encodeTool_def anf_ok_def normalizeID_def
        split: sum.split)
  have "\<exists>txt failed. toolsCall cd now (anf_mcp_server vw version md) req =
        AnfResult (aq_id req) (toolResult txt failed) \<and>
      (case map_of args ''data'' of
         None \<Rightarrow> failed \<and> txt = ''missing required argument: data''
       | Some data \<Rightarrow>
           if maxDepth + 1 < nesting data
           then failed \<and> txt = ''encode: generic: input nesting exceeds 512 levels''
           else \<not> failed \<and> (\<exists>d. txt = EncodeToString d \<and>
             mset (document_leaves d) = mset (input_leaves data) \<and> dc_alerts d = [] \<and> dc_actions d = []))"
  proof (cases "map_of args ''data''")
    case None
    with call show ?thesis by (auto simp: encodeHandler_def)
  next
    case (Some data)
    let ?T = "GenericTranslate data (stringArg args ''source'' ''agent-input'') (stringArg args ''scope'' []) now"
    note lossless = Translate_lossless [of data "stringArg args ''source'' ''agent-input''"
      "stringArg args ''scope'' []" now]
    show ?thesis
    proof (cases ?T)
      case (Inl e)
      with lossless Some call show ?thesis by (auto simp: encodeHandler_def too_deep_def)
    next
      case (Inr d)
      with lossless Some call show ?thesis
        by (intro exI [of _ "EncodeToString d"] exI [of _ False]) (auto simp: encodeHandler_def)
    qed
  qed
  with buildServer show ?thesis by blast
qed

definition demo_codec :: anf_codec where
  "demo_codec = \<lparr> ac_request = (\<lambda>l. Inl (Errorf ''bad'')), ac_version = (\<lambda>p. Inr []),
     ac_call = (\<lambda>p. if p = ''k8s'' then Inr (''anf_encode_kubernetes'', [(''view'', JNull)])
       else Inr (''anf_encode'', [(''data'', JObj [(''a'', JNum p)])])),
     ac_uri = (\<lambda>p. Inr p) \<rparr>"

definition demo_anf_request :: "string \<Rightarrow> anf_request" where
  "demo_anf_request p = \<lparr> aq_id = ''1'', aq_method = ''tools/call'', aq_params = p \<rparr>"

definition demo_vw :: "int view_codec" where
  "demo_vw = \<lparr> vw_marshal = (\<lambda>j. Inr []), vw_unmarshal = (\<lambda>b. Inr demo_view), vw_floats = demo_floats,
     vw_durations = demo_durations, vw_sort = sort_key \<rparr>"

theorem anf_encode_lossless_witness:
  "\<exists>d. toolsCall demo_codec [] (anf_mcp_server demo_vw ''v'' ''spec'') (demo_anf_request ''9007199254740993'') =
      AnfResult ''1'' (toolResult (EncodeToString d) False) \<and>
     mset (document_leaves d) = {# ([''object'', ''a''], ''9007199254740993'') #}"
proof -
  let ?data = "JObj [(''a'', JNum ''9007199254740993'')]"
  have "ac_call demo_codec (aq_params (demo_anf_request ''9007199254740993'')) =
      Inr (''anf_encode'', [(''data'', ?data)])"
    "aq_id (demo_anf_request ''9007199254740993'') = ''1''"
    by code_simp+
  moreover have "\<not> maxDepth + 1 < nesting ?data"
    "input_leaves ?data = [([''object'', ''a''], ''9007199254740993'')]"
    by code_simp+
  ultimately show ?thesis
    using anf_encode_lossless [of demo_codec "demo_anf_request ''9007199254740993''" "[(''data'', ?data)]"
      demo_vw "''v''" "''spec''" "[]"] by auto
qed

text \<open>least privilege in the text the agent reads. When the view can be decoded and none of its
  texts has a newline, \<open>anf_encode_kubernetes\<close> answers with a text whose action lines are exactly
  the actions derived from the view, all of them permitted by its permissions.\<close>

theorem anf_encode_kubernetes_least_privilege:
  assumes "ac_call cd (aq_params req) = Inr (''anf_encode_kubernetes'', args)" and "aq_id req \<noteq> []"
    and "map_of args ''view'' = Some raw" and "vw_marshal vw raw = Inr b"
    and "vw_unmarshal vw b = Inr view"
    and "document_ok (KubernetesTranslate (vw_floats vw) (vw_durations vw) (vw_sort vw) view now)"
  shows "\<exists>txt. toolsCall cd now (anf_mcp_server vw version md) req =
      AnfResult (aq_id req) (toolResult txt False) \<and>
    action_lines_of txt = map action_line (deriveActions view) \<and>
    (\<forall>a \<in> set (deriveActions view). permitted (nv_permissions view) (an_verb a))"
proof -
  let ?D = "KubernetesTranslate (vw_floats vw) (vw_durations vw) (vw_sort vw) view now"
  have "toolsCall cd now (anf_mcp_server vw version md) req =
      AnfResult (aq_id req) (toolResult (EncodeToString ?D) False)"
    using assms by (simp add: toolsCall_def anf_mcp_server_def kubernetesTool_def kubernetesHandler_def
        anf_ok_def normalizeID_def)
  moreover have "list_all (\<lambda>e. e_type e = [] \<or> hd (e_type e) \<noteq> CHR ''?'') (dc_entities ?D)"
    by (simp add: Translate_sel list_all_iff) (auto simp: translated_type)
  then have "action_lines_of (EncodeToString ?D) = map action_line (deriveActions view)"
    using action_lines [OF assms(6)] by (simp add: Translate_sel)
  moreover have "permitted (nv_permissions view) (an_verb a)" if "a \<in> set (deriveActions view)" for a
    using Translate_actions [of a "vw_floats vw" "vw_durations vw" "vw_sort vw" view now] that
    by (simp add: Translate_sel)
  ultimately show ?thesis by blast
qed

theorem anf_encode_kubernetes_least_privilege_witness:
  "\<exists>txt. toolsCall demo_codec [] (anf_mcp_server demo_vw ''v'' ''spec'') (demo_anf_request ''k8s'') =
      AnfResult ''1'' (toolResult txt False) \<and>
     action_lines_of txt = [''?rollout deployment api strategy:RollingUpdate to:api:2'', ''?logs pod api-0 since:1h'']"
proof -
  have "ac_call demo_codec (aq_params (demo_anf_request ''k8s'')) =
      Inr (''anf_encode_kubernetes'', [(''view'', JNull)])" "aq_id (demo_anf_request ''k8s'') = ''1''"
    "map_of [(''view'', JNull)] ''view'' = Some JNull"
    by code_simp+
  moreover have "vw_marshal demo_vw JNull = Inr []" "vw_unmarshal demo_vw [] = Inr demo_view"
    by (simp_all add: demo_vw_def)
  moreover have "document_ok (KubernetesTranslate (vw_floats demo_vw) (vw_durations demo_vw)
      (vw_sort demo_vw) demo_view [])"
    by code_simp
  moreover have "map action_line (deriveActions demo_view) =
      [''?rollout deployment api strategy:RollingUpdate to:api:2'', ''?logs pod api-0 since:1h'']"
    by code_simp
  ultimately show ?thesis
    using anf_encode_kubernetes_least_privilege [of demo_codec "demo_anf_request ''k8s''"
      "[(''view'', JNull)]" JNull demo_vw "[]" demo_view "[]" "''v''" "''spec''"] by auto
qed

end
