(* ===== verification/AnfJson.thy ===== *)
theory AnfJson
  imports AnfMcp JsonRpc
begin

text \<open>
  The ANF MCP server on bytes: its JSON-RPC messages by their struct tags, the parameters of its methods,
  and the Kubernetes view, whose fields have no tags and are matched by their names. Arguments of
  calls keep their numbers as they stand in the text (\<open>UseNumber\<close>).
\<close>

section \<open>Messages\<close>

definition zero_anf_request :: anf_request where
  "zero_anf_request = \<lparr> aq_id = [], aq_method = [], aq_params = [] \<rparr>"

definition dec_anf_request :: "anf_request dec" where
  "dec_anf_request = dec_struct
     [(''jsonrpc'', dec_ignored dec_string []),
      (''id'', dec_field aq_id aq_id_update dec_raw),
      (''method'', dec_field aq_method aq_method_update dec_string),
      (''params'', dec_field aq_params aq_params_update dec_raw)]"

definition dec_version :: "string dec" where
  "dec_version = dec_struct [(''protocolVersion'', dec_string)]"

definition dec_uri :: "string dec" where
  "dec_uri = dec_struct [(''uri'', dec_string)]"

definition dec_tool_call :: "(string \<times> json) dec" where
  "dec_tool_call = dec_struct
     [(''name'', dec_field fst apfst dec_string),
      (''arguments'', dec_field snd apsnd (dec_iface_map Some))]"

text \<open>The entries of a map; a nil map has none.\<close>

definition map_entries :: "json \<Rightarrow> (string \<times> json) list" where
  "map_entries j = (case j of JObj m \<Rightarrow> m | _ \<Rightarrow> [])"

definition anf_json :: "json_errors \<Rightarrow> anf_codec" where
  "anf_json je =
     \<lparr> ac_request = Unmarshal je dec_anf_request zero_anf_request,
       ac_version = Unmarshal je dec_version [],
       ac_call = (\<lambda>params. map_sum id (apsnd map_entries) (Decode je dec_tool_call ([], JNull) params)),
       ac_uri = Unmarshal je dec_uri [] \<rparr>"

text \<open>A response; the id is raw.\<close>

definition anf_id_tree :: "string \<Rightarrow> jtree" where
  "anf_id_tree i = (case parse_tree i of None \<Rightarrow> enc_null | Some t \<Rightarrow> html_tree t)"

fun enc_anf_response :: "anf_response \<Rightarrow> jtree" where
  "enc_anf_response (AnfResult i v) = enc_struct
     [version_field, (''id'', Some (anf_id_tree i)), (''result'', Some (raw_tree v))]"
| "enc_anf_response (AnfError i code msg) = enc_struct
     [version_field, (''id'', Some (anf_id_tree i)),
      (''error'', Some (enc_struct [(''code'', Some (enc_int code)), (''message'', Some (enc_string msg))]))]"

text \<open>An id that is no JSON is an error of the encoder, which is only logged.\<close>

definition anf_write :: "anf_response \<Rightarrow> string" where
  "anf_write r =
     (if parse_tree (anf_reply_id r) = None then [] else Marshal (enc_anf_response r) @ [CHR 0x0A])"

definition ErrTooLong :: error where
  "ErrTooLong = Errorf ''bufio.Scanner: token too long''"

text \<open>\<open>Serve\<close> from bytes to bytes without a cancellation; \<open>clock\<close> gives the formatted time of a line.\<close>

definition anf_inputs :: "(nat \<Rightarrow> string) \<Rightarrow> string \<Rightarrow> anf_input list" where
  "anf_inputs clock input =
     (case scan_lines (16 * 1024 * 1024) input of
        (ls, too_long) \<Rightarrow>
          map (\<lambda>(i, l). ALine (clock i) l) (zip [0..<length ls] ls) @
          (if too_long then [AScanError ErrTooLong] else []))"

definition anf_process ::
    "json_errors \<Rightarrow> (nat \<Rightarrow> string) \<Rightarrow> anf_server \<Rightarrow> string \<Rightarrow> string \<times> error option" where
  "anf_process je clock s input =
     (case AnfServe (anf_json je) s (anf_inputs clock input) of
        (out, err) \<Rightarrow> (concat (map anf_write out), err))"

text \<open>\<open>main\<close>: the exit code and the output for an input.\<close>

definition anf_mcp_process ::
    "json_errors \<Rightarrow> 'f view_codec \<Rightarrow> (nat \<Rightarrow> string) \<Rightarrow> string \<Rightarrow> string \<Rightarrow> string \<Rightarrow> nat \<times> string" where
  "anf_mcp_process je vw clock version specMarkdown input =
     (case buildServer vw version specMarkdown of
        Inl e \<Rightarrow> (1, [])
      | Inr s \<Rightarrow> (case anf_process je clock s input of
          (out, err) \<Rightarrow> (if err = None then 0 else 1, out)))"

section \<open>The output is framed\<close>

lemma parsed_anf_id:
  assumes "ac_request (anf_json je) line = Inr req" shows "aq_id req = [] \<or> written_id (aq_id req)"
proof -
  obtain t where t: "parse_tree line = Some t" "req = fst (dec_anf_request t zero_anf_request)"
    using assms by (auto simp: anf_json_def Unmarshal_def decoded_def split: option.splits prod.splits if_splits)
  have "aq_id (fst (dec_anf_request t zero_anf_request)) = [] \<or> written_id (aq_id (fst (dec_anf_request t zero_anf_request)))"
    unfolding dec_anf_request_def
  proof (rule dec_struct_inv)
    show "aq_id zero_anf_request = [] \<or> written_id (aq_id zero_anf_request)" by (simp add: zero_anf_request_def)
    fix f :: "string \<times> anf_request dec" and k v and a :: anf_request
    assume f: "f \<in> set [(''jsonrpc'', dec_ignored dec_string []),
        (''id'', dec_field aq_id aq_id_update dec_raw),
        (''method'', dec_field aq_method aq_method_update dec_string),
        (''params'', dec_field aq_params aq_params_update dec_raw)]"
      and v: "(k, v) \<in> set (members t)" and a: "aq_id a = [] \<or> written_id (aq_id a)"
    have "written_id (tree_text v)" by (rule written_member [OF t(1) v])
    with f a show "aq_id (fst (snd f v a)) = [] \<or> written_id (aq_id (fst (snd f v a)))"
      by (auto simp: dec_ignored_def dec_field_def dec_raw_def case_prod_unfold)
  qed
  with t(2) show ?thesis by simp
qed

text \<open>A response whose parts can be written.\<close>

definition anf_writable :: "anf_response \<Rightarrow> bool" where
  "anf_writable r \<longleftrightarrow> written_id (anf_reply_id r) \<and>
     (case r of AnfResult i v \<Rightarrow> good 9999 (raw_tree v) | AnfError i code msg \<Rightarrow> True)"

lemma good_anf_response:
  assumes "anf_writable r"
  shows "good maxNestingDepth (enc_anf_response r)"
proof -
  have i: "good 9999 (anf_id_tree (anf_reply_id r))"
    using assms written_id_parse good_html by (fastforce simp: anf_writable_def anf_id_tree_def)
  have "good (Suc 9999) (enc_anf_response r)"
  proof (cases r)
    case (AnfResult j v)
    with assms i show ?thesis
      unfolding AnfResult enc_anf_response.simps
      by (intro good_struct) (auto simp: anf_writable_def anf_reply_id_def dest: good_version)
  next
    case (AnfError j code msg)
    have "good (Suc 0) (enc_struct [(''code'', Some (enc_int code)), (''message'', Some (enc_string msg))])"
      by (intro good_struct) (auto simp: good_int good_string)
    then have "good 9999 (enc_struct [(''code'', Some (enc_int code)), (''message'', Some (enc_string msg))])"
      by (rule good_mono) simp
    with AnfError i show ?thesis
      unfolding AnfError enc_anf_response.simps
      by (intro good_struct) (auto simp: anf_reply_id_def dest: good_version)
  qed
  then show ?thesis by (simp add: maxNestingDepth_def)
qed

lemma anf_write_framed:
  assumes "anf_writable r"
  shows "\<exists>d. anf_write r = d @ [CHR 0x0A] \<and> CHR 0x0A \<notin> set d \<and> framed (anf_write r)"
proof -
  have "parse_tree (anf_reply_id r) \<noteq> None" using assms written_id_parse by (fastforce simp: anf_writable_def)
  moreover have "\<exists>fs. enc_anf_response r = enc_struct (version_field # fs)" by (cases r) auto
  ultimately show ?thesis
    using framed_Marshal good_anf_response [OF assms] by (fastforce simp: anf_write_def)
qed

text \<open>What the handlers of the built server answer.\<close>

lemma small_results:
  "no_numbers (toolResult txt failed)" "json_depth (toolResult txt failed) \<le> 9999"
  "no_numbers (initializeResult cd s params)" "json_depth (initializeResult cd s params) \<le> 9999"
  "no_numbers (discoverResult s)" "json_depth (discoverResult s) \<le> 9999"
  by (simp_all add: toolResult_def initializeResult_def discoverResult_def server_capabilities_def server_info_def Let_def)

lemma listed_results:
  "no_numbers (toolsList (anf_mcp_server vw version md))" "json_depth (toolsList (anf_mcp_server vw version md)) \<le> 9999"
  "no_numbers (resourcesList (anf_mcp_server vw version md))" "json_depth (resourcesList (anf_mcp_server vw version md)) \<le> 9999"
  by (simp_all add: toolsList_def resourcesList_def anf_mcp_server_def describe_tool_def encodeTool_def kubernetesTool_def
      object_schema_def describe_resource_def spec_resource_def)

lemma anf_handle_writable:
  assumes "anf_handle cd now (anf_mcp_server vw version md) req = Some r" and "aq_id req = [] \<or> written_id (aq_id req)"
  shows "anf_writable r"
proof -
  let ?s = "anf_mcp_server vw version md"
  have i: "aq_id req \<noteq> []" "anf_reply_id r = aq_id req"
    using anf_handle_id [where cd = cd and now = now and s = ?s and req = req] assms(1) by auto
  then have w: "written_id (anf_reply_id r)" using assms(2) by simp
  have n: "normalizeID (aq_id req) = aq_id req" using i by (simp add: normalizeID_def)
  have call: "\<exists>c msg txt failed. toolsCall cd now ?s req = AnfError (aq_id req) c msg \<or>
      toolsCall cd now ?s req = AnfResult (aq_id req) (toolResult txt failed)"
    by (auto simp: toolsCall_def anf_fail_def anf_ok_def n split: sum.split option.split prod.split)
  have read: "case resourcesRead cd ?s req of AnfError i c msg \<Rightarrow> True
      | AnfResult i v \<Rightarrow> no_numbers v \<and> json_depth v \<le> 9999"
    by (auto simp: resourcesRead_def anf_fail_def anf_ok_def split: sum.split option.split)
  have "case r of AnfError i c msg \<Rightarrow> True | AnfResult i v \<Rightarrow> no_numbers v \<and> json_depth v \<le> 9999"
    using assms(1) i call read small_results listed_results [of vw version md]
    by (auto simp: anf_handle_def Let_def anf_ok_def anf_fail_def split: if_splits)
  with w show ?thesis by (auto simp: anf_writable_def intro: good_no_numbers split: anf_response.splits)
qed

lemma anf_line_writable:
  assumes "anf_line (anf_json je) now (anf_mcp_server vw version md) line = Some r"
  shows "anf_writable r"
proof (cases "ac_request (anf_json je) line")
  case (Inl e)
  have "good 9999 (JtLit ''null'')" using good_null by (simp add: enc_null_def)
  then have "written_id ''null''" by (auto simp: written_id_def intro!: exI [of _ "JtLit ''null''"])
  with assms Inl show ?thesis by (auto simp: anf_line_def anf_writable_def anf_reply_id_def)
next
  case (Inr req)
  with assms parsed_anf_id [OF Inr] show ?thesis by (auto simp: anf_line_def intro: anf_handle_writable)
qed

text \<open>the ANF server's output is framed, whatever it reads. For every input of the process that the
  command starts, every line it writes is a JSON object whose first member says
  \<open>"jsonrpc":"2.0"\<close>, nothing is written outside of such lines, and there are at most as many as lines
  that were read; the exit code is 0 unless a line was too long.\<close>

theorem anf_output_framed:
  "let (code, out) = anf_mcp_process je vw clock version md input in
   concat (stream_lines out) = out \<and> list_all framed (stream_lines out) \<and>
   length (stream_lines out) \<le> length (fst (scan_lines (16 * 1024 * 1024) input)) \<and>
   (code = 0 \<longleftrightarrow> \<not> snd (scan_lines (16 * 1024 * 1024) input))"
proof -
  let ?s = "anf_mcp_server vw version md"
  obtain ls too_long where ls: "scan_lines (16 * 1024 * 1024) input = (ls, too_long)" by (metis prod.exhaust)
  define ins where "ins = map (\<lambda>(i, l). ALine (clock i) l) (zip [0..<length ls] ls)"
  have inputs: "anf_inputs clock input = ins @ (if too_long then [AScanError ErrTooLong] else [])"
    unfolding anf_inputs_def ls prod.case ins_def by (rule refl)
  obtain out err where run: "AnfServe (anf_json je) ?s (anf_inputs clock input) = (out, err)" by (metis prod.exhaust)
  have out: "out = List.map_filter (\<lambda>(now, line). if line = [] then None else anf_line (anf_json je) now ?s line)
      (served (anf_inputs clock input))"
    using AnfServe_eq [of "anf_json je" ?s "anf_inputs clock input"] run by simp
  have lines: "served (xs @ (if too_long then [AScanError ErrTooLong] else [])) = served xs \<and> length (served xs) \<le> length xs"
    for xs by (induction xs rule: served.induct) auto
  have "length (List.map_filter f xs) \<le> length xs" for f :: "string \<times> string \<Rightarrow> anf_response option" and xs
    by (induction xs) (simp_all add: map_filter_simps split: option.split)
  then have len: "length out \<le> length ls"
    unfolding out inputs using lines [of ins] by (metis (no_types, lifting) ins_def length_map length_upt length_zip
        le_trans min.idem minus_nat.diff_0)
  have "anf_writable r" if "r \<in> set out" for r
    using that anf_line_writable unfolding out by (fastforce simp: map_filter_def split: if_splits)
  then have w: "\<forall>r \<in> set out. \<exists>d. anf_write r = d @ [CHR 0x0A] \<and> CHR 0x0A \<notin> set d \<and> framed (anf_write r)"
    using anf_write_framed by blast
  then have each: "map anf_write out = map (\<lambda>d. d @ [CHR 0x0A]) (map (butlast \<circ> anf_write) out)"
    by (auto intro!: map_cong)
  have "stream_lines (concat (map anf_write out)) = map anf_write out"
    unfolding each by (rule stream_lines_concat) (use w in \<open>auto simp: list_all_iff\<close>)
  moreover have "err = None \<longleftrightarrow> \<not> too_long"
  proof -
    have "snd (AnfServe cd s (map (\<lambda>(i, l). ALine (clock i) l) xs @ (if too_long then [AScanError ErrTooLong] else []))) = None
        \<longleftrightarrow> \<not> too_long" for cd s xs
      by (induction xs) (auto simp: case_prod_unfold Let_def split: option.split)
    from this [of "anf_json je" ?s "zip [0..<length ls] ls"] run show ?thesis by (simp add: inputs ins_def)
  qed
  ultimately show ?thesis
    using len w unfolding anf_mcp_process_def buildServer sum.case anf_process_def run prod.case ls fst_conv snd_conv Let_def
    by (auto simp: list_all_iff)
qed

section \<open>Calls as text\<close>










end
