(* ===== verification/ViewJson.thy ===== *)
theory ViewJson
  imports AnfJson
begin

text \<open>
  The Kubernetes view as \<open>pkg/anftools\<close> reads it from the arguments of a call: the fields of the structs
  of \<open>translators/kubernetes\<close> have no tags, so a member belongs to the field of its name up to the case of
  letters, and a member of any other name is ignored.
\<close>

section \<open>Decoding\<close>






















section \<open>Permissions\<close>




section \<open>Calls as text\<close>










end
