(* ===== verification/ServerSteps.thy ===== *)
theory ServerSteps
  imports AcpServer
begin

text \<open>
  The server with its concurrency: \<open>net/http\<close> runs every request in a goroutine of its own, so the
  handlers of \<open>internal/server/server.go\<close> and \<open>internal/proxy/proxy.go\<close> interleave. What they share is
  the manifest store and the feedback counter. A handler is a task: what it computes up to the one
  point where it touches the shared state, and what follows from there. The registry is not touched
  after seeding, the counter is atomic; the accesses to the manifest store are taken as atomic too,
  which the code does not ensure.
\<close>

section \<open>Handlers as tasks\<close>










section \<open>Tasks run alone\<close>








section \<open>Interleavings\<close>












section \<open>The server\<close>









section \<open>Properties\<close>














end
