(* ===== verification/Telemetry.thy ===== *)
theory Telemetry
  imports AcpServer Observability
begin

text \<open>
  The traces and the log of the server: the handlers of \<open>internal/server/server.go\<close> and
  \<open>internal/proxy/proxy.go\<close> with the spans they open and the lines they log, and the lines of
  \<open>cmd/acp-server/main.go\<close>. Erasing both gives the handlers of the theories Server and Proxy. Whether
  a span records is the decision of the OpenTelemetry SDK and an argument.
\<close>

section \<open>The log\<close>

datatype log_level = LevelInfo | LevelWarn | LevelError

record log_line =
  lg_level :: log_level
  lg_message :: string
  lg_attributes :: "(string \<times> attr_value) list"

definition InfoLine :: "string \<Rightarrow> (string \<times> attr_value) list \<Rightarrow> log_line" where
  "InfoLine msg attrs = \<lparr> lg_level = LevelInfo, lg_message = msg, lg_attributes = attrs \<rparr>"

definition WarnLine :: "string \<Rightarrow> (string \<times> attr_value) list \<Rightarrow> log_line" where
  "WarnLine msg attrs = \<lparr> lg_level = LevelWarn, lg_message = msg, lg_attributes = attrs \<rparr>"

definition ErrorLine :: "string \<Rightarrow> (string \<times> attr_value) list \<Rightarrow> log_line" where
  "ErrorLine msg attrs = \<lparr> lg_level = LevelError, lg_message = msg, lg_attributes = attrs \<rparr>"

text \<open>What a request leaves: the spans it opened, with the calls made on them, and its lines.\<close>

record telemetry =
  tl_spans :: "(span_start \<times> span option) list"
  tl_log :: "log_line list"

definition no_telemetry :: telemetry where
  "no_telemetry = \<lparr> tl_spans = [], tl_log = [] \<rparr>"

section \<open>The handlers\<close>

text \<open>\<open>handleContext\<close>: the span starts after the request is validated.\<close>

definition traced_context ::
    "codec \<Rightarrow> 's server_config \<Rightarrow> string \<Rightarrow> bool \<Rightarrow> request \<Rightarrow> 's server_state \<Rightarrow>
     (response \<times> 's server_state) \<times> telemetry" where
  "traced_context cd cfg newID recording r st =
     (if r_method r \<noteq> ''POST'' then
        ((writeError StatusMethodNotAllowed ''method not allowed'', st), no_telemetry)
      else (case decode_context cd (r_body r) of
        Inl e \<Rightarrow> ((writeError StatusBadRequest (''invalid json: '' @ Error e), st), no_telemetry)
      | Inr req \<Rightarrow>
        if TrimSpace (rq_intent req) = [] \<and> rq_capabilities req = [] then
          ((writeError StatusBadRequest ''intent or capabilities required'', st), no_telemetry)
        else if TrimSpace (rq_agent_id req) = [] then
          ((writeError StatusBadRequest ''agent_id is required'', st), no_telemetry)
        else
        let start = StartContextSpan (rq_intent req);
            sp = Some \<lparr> sp_recording = recording, sp_calls = [] \<rparr> in
        (case cfg_resolver cfg (rq_intent req) (rq_capabilities req) of
          Inl e \<Rightarrow> ((writeError StatusUnprocessableEntity (Error e), st),
            \<lparr> tl_spans = [(start, RecordError sp (Some e))], tl_log = [] \<rparr>)
        | Inr caps \<Rightarrow>
        (case cfg_builder cfg newID req caps of
          Inl e \<Rightarrow> ((writeError StatusUnprocessableEntity (Error e), st),
            \<lparr> tl_spans = [(start, RecordError sp (Some e))], tl_log = [] \<rparr>)
        | Inr out \<Rightarrow>
            ((json_response StatusOK (ManifestJson out),
              case cfg_persister cfg of None \<Rightarrow> st
              | Some put \<Rightarrow> st \<lparr> sv_store := put out (sv_store st) \<rparr>),
             \<lparr> tl_spans = [(start, SetManifestEmitted sp (m_id out) (int (length (m_actions out))) False)],
               tl_log = [InfoLine ''acp.context''
                 [(''agent_id'', AString (rq_agent_id req)), (''manifest_id'', AString (m_id out)),
                  (''actions'', AInt (int (length (m_actions out))))]] \<rparr>)))))"

text \<open>\<open>LoggingFeedbackSink.Record\<close> with its line, and \<open>handleFeedback\<close> with any sink that logs.\<close>

type_synonym logging_sink = "feedback_event \<Rightarrow> 64 word \<Rightarrow> (error option \<times> 64 word) \<times> log_line list"

definition LoggedRecord :: logging_sink where
  "LoggedRecord event n =
     ((None, n + 1),
      [InfoLine ''acp.feedback''
         [(''manifest_id'', AString (f_manifest_id event)), (''action_id'', AString (f_action_id event)),
          (''outcome'', AString (f_outcome event)), (''latency_ms'', AInt (f_latency_ms event))]])"

definition logged_feedback ::
    "codec \<Rightarrow> logging_sink option \<Rightarrow> request \<Rightarrow> 's server_state \<Rightarrow>
     (response \<times> 's server_state) \<times> log_line list" where
  "logged_feedback cd sink r st =
     (if r_method r \<noteq> ''POST'' then
        ((writeError StatusMethodNotAllowed ''method not allowed'', st), [])
      else (case decode_feedback cd (r_body r) of
        Inl e \<Rightarrow> ((writeError StatusBadRequest (''invalid json: '' @ Error e), st), [])
      | Inr event \<Rightarrow>
        if TrimSpace (f_manifest_id event) = [] then
          ((writeError StatusBadRequest ''manifest_id is required'', st), [])
        else if TrimSpace (f_action_id event) = [] then
          ((writeError StatusBadRequest ''action_id is required'', st), [])
        else (case sink of
          None \<Rightarrow> ((json_response StatusAccepted (StatusJson ''accepted''), st), [])
        | Some rec \<Rightarrow>
          (let ((err, n), lines) = rec event (sv_feedback st); st' = st \<lparr> sv_feedback := n \<rparr> in
           ((case err of
               Some e \<Rightarrow> writeError StatusInternalServerError (Error e)
             | None \<Rightarrow> json_response StatusAccepted (StatusJson ''accepted''), st'), lines)))))"

text \<open>The proxy: the line it logs before it forwards, and that of its error handler. The action's id is the
  one of the path, by which the action was found.\<close>

definition logged_exec ::
    "net \<Rightarrow> 's proxy_handler \<Rightarrow> 's \<Rightarrow> request \<Rightarrow> response \<times> log_line list" where
  "logged_exec n h s r =
     (case exec_decision (n_parse n) h s (r_path r) of
        Reply resp \<Rightarrow> (resp, [])
      | Forward manifestID a upstream creds \<Rightarrow>
          let ids = [(''manifest_id'', AString manifestID), (''action_id'', AString (a_id a))];
              line = InfoLine ''acp.proxy.exec'' (ids @ [(''upstream_host'', AString (u_host upstream))]) in
          (case n_transport n (Rewrite (n_prepare n) (n_peer n r) upstream creds r) of
             Inl e \<Rightarrow> (proxyError StatusBadGateway ''upstream error'',
               [line, WarnLine ''acp.proxy.upstream_error'' (ids @ [(''err'', AString (Error e))])])
           | Inr resp \<Rightarrow> (resp, [line])))"

text \<open>The bearer check logs nothing, nor does the mux.\<close>

definition traced_auth ::
    "string \<Rightarrow> (request \<Rightarrow> 's \<Rightarrow> (response \<times> 's) \<times> telemetry) \<Rightarrow> request \<Rightarrow> 's \<Rightarrow> (response \<times> 's) \<times> telemetry" where
  "traced_auth authToken next r st =
     (if authToken = [] then next r st
      else
        let got = TrimSpace (HeaderGet (r_headers r) ''Authorization'') in
        if \<not> HasPrefix got ''Bearer '' then
          ((writeError StatusUnauthorized ''missing bearer token'', st), no_telemetry)
        else if TrimSpace (TrimPrefix got ''Bearer '') \<noteq> authToken then
          ((writeError StatusUnauthorized ''invalid bearer token'', st), no_telemetry)
        else next r st)"

definition traced_serve ::
    "codec \<Rightarrow> 's server_config \<Rightarrow> (net \<times> 's proxy_handler) option \<Rightarrow> logging_sink option \<Rightarrow>
     string \<Rightarrow> bool \<Rightarrow> request \<Rightarrow> 's server_state \<Rightarrow> (response \<times> 's server_state) \<times> telemetry" where
  "traced_serve cd cfg proxy sink newID recording r st =
     (case mux_route (proxy \<noteq> None) r of
        Healthz \<Rightarrow> ((handleHealthz r, st), no_telemetry)
      | Context \<Rightarrow> traced_auth (cfg_auth_token cfg) (traced_context cd cfg newID recording) r st
      | Feedback \<Rightarrow> traced_auth (cfg_auth_token cfg)
          (\<lambda>r st. let (res, lines) = logged_feedback cd sink r st in (res, \<lparr> tl_spans = [], tl_log = lines \<rparr>)) r st
      | Exec \<Rightarrow> traced_auth (cfg_auth_token cfg)
          (\<lambda>r st. case proxy of None \<Rightarrow> ((writeError StatusNotFound [], st), no_telemetry)
            | Some (n, h) \<Rightarrow> let (resp, lines) = logged_exec n h (sv_store st) r in
                ((resp, st), \<lparr> tl_spans = [], tl_log = lines \<rparr>)) r st
      | Redirect p \<Rightarrow>
          ((\<lparr> s_status = StatusTemporaryRedirect, s_headers = [], s_body = Bytes [] \<rparr>, st), no_telemetry)
      | NotFound \<Rightarrow> ((http_not_found, st), no_telemetry))"

section \<open>The lines of the process\<close>

definition resolver_warning :: "string \<Rightarrow> log_line list" where
  "resolver_warning kind =
     (if kind = ''embedding'' then []
      else if kind = [] \<or> kind = ''keyword'' then []
      else [WarnLine ''acp-server unknown resolver, falling back to keyword'' [(''requested'', AString kind)]])"

text \<open>Up to the listener; \<open>tracing\<close> is the error of \<open>observability.Init\<close>.\<close>

definition startup_log :: "error option \<Rightarrow> string \<Rightarrow> server_flags \<Rightarrow> log_line list" where
  "startup_log tracing addr fl =
     (case tracing of None \<Rightarrow> []
      | Some e \<Rightarrow> [WarnLine ''acp.observability.init_failed'' [(''err'', AString (Error e))]]) @
     (case Seed Register NewMemoryRegistry of
        (Some e, reg) \<Rightarrow> [ErrorLine ''registry seed failed'' [(''err'', AString (Error e))]]
      | (None, reg) \<Rightarrow> resolver_warning (fl_resolver fl) @
          [InfoLine ''acp-server starting''
             [(''addr'', AString addr), (''auth_required'', ABool (fl_auth_token fl \<noteq> [])),
              (''proxy_enabled'', ABool (fl_enable_proxy fl)), (''auto_approve'', ABool (fl_auto_approve fl)),
              (''resolver'', AString (fl_resolver fl)), (''seeded_tools'', AInt (int (length (All reg))))]])"

text \<open>After \<open>ListenAndServe\<close>: a line, or the error on the standard error and exit code 1.\<close>

definition stop_log :: "error option \<Rightarrow> log_line list" where
  "stop_log err = (case err of None \<Rightarrow> [InfoLine ''acp-server stopped'' []] | Some e \<Rightarrow> [])"

text \<open>Of the token only whether there is one.\<close>

lemma startup_hides_token:
  "fl_auth_token fl \<noteq> [] \<Longrightarrow> tok \<noteq> [] \<Longrightarrow>
     startup_log tracing addr (fl \<lparr> fl_auth_token := tok \<rparr>) = startup_log tracing addr fl"
  by (simp add: startup_log_def split: option.split prod.split)

section \<open>Erasing the telemetry\<close>

lemma erase_context: "fst (traced_context cd cfg newID recording r st) = handleContext cd cfg newID r st"
  by (auto simp: traced_context_def handleContext_def Let_def split: sum.split option.split)

lemma erase_feedback:
  assumes "cfg_feedback cfg = map_option (\<lambda>rec event n. fst (rec event n)) sink"
  shows "fst (logged_feedback cd sink r st) = handleFeedback cd cfg r st"
  using assms
  by (auto simp: logged_feedback_def handleFeedback_def Let_def split: sum.split option.split prod.split)

lemma erase_exec: "fst (logged_exec n h s r) = ExecServeHTTP n h s r"
  by (auto simp: logged_exec_def ExecServeHTTP_def exec_sends_def Let_def split: decision.split sum.split)

lemma erase_auth:
  "fst (traced_auth authToken next r st) = requireAuth authToken (\<lambda>r st. fst (next r st)) r st"
  by (simp add: traced_auth_def requireAuth_def Let_def)

lemma erase_telemetry:
  assumes "cfg_feedback cfg = map_option (\<lambda>rec event n. fst (rec event n)) sink"
    and "cfg_proxy cfg = map_option (\<lambda>(n, h). ExecServeHTTP n h) proxy"
  shows "fst (traced_serve cd cfg proxy sink newID recording r st) = ServeHTTP cd cfg newID r st"
proof -
  have "proxy \<noteq> None \<longleftrightarrow> cfg_proxy cfg \<noteq> None" using assms(2) by auto
  then show ?thesis
    unfolding traced_serve_def ServeHTTP_def using assms(2)
    by (auto simp: erase_auth erase_context erase_feedback [OF assms(1)] erase_exec [symmetric] Let_def
        case_prod_unfold requireAuth_def split: route.split option.split)
qed

lemma main_feedback_logs: "map_option (\<lambda>rec event n. fst (rec event n)) (Some LoggedRecord) = Some Record"
  by (simp add: LoggedRecord_def Record_def fun_eq_iff)

text \<open>The traced server of \<open>cmd/acp-server\<close>.\<close>

definition traced_main ::
    "codec \<Rightarrow> resolve_fun \<Rightarrow> net \<Rightarrow> server_flags \<Rightarrow> registry \<Rightarrow> string \<Rightarrow> bool \<Rightarrow> request \<Rightarrow>
     memory_store server_state \<Rightarrow> (response \<times> memory_store server_state) \<times> telemetry" where
  "traced_main cd embedding n fl reg =
     traced_serve cd (main_config embedding n fl reg)
       (if fl_enable_proxy fl then Some (n, main_proxy fl) else None) (Some LoggedRecord)"

lemma erase_main:
  "fst (traced_main cd embedding n fl reg newID recording r st) =
     ServeHTTP cd (main_config embedding n fl reg) newID r st"
  unfolding traced_main_def
  by (rule erase_telemetry) (simp_all only: main_feedback_logs, simp_all add: main_config_def)

lemma traced_auth_accept:
  "authToken = [] \<or> authorized authToken r \<Longrightarrow> traced_auth authToken next r st = next r st"
  by (auto simp: traced_auth_def authorized_def Let_def)









section \<open>Properties\<close>





text \<open>C22: the trace of a context request says what happened. A request that is refused before it is resolved
  leaves nothing; one that cannot be resolved or built leaves a span marked with the error that the
  answer carries; one that is answered with a manifest leaves a span with that manifest's id and number
  of actions, and one line with the agent. The span is opened with the intent of the request.\<close>

theorem context_trace_exact:
  assumes "mux_route (proxy \<noteq> None) r = Context" and "cfg_auth_token cfg = [] \<or> authorized (cfg_auth_token cfg) r"
  shows "case traced_serve cd cfg proxy sink newID recording r st of ((resp, st'), tel) \<Rightarrow>
    if s_status resp = StatusOK \<or> s_status resp = StatusUnprocessableEntity then
      \<exists>req sp. decode_context cd (r_body r) = Inr req \<and>
        tl_spans tel = [(StartContextSpan (rq_intent req), Some sp)] \<and> sp_recording sp = recording \<and>
        (if s_status resp = StatusOK then
           \<exists>mf. s_body resp = ManifestJson mf \<and>
             sp_calls sp = (if recording then
               [SetAttribute ''clawd.acp.manifest_id'' (AString (m_id mf)),
                SetAttribute ''clawd.acp.action_count'' (AInt (int (length (m_actions mf)))),
                SetAttribute ''clawd.acp.cache_hit'' (ABool False)] else []) \<and>
             tl_log tel = [InfoLine ''acp.context''
               [(''agent_id'', AString (rq_agent_id req)), (''manifest_id'', AString (m_id mf)),
                (''actions'', AInt (int (length (m_actions mf))))]]
         else \<exists>e. s_body resp = ErrorJson (Error e) \<and>
             sp_calls sp = [RecordErrorCall e, SetStatusError (Error e)] \<and> tl_log tel = [])
    else tel = no_telemetry \<and> (s_status resp = StatusMethodNotAllowed \<or> s_status resp = StatusBadRequest)"
proof -
  have s: "traced_serve cd cfg proxy sink newID recording r st = traced_context cd cfg newID recording r st"
    using assms(1) traced_auth_accept [OF assms(2), of "traced_context cd cfg newID recording" st]
    by (simp add: traced_serve_def)
  show ?thesis
    unfolding s traced_context_def
    by (auto simp: Let_def writeError_def json_response_def RecordError_def SetManifestEmitted_def SetAttributes_def
        AttrCACPManifestID_def AttrCACPActions_def AttrCACPCacheHit_def split: sum.split)
qed

theorem context_trace_exact_witness:
  "\<exists>sp mf. tl_spans (snd (traced_serve demo_codec demo_config None None ''m-9'' True demo_context demo_state)) =
      [(StartContextSpan ''email the report'', Some sp)] \<and>
     s_body (fst (fst (traced_serve demo_codec demo_config None None ''m-9'' True demo_context demo_state))) = ManifestJson mf \<and>
     SetAttribute ''clawd.acp.manifest_id'' (AString (m_id mf)) \<in> set (sp_calls sp)"
proof -
  have route: "mux_route (None \<noteq> None) demo_context = Context" by code_simp
  have auth: "cfg_auth_token demo_config = [] \<or> authorized (cfg_auth_token demo_config) demo_context" by code_simp
  have ok: "s_status (fst (fst (traced_serve demo_codec demo_config None None ''m-9'' True demo_context demo_state))) = StatusOK"
    by code_simp
  have dec: "map_sum id rq_intent (decode_context demo_codec (r_body demo_context)) = Inr ''email the report''" by code_simp
  from context_trace_exact [where proxy = None and sink = None and st = demo_state and recording = True
      and newID = "''m-9''" and cd = demo_codec, OF route auth] ok dec
  show ?thesis by (auto split: prod.splits)
qed

text \<open>no request opens a span for an execution. The span \<open>acp.exec\<close>, which the package promises for every
  call through \<open>/v1/exec/\<close>, is never started: spans come from \<open>/v1/context\<close> alone.\<close>

theorem exec_opens_no_span:
  "mux_route (proxy \<noteq> None) r = Exec \<Longrightarrow>
     tl_spans (snd (traced_serve cd cfg proxy sink newID recording r st)) = []"
  by (auto simp: traced_serve_def traced_auth_def no_telemetry_def Let_def case_prod_unfold split: option.split)

end
