(* ===== verification/Spec2Isabelle.thy ===== *)
theory Spec2Isabelle
  imports Deferred K8sSource Generic K8sTranslator Embedding BridgeSession ClientJson Commands ToolListJson ViewJson
    ServerSteps Telemetry
begin

text \<open>
  A model of the Agent Context Protocol repository: the server that turns an intent into an execution
  manifest and forwards the manifest's actions with injected credentials, the bridge that offers the
  tools of many MCP servers as one, the Agent Native Format (ANF), and their commands and clients.
  This theory imports all others and holds the properties that span components.

  \<^bold>\<open>The server.\<close> A request to \<open>/v1/context\<close> goes through the bearer check, a resolver (intent and
  hints to capability tags), the registry's \<open>Lookup\<close> (tags to tools) and the builder (tools to a
  manifest), and the manifest is put into the store. A request to \<open>/v1/exec/\<close> names a stored manifest
  and an action; the proxy checks approval and egress and forwards it.

  \<^item> Prelude: what the model uses of Go's \<open>strings\<close> and \<open>fmt\<close> packages, maps as association lists
    with a notion of being the same map in another order, sorted key sets. Strings are byte lists;
    functions that depend on the Unicode tables are exact on ASCII and unspecified beyond it, so
    properties about names assume \<open>ascii\<close> where they need it.
  \<^item> Manifest (\<open>pkg/manifest/types.go\<close>): the wire types as records.
  \<^item> Registry (\<open>internal/registry\<close>): \<open>Register\<close>, \<open>Get\<close>, \<open>Lookup\<close>, \<open>All\<close>, \<open>Seed\<close>; the interfaces
    \<open>tool_registry\<close> and \<open>tool_source\<close> for its clients.
  \<^item> Resolver, Deferred, Embedding (\<open>internal/resolver\<close>): the keyword resolver, the resolver that
    narrows from observations (its runs as an inductive relation, its window refined to the history),
    and the one with hashed vectors. All interpret the interface \<open>capability_resolver\<close> or refine to a
    statement of the same kind. Float64 holds the arithmetic \<open>Embedding\<close> is parameterised with: what
    does not depend on rounding is proved for every arithmetic, the bounds of the similarity for the
    reals. The dimension is assumed below \<open>2 ^ 32\<close> because the code converts it to 32 bits.
  \<^item> Builder (\<open>internal/builder/builder.go\<close>): \<open>Build\<close>, with the dependency relation between actions.
  \<^item> Http, Proxy (\<open>internal/proxy/proxy.go\<close>): headers, the store, approval, egress, the decision and
    the forwarded request. Server (\<open>internal/server/server.go\<close>): routing, the bearer check, the
    handlers, runs of requests; the locale \<open>acp_service\<close> states what the server needs of its parts.
  \<^item> AcpServer (\<open>cmd/acp-server/main.go\<close>): the wiring, and the invariant that issued actions can be
    executed. Client (\<open>pkg/acp/client.go\<close>): the Go client, composed with the server. WireJson has the
    JSON of the wire types by their struct tags, and ClientJson a call of the client through it.
  \<^item> ServerSteps: the server with a goroutine per request. A handler is a task with at most one access
    to what the handlers share (the manifest store, the feedback counter); \<open>serving_run\<close> interleaves any
    number of them, and the locale \<open>atomic_handlers\<close> shows that such executions are linearizable.
  \<^item> Telemetry: the handlers of server and proxy once more with the spans and the log lines they leave,
    and the lines of the process; \<open>erase_main\<close> says that they are the handlers of Server and Proxy.

  \<^bold>\<open>The bridge.\<close> Sources are imported into a registry, their clients into a pool, and a session of
  JSON-RPC messages is served from both.

  \<^item> Json, McpSource (\<open>internal/sources/mcp\<close>), K8sSource (\<open>internal/sources/k8s\<close>): conversion of
    descriptors and annotated services, schema compaction, import with partial progress.
  \<^item> StdioClient (\<open>internal/mcpclient/stdio.go\<close>): requests over the pipes of a child process. A
    request is an inductive relation, because cancellation can strike at any read and leaves a
    reading goroutine behind; what the pipe delivers is a finite list of lines and errors, after
    which a read blocks until its context ends. The pool is the interface \<open>client_pool\<close>.
  \<^item> Bridge (\<open>internal/bridge/bridge.go\<close>): the handlers and the session. BridgeSession: a stdio client
    connected to a bridge, line by line. VscodeConfig
    (\<open>internal/vscodeconfig\<close>) and AcpBridge (\<open>cmd/acp-bridge/main.go\<close>): configuration, expansion of the
    environment, import of all sources (proved in \<open>bridge_imports\<close>, a locale over registry and pool,
    and interpreted by both models), set-up. ImportDemo (\<open>cmd/import-demo\<close>): its flag and its loop.
  \<^item> BridgeJson: the JSON-RPC messages of bridge and client by their struct tags, the bridge as a
    program on bytes; the locale \<open>reply_form\<close> states what replies are made of, and is interpreted
    for values that can be written and for values that come back. ToolListJson: the tool list as the
    MCP source decodes it.
  \<^item> Flags, Commands: the command lines of the three programs above, their configuration files,
    outputs and exit codes.

  \<^bold>\<open>ANF.\<close> Anf (\<open>pkg/anf\<close>): documents, number formatting, the encoder, and how its lines are read
  back. Generic (\<open>translators/generic\<close>): any JSON value to a document, with the nesting bound 512 of
  the code. K8sTranslator (\<open>translators/kubernetes\<close>): a namespace view to entities, alerts and permitted
  actions. AnfMcp (\<open>pkg/anfmcp\<close>, \<open>pkg/anftools\<close>, \<open>cmd/anf-mcp\<close>): the MCP server that offers both as
  tools. AnfJson and ViewJson: its messages, its process and the namespace view as JSON.
  Observability (\<open>internal/observability\<close>): span attributes, the fingerprint of an intent,
  the exporter's set-up and its shutdown.

  \<^bold>\<open>JSON.\<close> What the program uses of \<open>encoding/json\<close>, \<open>bufio\<close> and \<open>flag\<close> is modelled too. JsonText: a
  text and the tree of its literals, strings as they stand, with the decoder's limit of 10000 levels;
  printing and parsing are inverse. JsonString: quoting, escapes, UTF-8. JsonCodec: structs by their
  tags (case folding, \<open>omitempty\<close>, unknown members, members that come twice), \<open>Marshal\<close>, \<open>Unmarshal\<close>,
  \<open>Decode\<close>; the texts of decoding errors are the argument \<open>json_errors\<close>. JsonValue: \<open>interface{}\<close>,
  \<open>json.Number\<close> and raw messages; the text of a \<open>float64\<close> is the argument \<open>float_text\<close>. LineScanner: lines
  and their limit. JsonRpc: what the three JSON-RPC endpoints share.

  \<^bold>\<open>What the properties show.\<close> Safety of the proxy (\<open>exec_forwards_iff\<close>, \<open>no_agent_credentials\<close>,
  \<open>approval_fails_closed\<close>), exactness of the pipeline from intent to manifest (\<open>Lookup_exact\<close>,
  \<open>Build_manifest\<close>, \<open>depends_on_exact\<close>, the resolvers), liveness and invariants of the whole
  (\<open>named_capability_is_served\<close>, \<open>issued_actions_are_executable\<close>), also for concurrent requests
  (\<open>server_linearizable\<close>, \<open>issued_actions_run_concurrently\<close>), telemetry that is exact and gives no secret
  away (\<open>context_trace_exact\<close>, \<open>telemetry_keeps_secrets\<close>), correct routing of the bridge
  (\<open>calls_reach_their_source\<close>, \<open>responses_match_requests\<close>), termination of a request
  (\<open>request_terminates\<close>). From text to text: a call of the client library is a call of resolver and
  builder (\<open>client_call_is_local\<close>, \<open>wire_roundtrip\<close>), a call over the pipes is a call of the bridge's
  handlers (\<open>pipes_are_transparent\<close>, \<open>call_arrives\<close>, \<open>listed_tools_survive\<close>), the outputs are framed
  (\<open>bridge_output_framed\<close>, \<open>anf_output_framed\<close>), ANF loses nothing (\<open>anf_encode_over_text\<close>) and offers
  no more than the permissions allow (\<open>kubernetes_permissions_over_text\<close>), and the defaults of the server
  are safe for every command line (\<open>safe_by_default\<close>). Other
  theorems show where the code falls short of its intent, for instance \<open>http_tools_cannot_be_called\<close>,
  \<open>cancelled_read_loses_answer\<close>, \<open>colliding_names_misroute\<close>, \<open>newline_forges_action\<close>,
  \<open>Build_can_return_a_cycle\<close>, \<open>token_weight_exact\<close>, \<open>constraints_are_ignored\<close>,
  \<open>budgets_are_not_enforced\<close>.

  \<^bold>\<open>Modelling choices.\<close> Handlers are functions of the state and return it updated; a lock makes an
  operation one step. Concurrency appears where the server handles requests in parallel (ServerSteps) and
  where the stdio client leaves a goroutine behind. Errors are
  the left part of a sum; a panic that the code allows is \<open>None\<close>. Machine integers are words where they
  are hashed, counted up or wrap (request ids, hashes, number formatting); counters that are only
  compared or printed are integers. Clocks, random bytes, \<open>url.Parse\<close>, transports, file
  reads and the OpenTelemetry SDK are arguments. Go's random map order does not matter: where the
  code sorts, so does the model, and order-independence is proved where it does not.

  \<^bold>\<open>Not modelled.\<close> Listening sockets, signals, the logs of the bridge and the ANF server and what else
  goes to the standard error; the reverse
  proxy's transport, retries and streaming; what a signal does to a child process (\<open>StdioClient\<close>
  says when one is sent); errors of reading standard input other than a line that is too long; the
  data race on the manifest store, whose accesses are steps of the model. A result that the bridge
  passes on is kept by its value, so escapes that a downstream server chose are written canonically.
\<close>

section \<open>The server with either of its resolvers\<close>

lemma resolver_honours_hints:
  assumes "h \<in> set hints" and "norm_tag h \<noteq> []"
  obtains caps where "pickResolver (default_embedding fp) kind intent hints = Inr caps"
    and "norm_tag h \<in> set caps"
proof (cases "kind = ''embedding''")
  case True
  with embedding.hints_resolve [OF assms, of fp intent] that show thesis
    by (metis pickResolver_def)
next
  case False
  with keyword.hints_resolve [OF assms, of "NewKeywordResolver []" intent] that show thesis
    by (metis pickResolver_def)
qed

lemma built_has_tool:
  assumes "t \<in> set ts"
  shows "\<exists>a \<in> set (m_actions (built ts opts n)). a_endpoint a = t_endpoint t \<and>
    a_method a = t_method t \<and> a_schema a = t_schema t"
proof -
  from assms obtain i where "i < length ts" "t = ts ! i" by (metis in_set_conv_nth)
  then show ?thesis
    using built_action [of i ts opts n] length_built [of ts opts n]
      nth_mem [of i "m_actions (built ts opts n)"]
    by (intro bexI [of _ "m_actions (built ts opts n) ! i"]) (simp_all add: build_action_def)
qed

text \<open>C6: whoever names a capability gets its tools. With either resolver, an authorized context request
  that names, in any case and with any surrounding blanks, a capability of a registered tool is
  answered with 200 and a manifest that has an action for that tool, and the manifest is stored
  when the proxy is enabled.\<close>

theorem named_capability_is_served:
  assumes "r_method r = ''POST''" and "r_path r = ''/v1/context''" and "r_escaped_path r = ''/v1/context''"
    and "fl_auth_token fl = [] \<or> authorized (fl_auth_token fl) r"
    and "decode_context cd (r_body r) = Inr req" and "TrimSpace (rq_agent_id req) \<noteq> []"
    and "(k, t) \<in> set reg" and "c \<in> set (t_capabilities t)"
    and "h \<in> set (rq_capabilities req)" and "ascii h" and "ToLower c = norm_tag h" and "norm_tag h \<noteq> []"
  shows "\<exists>mf. ServeHTTP cd (main_config (default_embedding fp) n fl reg) newID r st =
      (json_response StatusOK (ManifestJson mf),
       if fl_enable_proxy fl then st \<lparr> sv_store := Put (Some mf) (sv_store st) \<rparr> else st) \<and>
    m_id mf = newID \<and>
    (\<exists>a \<in> set (m_actions mf). a_endpoint a = t_endpoint t \<and> a_method a = t_method t \<and> a_schema a = t_schema t)"
proof -
  let ?cfg = "main_config (default_embedding fp) n fl reg"
  obtain caps where caps: "pickResolver (default_embedding fp) (fl_resolver fl) (rq_intent req)
      (rq_capabilities req) = Inr caps" "norm_tag h \<in> set caps"
    using resolver_honours_hints [OF assms(9,12)] by blast
  have "norm_tag (norm_tag h) = norm_tag h"
    using assms(10) by (simp add: norm_tag_def ToLower_idem TrimSpace_ToLower TrimSpace_idem ascii_TrimSpace ascii_ToLower)
  then have "ToLower c \<in> set (normalizeSet caps)"
    using caps(2) assms(11,12) unfolding set_normalizeSet by (auto simp: norm_tag_def) metis
  then have mem: "t \<in> set (Lookup reg caps)"
    using assms(7,8) by (force simp: set_Lookup tool_matches_def list_ex_iff image_iff)
  let ?mf = "built (sort_key t_id (Lookup reg caps)) (builder_options fl) newID"
  have build: "Build (Lookup reg) (builder_options fl) newID req caps = Inr ?mf"
    using mem by (auto simp: Build_Inr)
  have "rq_capabilities req \<noteq> []" using assms(9) by auto
  then have "handleContext cd ?cfg newID r st = (json_response StatusOK (ManifestJson ?mf),
       if fl_enable_proxy fl then st \<lparr> sv_store := Put (Some ?mf) (sv_store st) \<rparr> else st)"
    using assms(1,5,6) caps(1) build by (simp add: handleContext_def main_config_def)
  moreover have "ServeHTTP cd ?cfg newID r st = handleContext cd ?cfg newID r st"
    using route_context [OF assms(2,3,1)] requireAuth_accept [OF assms(4), of "handleContext cd ?cfg newID" st]
    by (simp add: ServeHTTP_def) (simp add: main_config_def)
  ultimately show ?thesis
    using built_has_tool [of t "sort_key t_id (Lookup reg caps)" "builder_options fl" newID] mem
    by (intro exI [of _ ?mf]) simp
qed

definition demo_named_request :: context_request where
  "demo_named_request = \<lparr> rq_intent = [], rq_agent_id = ''agent'', rq_capabilities = ['' Database ''],
     rq_constraints = None \<rparr>"

theorem named_capability_is_served_witness:
  "\<exists>mf. fst (ServeHTTP (Server.demo_codec \<lparr> decode_context := \<lambda>b. Inr demo_named_request \<rparr>)
      (main_config (default_embedding real_ops) demo_net
        (demo_flags \<lparr> fl_auth_token := [], fl_resolver := ''embedding'' \<rparr>) seeded)
      ''m-1'' demo_context main_state) = json_response StatusOK (ManifestJson mf) \<and>
    (\<exists>a \<in> set (m_actions mf). a_endpoint a = ''grpc://db-proxy.svc:50051/query'')"
proof -
  let ?fl = "demo_flags \<lparr> fl_auth_token := [], fl_resolver := ''embedding'' \<rparr>"
  let ?cd = "Server.demo_codec \<lparr> decode_context := \<lambda>b. Inr demo_named_request \<rparr>"
  have r: "r_method demo_context = ''POST''" "r_path demo_context = ''/v1/context''"
    "r_escaped_path demo_context = ''/v1/context''" by (simp_all add: demo_context_def)
  have auth: "fl_auth_token ?fl = [] \<or> authorized (fl_auth_token ?fl) demo_context" by simp
  have dec: "decode_context ?cd (r_body demo_context) = Inr demo_named_request" by simp
  have req: "TrimSpace (rq_agent_id demo_named_request) \<noteq> []"
    "'' Database '' \<in> set (rq_capabilities demo_named_request)" "ascii '' Database ''"
    "ToLower ''database'' = norm_tag '' Database ''" "norm_tag '' Database '' \<noteq> []"
    by code_simp+
  have t: "hd seeded = (''db.query'', hd seed_tools)" "seeded \<noteq> []"
    "''database'' \<in> set (t_capabilities (hd seed_tools))"
    "t_endpoint (hd seed_tools) = ''grpc://db-proxy.svc:50051/query''" by code_simp+
  then have mem: "(''db.query'', hd seed_tools) \<in> set seeded" by (metis hd_in_set)
  show ?thesis
    using named_capability_is_served [OF r auth dec req(1) mem t(3) req(2-5),
        where fp = real_ops and n = demo_net and newID = "''m-1''" and st = main_state] t(4)
    by (elim exE conjE) (auto intro!: exI)
qed

end
